(* ===== verification/Prelude.thy ===== *)
theory Prelude
  imports Main "HOL-Library.Word"
begin

unbundle bit_operations_syntax

text \<open>
  Shared vocabulary of the development: the names of Rust's integer and byte types, the
  outcome types (\<open>Result\<close> as a datatype, a panic as \<open>None\<close>), the wrap-around arithmetic of the
  release profile, the byte order conversions of Rust's standard library, and the generic lemmas
  the component theories rest on.
\<close>

section \<open>Theorem collections\<close>

named_theorems wrap_simps \<open>arithmetic inside the range of a machine integer does not wrap\<close>
named_theorems byte_simps \<open>byte order conversions and their inverses\<close>
named_theorems codec_simps \<open>what a reader returns on what a writer wrote\<close>

section \<open>Types\<close>

type_synonym u8 = "8 word"
type_synonym u16 = "16 word"
type_synonym u32 = "32 word"
type_synonym u64 = "64 word"
type_synonym bytes = "u8 list"

text \<open>
  Signed integers that take part in arithmetic and comparisons are mathematical integers, with
  the wrap-around of the release profile written out at each operation.
\<close>

type_synonym i32 = int
type_synonym i64 = int

text \<open>Rust's \<open>Result\<close>. A panic is not an \<open>Err\<close>: an operation that may panic returns an
  \<open>option\<close>, with \<open>None\<close> for the panic.\<close>

datatype ('e, 'a) res = Err 'e | Ok 'a

type_synonym 'a may_panic = "'a option"

fun is_ok :: "('e, 'a) res \<Rightarrow> bool" where
  "is_ok (Ok _) = True"
| "is_ok (Err _) = False"

fun res_bind :: "('e, 'a) res \<Rightarrow> ('a \<Rightarrow> ('e, 'b) res) \<Rightarrow> ('e, 'b) res" where
  "res_bind (Ok a) f = f a"
| "res_bind (Err e) f = Err e"

fun ok_of :: "('e, 'a) res \<Rightarrow> 'a option" where
  "ok_of (Ok a) = Some a"
| "ok_of (Err _) = None"

lemma is_ok_iff: "is_ok r \<longleftrightarrow> (\<exists>a. r = Ok a)"
  by (cases r) auto

lemma ok_of_eq_Some [simp]: "ok_of r = Some a \<longleftrightarrow> r = Ok a"
  by (cases r) auto

lemma res_bind_eq_Ok [simp]: "res_bind r f = Ok b \<longleftrightarrow> (\<exists>a. r = Ok a \<and> f a = Ok b)"
  by (cases r) auto

text \<open>The result of polling a future or a service.\<close>

datatype 'a poll = Pending | Ready 'a

section \<open>Wrap-around arithmetic\<close>

definition in_i32 :: "int \<Rightarrow> bool" where
  "in_i32 x \<longleftrightarrow> - (2 ^ 31) \<le> x \<and> x < 2 ^ 31"

definition in_i64 :: "int \<Rightarrow> bool" where
  "in_i64 x \<longleftrightarrow> - (2 ^ 63) \<le> x \<and> x < 2 ^ 63"

definition wrap_i32 :: "int \<Rightarrow> i32" where
  "wrap_i32 x = (x + 2 ^ 31) mod 2 ^ 32 - 2 ^ 31"

definition wrap_i64 :: "int \<Rightarrow> i64" where
  "wrap_i64 x = (x + 2 ^ 63) mod 2 ^ 64 - 2 ^ 63"

text \<open>Integer division truncates towards zero.\<close>

definition rust_div :: "int \<Rightarrow> int \<Rightarrow> int" where
  "rust_div a b = (if 0 \<le> a * b then \<bar>a\<bar> div \<bar>b\<bar> else - (\<bar>a\<bar> div \<bar>b\<bar>))"

lemma wrap_i32_id [wrap_simps]: "in_i32 x \<Longrightarrow> wrap_i32 x = x"
  by (simp add: in_i32_def wrap_i32_def)

lemma wrap_i64_id [wrap_simps]: "in_i64 x \<Longrightarrow> wrap_i64 x = x"
  by (simp add: in_i64_def wrap_i64_def)

lemma wrap_i32_range: "in_i32 (wrap_i32 x)"
proof -
  have "0 \<le> (x + 2 ^ 31) mod 2 ^ 32" and "(x + 2 ^ 31) mod 2 ^ 32 < 2 ^ 32"
    by (rule pos_mod_sign, simp) (rule pos_mod_bound, simp)
  then show ?thesis by (simp add: in_i32_def wrap_i32_def)
qed

lemma rust_div_2_nonneg [wrap_simps]: "0 \<le> a \<Longrightarrow> rust_div a 2 = a div 2"
  by (simp add: rust_div_def)

section \<open>Byte order\<close>

text \<open>
  \<open>to_le_bytes\<close>/\<open>from_le_bytes\<close> of the integer types, on the unsigned value of the integer; the
  big-endian conversions are their reverses.
\<close>

fun le_bytes :: "nat \<Rightarrow> nat \<Rightarrow> bytes" where
  "le_bytes 0 k = []"
| "le_bytes (Suc n) k = of_nat (k mod 256) # le_bytes n (k div 256)"

fun le_val :: "bytes \<Rightarrow> nat" where
  "le_val [] = 0"
| "le_val (b # bs) = unat b + 256 * le_val bs"

definition be_bytes :: "nat \<Rightarrow> nat \<Rightarrow> bytes" where
  "be_bytes n k = rev (le_bytes n k)"

definition be_val :: "bytes \<Rightarrow> nat" where
  "be_val bs = le_val (rev bs)"

lemma unat_u8_less: "unat (b :: u8) < 256"
  using unsigned_less [of b, where ?'a = nat] by simp

lemma in_i32_byte: "in_i32 (int (unat (b :: u8)))"
proof -
  have "in_i32 (int n)" if "n < 256" for n :: nat using that by (simp add: in_i32_def)
  then show ?thesis using unat_u8_less .
qed

lemma in_i32_minus_1: "in_i32 (- 1)"
  by (simp add: in_i32_def)

lemma unat_u32_less: "unat (w :: u32) < 2 ^ 32"
  using unsigned_less [of w, where ?'a = nat] by simp

lemma unat_u64_less: "unat (w :: u64) < 2 ^ 64"
  using unsigned_less [of w, where ?'a = nat] by simp

lemma unat_of_nat_byte [byte_simps]: "unat (of_nat (k mod 256) :: u8) = k mod 256"
  by (simp add: unat_of_nat)

lemma length_le_bytes [simp]: "length (le_bytes n k) = n"
  by (induction n k rule: le_bytes.induct) auto

lemma length_be_bytes [simp]: "length (be_bytes n k) = n"
  by (simp add: be_bytes_def)

lemma le_val_le_bytes [byte_simps]: "le_val (le_bytes n k) = k mod 256 ^ n"
proof (induction n k rule: le_bytes.induct)
  case (2 n k)
  have "k mod 256 + 256 * (k div 256 mod 256 ^ n) = k mod (256 * 256 ^ n)"
    by (simp add: mod_mult2_eq)
  with 2 show ?case by (simp add: byte_simps)
qed simp

lemma le_bytes_le_val [byte_simps]: "le_bytes (length bs) (le_val bs) = bs"
proof (induction bs)
  case (Cons b bs)
  have b: "unat b < 256" by (rule unat_u8_less)
  then have "(unat b + 256 * le_val bs) mod 256 = unat b"
    and "(unat b + 256 * le_val bs) div 256 = le_val bs" by simp_all
  with Cons show ?case by simp
qed simp

lemma le_val_bound: "le_val bs < 256 ^ length bs"
proof (induction bs)
  case (Cons b bs)
  have "unat b < 256" by (rule unat_u8_less)
  with Cons show ?case by simp
qed simp

lemma be_val_be_bytes [byte_simps]: "be_val (be_bytes n k) = k mod 256 ^ n"
  by (simp add: be_val_def be_bytes_def byte_simps)

lemma unat_u32_mod [byte_simps]: "unat (w :: u32) mod 256 ^ 4 = unat w"
  using unat_u32_less [of w] by simp

lemma unat_u64_mod [byte_simps]: "unat (w :: u64) mod 256 ^ 8 = unat w"
  using unat_u64_less [of w] by simp

lemma take_le_bytes [byte_simps]: "m \<le> n \<Longrightarrow> take m (le_bytes n k) = le_bytes m k"
proof (induction m k arbitrary: n rule: le_bytes.induct)
  case (2 m k)
  then obtain n' where "n = Suc n'" and "m \<le> n'" by (cases n) auto
  with 2 show ?case by simp
qed simp

lemma le_val_append [byte_simps]: "le_val (xs @ ys) = le_val xs + 256 ^ length xs * le_val ys"
  by (induction xs) (auto simp: algebra_simps)

lemma wrap_i32_mod [wrap_simps]: "wrap_i32 (v mod 2 ^ 32) = wrap_i32 v"
  unfolding wrap_i32_def by (subst mod_add_left_eq) (rule refl)

lemma wrap_i64_mod [wrap_simps]: "wrap_i64 (v mod 2 ^ 64) = wrap_i64 v"
  unfolding wrap_i64_def by (subst mod_add_left_eq) (rule refl)

lemma int_nat_mod_i32 [byte_simps]: "int (nat (v mod 2 ^ 32) mod 256 ^ 4) = v mod 2 ^ 32"
proof -
  have "0 \<le> v mod 2 ^ 32" and "v mod 2 ^ 32 < 2 ^ 32" by simp_all
  then show ?thesis by (simp add: nat_less_iff)
qed

lemma int_nat_mod_i64 [byte_simps]: "int (nat (v mod 2 ^ 64) mod 256 ^ 8) = v mod 2 ^ 64"
proof -
  have "0 \<le> v mod 2 ^ 64" and "v mod 2 ^ 64 < 2 ^ 64" by simp_all
  then show ?thesis by (simp add: nat_less_iff)
qed

lemma and_mask_31: "v AND 0x7fffffff = v mod 2 ^ 31" for v :: int
proof -
  have "v AND mask 31 = take_bit 31 v" by (simp add: take_bit_eq_mask)
  then show ?thesis by (simp add: mask_eq_exp_minus_1 take_bit_eq_mod)
qed

lemma pad_to_4: "(n + (4 - n mod 4) mod 4) mod 4 = (0 :: nat)"
proof -
  consider "n mod 4 = 0" | "n mod 4 = 1" | "n mod 4 = 2" | "n mod 4 = 3" by linarith
  then show ?thesis by cases (simp_all, presburger+)
qed

end
