(* ===== verification/Tl_Codec.thy ===== *)
theory Tl_Codec
  imports Prelude "HOL-Library.Monad_Syntax"
begin

unbundle bit_operations_syntax

text \<open>
  The TL wire format of \<^verbatim>\<open>adnl-tcp\<close>: \<^verbatim>\<open>serializer.rs\<close>, \<^verbatim>\<open>deserializer.rs\<close> and \<^verbatim>\<open>types.rs\<close>.
  The crate \<^verbatim>\<open>bytes\<close>, whose \<open>BufMut\<close> and \<open>Buf\<close> methods append to and take from byte buffers, is a
  parameter (a record of its methods); the locale \<open>bytes_crate\<close> states their documented behaviour.
  The main results are that a reader returns what the matching writer wrote and leaves the bytes
  behind it untouched, for every scalar, for byte strings and for vectors of any element codec;
  and that \<open>write_bytes\<close> breaks this for long strings whose length is a multiple of four.
\<close>

section \<open>The \<^verbatim>\<open>bytes\<close> crate as a parameter\<close>

text \<open>Reading past the end of a buffer panics: the readers return \<open>None\<close> then.\<close>

record buf_ops =
  put_u8 :: "bytes \<Rightarrow> u8 \<Rightarrow> bytes"
  put_u32 :: "bytes \<Rightarrow> u32 \<Rightarrow> bytes"
  put_i32_le :: "bytes \<Rightarrow> i32 \<Rightarrow> bytes"
  put_i64_le :: "bytes \<Rightarrow> i64 \<Rightarrow> bytes"
  put_slice :: "bytes \<Rightarrow> bytes \<Rightarrow> bytes"
  put_bytes :: "bytes \<Rightarrow> u8 \<Rightarrow> nat \<Rightarrow> bytes"
  get_u8 :: "bytes \<Rightarrow> (u8 \<times> bytes) may_panic"
  get_u32 :: "bytes \<Rightarrow> (u32 \<times> bytes) may_panic"
  get_i32_le :: "bytes \<Rightarrow> (i32 \<times> bytes) may_panic"
  get_i64_le :: "bytes \<Rightarrow> (i64 \<times> bytes) may_panic"
  copy_to_slice :: "bytes \<Rightarrow> nat \<Rightarrow> (bytes \<times> bytes) may_panic"
  advance :: "bytes \<Rightarrow> nat \<Rightarrow> bytes may_panic"

section \<open>Serializer\<close>

record Serializer =
  output_buf :: bytes

definition reserve :: "Serializer \<Rightarrow> nat \<Rightarrow> Serializer" where
  \<comment> \<open>a capacity hint: the contents of the vector do not change\<close>
  "reserve se n = se"

definition write_constructor_number :: "buf_ops \<Rightarrow> Serializer \<Rightarrow> u32 \<Rightarrow> Serializer" where
  "write_constructor_number B se crc32 = se\<lparr>output_buf := put_u32 B (output_buf se) crc32\<rparr>"

definition write_i32 :: "buf_ops \<Rightarrow> Serializer \<Rightarrow> i32 \<Rightarrow> Serializer" where
  "write_i32 B se val = se\<lparr>output_buf := put_i32_le B (output_buf se) val\<rparr>"

definition write_i31 :: "buf_ops \<Rightarrow> Serializer \<Rightarrow> i32 \<Rightarrow> Serializer" where
  "write_i31 B se val = se\<lparr>output_buf := put_i32_le B (output_buf se) (val AND 0x7fffffff)\<rparr>"

definition write_i64 :: "buf_ops \<Rightarrow> Serializer \<Rightarrow> i64 \<Rightarrow> Serializer" where
  "write_i64 B se val = se\<lparr>output_buf := put_i64_le B (output_buf se) val\<rparr>"

definition write_i256 :: "buf_ops \<Rightarrow> Serializer \<Rightarrow> bytes \<Rightarrow> Serializer" where
  "write_i256 B se val = se\<lparr>output_buf := put_slice B (output_buf se) val\<rparr>"

definition write_bytes :: "buf_ops \<Rightarrow> Serializer \<Rightarrow> bytes \<Rightarrow> Serializer" where
  "write_bytes B se val =
     (if length val \<le> 253 then
        let padding = (length val + 1) mod 4 in
        if padding > 0 then
          let se = reserve se (length val + 1 + 4 - padding);
              se = se\<lparr>output_buf := put_u8 B (output_buf se) (of_nat (length val))\<rparr>;
              se = se\<lparr>output_buf := put_slice B (output_buf se) val\<rparr>
          in se\<lparr>output_buf := put_bytes B (output_buf se) 0 (4 - padding)\<rparr>
        else
          let se = reserve se (length val + 1);
              se = se\<lparr>output_buf := put_u8 B (output_buf se) (of_nat (length val))\<rparr>
          in se\<lparr>output_buf := put_slice B (output_buf se) val\<rparr>
      else
        let padding = (length val + 4) mod 4 in
        if padding > 0 then
          let se = reserve se (length val + 4 + 4 - padding);
              se = se\<lparr>output_buf := put_u8 B (output_buf se) 254\<rparr>;
              se = se\<lparr>output_buf := put_slice B (output_buf se) (take 3 (le_bytes 4 (length val mod 2 ^ 32)))\<rparr>;
              se = se\<lparr>output_buf := put_slice B (output_buf se) val\<rparr>
          in se\<lparr>output_buf := put_bytes B (output_buf se) 0 (4 - padding)\<rparr>
        else
          let se = reserve se (length val + 4);
              se = se\<lparr>output_buf := put_u8 B (output_buf se) 254\<rparr>;
              se = se\<lparr>output_buf := put_slice B (output_buf se) (take 3 (le_bytes 4 (length val mod 2 ^ 32)))\<rparr>;
              se = se\<lparr>output_buf := put_u8 B (output_buf se) (of_nat (length val))\<rparr>
          in se\<lparr>output_buf := put_slice B (output_buf se) val\<rparr>)"

text \<open>A Rust string is its UTF-8 encoding: \<open>as_bytes\<close> is the identity on the model.\<close>

definition write_string :: "buf_ops \<Rightarrow> Serializer \<Rightarrow> bytes \<Rightarrow> Serializer" where
  "write_string B se val = write_bytes B se val"

definition to_bytes_boxed :: "(Serializer \<Rightarrow> 'a \<Rightarrow> Serializer) \<Rightarrow> 'a \<Rightarrow> bytes" where
  "to_bytes_boxed serialize_boxed value = output_buf (serialize_boxed \<lparr>output_buf = []\<rparr> value)"

section \<open>Deserializer\<close>

datatype DeserializerBoxedError = UnexpectedConstructorNumber u32 | DeserializeError anyhow_error
  and anyhow_error = Message string | FromUtf8Error | FromBoxed DeserializerBoxedError

record Deserializer =
  input_buf :: bytes

text \<open>A method of the deserializer returns its result and the advanced deserializer, or panics.\<close>

type_synonym ('e, 'a) parser = "Deserializer \<Rightarrow> (('e, 'a) res \<times> Deserializer) may_panic"

definition parse_constructor_numer :: "buf_ops \<Rightarrow> (anyhow_error, u32) parser" where
  "parse_constructor_numer B de = do {
     (v, i) \<leftarrow> get_u32 B (input_buf de);
     Some (Ok v, de\<lparr>input_buf := i\<rparr>) }"

definition parse_i31 :: "buf_ops \<Rightarrow> (anyhow_error, i32) parser" where
  "parse_i31 B de = do {
     (v, i) \<leftarrow> get_i32_le B (input_buf de);
     Some (Ok (v AND 0x7fffffff), de\<lparr>input_buf := i\<rparr>) }"

definition parse_i32 :: "buf_ops \<Rightarrow> (anyhow_error, i32) parser" where
  "parse_i32 B de = do {
     (v, i) \<leftarrow> get_i32_le B (input_buf de);
     Some (Ok v, de\<lparr>input_buf := i\<rparr>) }"

definition parse_i64 :: "buf_ops \<Rightarrow> (anyhow_error, i64) parser" where
  "parse_i64 B de = do {
     (v, i) \<leftarrow> get_i64_le B (input_buf de);
     Some (Ok v, de\<lparr>input_buf := i\<rparr>) }"

definition parse_i256 :: "buf_ops \<Rightarrow> (anyhow_error, bytes) parser" where
  "parse_i256 B de = do {
     (result, i) \<leftarrow> copy_to_slice B (input_buf de) 32;
     Some (Ok result, de\<lparr>input_buf := i\<rparr>) }"

definition parse_bytes :: "buf_ops \<Rightarrow> (anyhow_error, bytes) parser" where
  "parse_bytes B de = do {
     (len, i) \<leftarrow> get_u8 B (input_buf de);
     if len \<le> 253 then do {
       (result, i) \<leftarrow> copy_to_slice B i (unat len);
       let padding = (len + 1) mod 4;
       i \<leftarrow> (if padding > 0 then advance B i (4 - unat padding) else Some i);
       Some (Ok result, de\<lparr>input_buf := i\<rparr>) }
     else do {
       (l3, i) \<leftarrow> copy_to_slice B i 3;
       let len = le_val (l3 @ [0]);
       (result, i) \<leftarrow> copy_to_slice B i len;
       let padding = len mod 4;
       i \<leftarrow> (if padding > 0 then advance B i (4 - padding) else Some i);
       Some (Ok result, de\<lparr>input_buf := i\<rparr>) } }"

text \<open>\<open>String::from_utf8\<close>: the well-formed byte sequences of UTF-8.\<close>

definition is_cont :: "u8 \<Rightarrow> bool" where
  "is_cont b \<longleftrightarrow> 0x80 \<le> b \<and> b \<le> 0xBF"

definition utf8_second :: "u8 \<Rightarrow> u8 \<Rightarrow> bool" where
  "utf8_second b c \<longleftrightarrow>
     (if b = 0xE0 then 0xA0 \<le> c \<and> c \<le> 0xBF
      else if b = 0xED then 0x80 \<le> c \<and> c \<le> 0x9F
      else if b = 0xF0 then 0x90 \<le> c \<and> c \<le> 0xBF
      else if b = 0xF4 then 0x80 \<le> c \<and> c \<le> 0x8F
      else is_cont c)"

fun utf8_valid :: "bytes \<Rightarrow> bool" where
  "utf8_valid [] = True"
| "utf8_valid (b # bs) =
     (if b < 0x80 then utf8_valid bs
      else if 0xC2 \<le> b \<and> b \<le> 0xDF then
        (case bs of c # bs' \<Rightarrow> is_cont c \<and> utf8_valid bs' | _ \<Rightarrow> False)
      else if 0xE0 \<le> b \<and> b \<le> 0xEF then
        (case bs of c # d # bs' \<Rightarrow> utf8_second b c \<and> is_cont d \<and> utf8_valid bs' | _ \<Rightarrow> False)
      else if 0xF0 \<le> b \<and> b \<le> 0xF4 then
        (case bs of c # d # e # bs' \<Rightarrow>
           utf8_second b c \<and> is_cont d \<and> is_cont e \<and> utf8_valid bs' | _ \<Rightarrow> False)
      else False)"

definition from_utf8 :: "bytes \<Rightarrow> (anyhow_error, bytes) res" where
  "from_utf8 bs = (if utf8_valid bs then Ok bs else Err FromUtf8Error)"

definition parse_string :: "buf_ops \<Rightarrow> (anyhow_error, bytes) parser" where
  "parse_string B de = do {
     (r, de) \<leftarrow> parse_bytes B de;
     Some (res_bind r from_utf8, de) }"

definition from_bytes_boxed ::
    "buf_ops \<Rightarrow> (u32 \<Rightarrow> (DeserializerBoxedError, 'a) parser) \<Rightarrow> bytes \<Rightarrow> (anyhow_error, 'a) res may_panic"
  where
  "from_bytes_boxed B deserialize_boxed bs = do {
     (c, de) \<leftarrow> parse_constructor_numer B \<lparr>input_buf = bs\<rparr>;
     case c of
       Err e \<Rightarrow> Some (Err e)
     | Ok constructor_number \<Rightarrow> do {
         (t, de) \<leftarrow> deserialize_boxed constructor_number de;
         Some (case t of
            Err e \<Rightarrow> Err (FromBoxed e)
          | Ok t \<Rightarrow> if input_buf de = [] then Ok t else Err (Message ''input is not empty'')) } }"

section \<open>Vectors and results\<close>

text \<open>
  \<open>anyhow::Error\<close> is converted to \<open>DeserializerBoxedError\<close> by the operator \<open>?\<close> in the
  implementations of \<open>Deserialize\<close>.
\<close>

fun lift_res :: "(anyhow_error, 'a) res \<Rightarrow> (DeserializerBoxedError, 'a) res" where
  "lift_res (Ok a) = Ok a"
| "lift_res (Err e) = Err (DeserializeError e)"

definition lift_parser :: "(anyhow_error, 'a) parser \<Rightarrow> (DeserializerBoxedError, 'a) parser" where
  "lift_parser p de = map_option (map_prod lift_res id) (p de)"

text \<open>The loop \<open>for _ in 0..len\<close> with its early return on an error.\<close>

fun parse_loop :: "('e, 'a) parser \<Rightarrow> nat \<Rightarrow> 'a list \<Rightarrow> ('e, 'a list) parser" where
  "parse_loop p 0 buf de = Some (Ok buf, de)"
| "parse_loop p (Suc n) buf de = do {
     (r, de) \<leftarrow> p de;
     case r of
       Err e \<Rightarrow> Some (Err e, de)
     | Ok val \<Rightarrow> parse_loop p n (buf @ [val]) de }"

definition deserialize_vector ::
    "buf_ops \<Rightarrow> (DeserializerBoxedError, 'a) parser \<Rightarrow> (DeserializerBoxedError, 'a list) parser" where
  "deserialize_vector B p de = do {
     (r, de) \<leftarrow> lift_parser (parse_i31 B) de;
     case r of
       Err e \<Rightarrow> Some (Err e, de)
     | Ok len \<Rightarrow> parse_loop p (nat len) [] de }"

definition serialize_vector ::
    "buf_ops \<Rightarrow> (Serializer \<Rightarrow> 'a \<Rightarrow> Serializer) \<Rightarrow> Serializer \<Rightarrow> 'a list \<Rightarrow> Serializer" where
  "serialize_vector B ser se vs = foldl ser (write_i31 B se (wrap_i32 (int (length vs)))) vs"

definition serialize_vector_int256 :: "buf_ops \<Rightarrow> Serializer \<Rightarrow> bytes list \<Rightarrow> Serializer" where
  "serialize_vector_int256 B se vs =
     (let se = reserve se (4 + 32 * length vs);
          se = write_i31 B se (wrap_i32 (int (length vs)))
      in foldl (write_i256 B) se vs)"

definition deserialize_vector_int256 :: "buf_ops \<Rightarrow> (DeserializerBoxedError, bytes list) parser" where
  "deserialize_vector_int256 B = deserialize_vector B (lift_parser (parse_i256 B))"

definition serialize_vector_int32 :: "buf_ops \<Rightarrow> Serializer \<Rightarrow> i32 list \<Rightarrow> Serializer" where
  "serialize_vector_int32 B se vs =
     (let se = reserve se (4 + 4 * length vs);
          se = write_i31 B se (wrap_i32 (int (length vs)))
      in foldl (write_i32 B) se vs)"

definition deserialize_vector_int32 :: "buf_ops \<Rightarrow> (DeserializerBoxedError, i32 list) parser" where
  "deserialize_vector_int32 B = deserialize_vector B (lift_parser (parse_i32 B))"

definition serialize_vector_int64 :: "buf_ops \<Rightarrow> Serializer \<Rightarrow> i64 list \<Rightarrow> Serializer" where
  "serialize_vector_int64 B se vs =
     (let se = reserve se (4 + 8 * length vs);
          se = write_i31 B se (wrap_i32 (int (length vs)))
      in foldl (write_i64 B) se vs)"

definition deserialize_vector_int64 :: "buf_ops \<Rightarrow> (DeserializerBoxedError, i64 list) parser" where
  "deserialize_vector_int64 B = deserialize_vector B (lift_parser (parse_i64 B))"

text \<open>
  \<open>Result<T, E>\<close>: the answer is tried as a \<open>T\<close> and, only when its constructor number is not one
  of \<open>T\<close>'s, as an \<open>E\<close>, on the deserializer as the first attempt left it.
\<close>

definition deserialize_boxed_result ::
    "(u32 \<Rightarrow> (DeserializerBoxedError, 't) parser) \<Rightarrow> (u32 \<Rightarrow> (DeserializerBoxedError, 'e) parser) \<Rightarrow>
     u32 \<Rightarrow> (DeserializerBoxedError, ('e, 't) res) parser" where
  "deserialize_boxed_result deT deE constructor_number de = do {
     (r, de) \<leftarrow> deT constructor_number de;
     case r of
       Ok val \<Rightarrow> Some (Ok (Ok val), de)
     | Err (UnexpectedConstructorNumber _) \<Rightarrow> do {
         (r', de) \<leftarrow> deE constructor_number de;
         Some (case r' of Ok e \<Rightarrow> Ok (Err e) | Err e \<Rightarrow> Err e, de) }
     | Err (DeserializeError e) \<Rightarrow> Some (Err (DeserializeError e), de) }"

definition deserialize_result ::
    "buf_ops \<Rightarrow> (u32 \<Rightarrow> (DeserializerBoxedError, 't) parser) \<Rightarrow> (u32 \<Rightarrow> (DeserializerBoxedError, 'e) parser) \<Rightarrow>
     (DeserializerBoxedError, ('e, 't) res) parser" where
  "deserialize_result B deT deE de = do {
     (c, de) \<leftarrow> lift_parser (parse_constructor_numer B) de;
     case c of
       Err e \<Rightarrow> Some (Err e, de)
     | Ok constructor_number \<Rightarrow> deserialize_boxed_result deT deE constructor_number de }"

section \<open>Contracts\<close>

text \<open>The documented behaviour of the \<open>Buf\<close> and \<open>BufMut\<close> methods the code calls.\<close>

locale bytes_crate =
  fixes B :: buf_ops
  assumes put_u8: "put_u8 B out b = out @ [b]"
    and put_u32: "put_u32 B out w = out @ be_bytes 4 (unat w)"
    and put_i32_le: "put_i32_le B out v = out @ le_bytes 4 (nat (v mod 2 ^ 32))"
    and put_i64_le: "put_i64_le B out v = out @ le_bytes 8 (nat (v mod 2 ^ 64))"
    and put_slice: "put_slice B out bs = out @ bs"
    and put_bytes: "put_bytes B out b n = out @ replicate n b"
    and get_u8: "get_u8 B i = (case i of [] \<Rightarrow> None | b # r \<Rightarrow> Some (b, r))"
    and get_u32: "get_u32 B i =
      (if length i < 4 then None else Some (of_nat (be_val (take 4 i)), drop 4 i))"
    and get_i32_le: "get_i32_le B i =
      (if length i < 4 then None else Some (wrap_i32 (int (le_val (take 4 i))), drop 4 i))"
    and get_i64_le: "get_i64_le B i =
      (if length i < 8 then None else Some (wrap_i64 (int (le_val (take 8 i))), drop 8 i))"
    and copy_to_slice: "copy_to_slice B i n =
      (if length i < n then None else Some (take n i, drop n i))"
    and advance: "advance B i n = (if length i < n then None else Some (drop n i))"

text \<open>
  A codec: a writer that appends the encoding of a value, and a reader that takes exactly that
  encoding off the front of its input. \<open>valid\<close> holds the values the format can carry.
\<close>

locale tl_codec =
  fixes ser :: "Serializer \<Rightarrow> 'a \<Rightarrow> Serializer"
    and de :: "('e, 'a) parser"
    and enc :: "'a \<Rightarrow> bytes"
    and valid :: "'a \<Rightarrow> bool"
  assumes ser_appends: "valid v \<Longrightarrow> ser \<lparr>output_buf = out\<rparr> v = \<lparr>output_buf = out @ enc v\<rparr>"
    and de_enc: "valid v \<Longrightarrow> de \<lparr>input_buf = enc v @ rest\<rparr> = Some (Ok v, \<lparr>input_buf = rest\<rparr>)"
begin

lemma ser_all:
  "\<forall>v\<in>set vs. valid v \<Longrightarrow>
   foldl ser \<lparr>output_buf = out\<rparr> vs = \<lparr>output_buf = out @ concat (map enc vs)\<rparr>"
  by (induction vs arbitrary: out) (auto simp: ser_appends)

lemma de_all:
  "\<forall>v\<in>set vs. valid v \<Longrightarrow>
   parse_loop de (length vs) acc \<lparr>input_buf = concat (map enc vs) @ rest\<rparr>
     = Some (Ok (acc @ vs), \<lparr>input_buf = rest\<rparr>)"
  by (induction vs arbitrary: acc) (auto simp: de_enc)

lemma roundtrip:
  "valid v \<Longrightarrow>
   de \<lparr>input_buf = output_buf (ser \<lparr>output_buf = []\<rparr> v) @ rest\<rparr> = Some (Ok v, \<lparr>input_buf = rest\<rparr>)"
  by (simp add: ser_appends de_enc)

end

section \<open>The codecs of the scalar types\<close>

definition enc_i32 :: "i32 \<Rightarrow> bytes" where
  "enc_i32 v = le_bytes 4 (nat (v mod 2 ^ 32))"

definition enc_i64 :: "i64 \<Rightarrow> bytes" where
  "enc_i64 v = le_bytes 8 (nat (v mod 2 ^ 64))"

definition is_i31 :: "i32 \<Rightarrow> bool" where
  "is_i31 v \<longleftrightarrow> 0 \<le> v \<and> v < 2 ^ 31"

definition is_i256 :: "bytes \<Rightarrow> bool" where
  "is_i256 bs \<longleftrightarrow> length bs = 32"

text \<open>
  The TL encoding of a byte string: a length of one byte, or the byte 254 and a length of three
  bytes, then the bytes, then zeros up to a multiple of four. \<open>tl_bytes\<close> holds the strings for
  which \<open>write_bytes\<close> produces it.
\<close>

definition enc_bytes :: "bytes \<Rightarrow> bytes" where
  "enc_bytes val =
     (if length val \<le> 253
      then of_nat (length val) # val @ replicate ((4 - (length val + 1) mod 4) mod 4) 0
      else 254 # le_bytes 3 (length val) @ val @ replicate ((4 - length val mod 4) mod 4) 0)"

definition tl_bytes :: "bytes \<Rightarrow> bool" where
  "tl_bytes val \<longleftrightarrow> length val \<le> 253 \<or> length val < 2 ^ 24 \<and> length val mod 4 \<noteq> 0"

lemma length_enc_i32 [simp]: "length (enc_i32 v) = 4"
  by (simp add: enc_i32_def)

lemma length_enc_i64 [simp]: "length (enc_i64 v) = 8"
  by (simp add: enc_i64_def)

lemma le_val_enc_i32 [codec_simps]: "in_i32 v \<Longrightarrow> wrap_i32 (int (le_val (enc_i32 v))) = v"
  unfolding enc_i32_def le_val_le_bytes int_nat_mod_i32 by (simp only: wrap_simps)

lemma le_val_enc_i64 [codec_simps]: "in_i64 v \<Longrightarrow> wrap_i64 (int (le_val (enc_i64 v))) = v"
  unfolding enc_i64_def le_val_le_bytes int_nat_mod_i64 by (simp only: wrap_simps)

lemma be_val_u32 [codec_simps]: "of_nat (be_val (be_bytes 4 (unat w))) = (w :: u32)"
  unfolding be_val_be_bytes unat_u32_mod by simp

lemma length_enc_bytes_mod_4: "length (enc_bytes val) mod 4 = 0"
proof (cases "length val \<le> 253")
  case True
  then show ?thesis using pad_to_4 [of "length val + 1"] by (simp add: enc_bytes_def)
next
  case False
  define pad where "pad = (4 - length val mod 4) mod 4"
  have "length (enc_bytes val) = (length val + pad) + 4"
    using False by (simp add: enc_bytes_def pad_def)
  moreover have "(length val + pad) mod 4 = 0" unfolding pad_def by (rule pad_to_4)
  ultimately show ?thesis by (simp only: mod_add_self2)
qed

lemma small_len_byte [byte_simps]:
  assumes "n \<le> 253"
  shows "(of_nat n :: u8) \<le> 253" "unat (of_nat n :: u8) = n"
    "unat ((of_nat n + 1 :: u8) mod 4) = (n + 1) mod 4"
proof -
  show n: "unat (of_nat n :: u8) = n" using assms by (simp add: unat_of_nat)
  then show "(of_nat n :: u8) \<le> 253" using assms by (simp add: word_le_nat_alt)
  have "unat (of_nat n + 1 :: u8) = n + 1"
    using assms n by (simp add: unat_word_ariths)
  then show "unat ((of_nat n + 1 :: u8) mod 4) = (n + 1) mod 4"
    by (simp add: unat_word_ariths)
qed

context bytes_crate
begin

lemmas ops = put_u8 put_u32 put_i32_le [folded enc_i32_def] put_i64_le [folded enc_i64_def] put_slice put_bytes
  get_u8 get_u32 get_i32_le get_i64_le copy_to_slice advance

lemma i32_codec: "tl_codec (write_i32 B) (parse_i32 B) enc_i32 in_i32"
  by unfold_locales
    (simp_all add: write_i32_def parse_i32_def ops codec_simps)

lemma i64_codec: "tl_codec (write_i64 B) (parse_i64 B) enc_i64 in_i64"
  by unfold_locales
    (simp_all add: write_i64_def parse_i64_def ops codec_simps)

lemma i256_codec: "tl_codec (write_i256 B) (parse_i256 B) id is_i256"
  by unfold_locales
    (simp_all add: write_i256_def parse_i256_def is_i256_def ops)

lemma i31_codec: "tl_codec (write_i31 B) (parse_i31 B) enc_i32 is_i31"
proof (unfold_locales, goal_cases)
  case (1 v out)
  then show ?case by (simp add: write_i31_def ops and_mask_31 is_i31_def)
next
  case (2 v rest)
  then have "in_i32 v" and "v mod 2 ^ 31 = v" by (simp_all add: is_i31_def in_i32_def)
  then show ?case
    by (simp add: parse_i31_def ops codec_simps and_mask_31)
qed

lemma constructor_number_codec:
  "tl_codec (write_constructor_number B) (parse_constructor_numer B) (\<lambda>w. be_bytes 4 (unat w)) (\<lambda>_. True)"
  by unfold_locales
    (simp_all add: write_constructor_number_def parse_constructor_numer_def ops codec_simps)

lemma write_bytes_enc:
  "tl_bytes val \<Longrightarrow> write_bytes B \<lparr>output_buf = out\<rparr> val = \<lparr>output_buf = out @ enc_bytes val\<rparr>"
  by (auto simp: write_bytes_def enc_bytes_def tl_bytes_def Let_def reserve_def ops byte_simps)

lemma parse_bytes_short:
  assumes "length val \<le> 253"
  shows "parse_bytes B \<lparr>input_buf = enc_bytes val @ rest\<rparr> = Some (Ok val, \<lparr>input_buf = rest\<rparr>)"
proof -
  let ?n = "length val"
  have "(0 < (of_nat ?n + 1 :: u8) mod 4) = (0 < (?n + 1) mod 4)"
    using small_len_byte(3) [OF assms] by (simp add: word_less_nat_alt)
  then show ?thesis
    using assms small_len_byte [OF assms]
    by (simp add: parse_bytes_def enc_bytes_def ops)
qed

lemma parse_bytes_long_header:
  assumes "253 < n" "n < 2 ^ 24"
  shows "parse_bytes B \<lparr>input_buf = 254 # le_bytes 3 n @ body\<rparr> =
    (if length body < n then None
     else case (if 0 < n mod 4 then advance B (drop n body) (4 - n mod 4) else Some (drop n body)) of
         None \<Rightarrow> None
       | Some i \<Rightarrow> Some (Ok (take n body), \<lparr>input_buf = i\<rparr>))"
proof -
  have "le_val (le_bytes 3 n @ [0]) = n"
    using assms by (simp add: byte_simps)
  then show ?thesis
    by (auto simp: parse_bytes_def ops split: option.splits)
qed

lemma parse_bytes_long:
  assumes "253 < length val" "length val < 2 ^ 24"
  shows "parse_bytes B \<lparr>input_buf = enc_bytes val @ rest\<rparr> = Some (Ok val, \<lparr>input_buf = rest\<rparr>)"
  using assms parse_bytes_long_header [OF assms, of "val @ replicate ((4 - length val mod 4) mod 4) 0 @ rest"]
  by (simp add: enc_bytes_def advance)

lemma bytes_codec: "tl_codec (write_bytes B) (parse_bytes B) enc_bytes tl_bytes"
proof (unfold_locales, goal_cases)
  case (1 v out)
  then show ?case by (rule write_bytes_enc)
next
  case (2 v rest)
  show ?case
  proof (cases "length v \<le> 253")
    case True
    then show ?thesis by (rule parse_bytes_short)
  next
    case False
    with 2 show ?thesis by (intro parse_bytes_long) (auto simp: tl_bytes_def)
  qed
qed

lemma string_codec:
  "tl_codec (write_string B) (parse_string B) enc_bytes (\<lambda>s. tl_bytes s \<and> utf8_valid s)"
  by unfold_locales
    (simp_all add: write_string_def parse_string_def from_utf8_def write_bytes_enc
       tl_codec.de_enc [OF bytes_codec])

text \<open>
  What a reader gets of a long string whose length is a multiple of four: the length's low byte
  was written a second time in front of the data, so the value is shifted by one byte and the
  last byte of the string is left in the input.
\<close>

lemma write_bytes_shifted:
  assumes "253 < length val" "length val mod 4 = 0"
  shows "write_bytes B \<lparr>output_buf = out\<rparr> val =
    \<lparr>output_buf = out @ 254 # le_bytes 3 (length val mod 2 ^ 32) @ of_nat (length val) # val\<rparr>"
  using assms by (simp add: write_bytes_def reserve_def Let_def ops byte_simps)

lemma parse_bytes_shifted:
  assumes "253 < length val" "length val < 2 ^ 24" "length val mod 4 = 0"
  shows "parse_bytes B \<lparr>input_buf = 254 # le_bytes 3 (length val) @ b # val @ rest\<rparr> =
    Some (Ok (b # butlast val), \<lparr>input_buf = last val # rest\<rparr>)"
proof -
  have "val \<noteq> []" using assms(1) by auto
  then obtain xs x where val: "val = xs @ [x]" by (cases val rule: rev_cases) auto
  show ?thesis
    using parse_bytes_long_header [OF assms(1,2), of "b # val @ rest"] assms(3)
    by (simp add: val)
qed

end

section \<open>Vectors\<close>

text \<open>
  A codec for the elements gives a codec for vectors of up to \<open>2\<^sup>3\<^sup>1 - 1\<close> of them. The element
  reader reports \<open>DeserializerBoxedError\<close>, as \<open>Deserialize::deserialize\<close> does.
\<close>

locale tl_element = bytes_crate B + tl_codec ser de enc valid
  for B :: buf_ops
    and ser :: "Serializer \<Rightarrow> 'a \<Rightarrow> Serializer"
    and de :: "(DeserializerBoxedError, 'a) parser"
    and enc :: "'a \<Rightarrow> bytes"
    and valid :: "'a \<Rightarrow> bool"
begin

lemma vector_codec:
  "tl_codec (serialize_vector B ser) (deserialize_vector B de)
     (\<lambda>vs. enc_i32 (int (length vs)) @ concat (map enc vs))
     (\<lambda>vs. length vs < 2 ^ 31 \<and> (\<forall>v\<in>set vs. valid v))"
proof (unfold_locales, goal_cases)
  case (1 vs out)
  then have "in_i32 (int (length vs))" and i31: "is_i31 (int (length vs))"
    by (simp_all add: in_i32_def is_i31_def)
  with 1 show ?case
    by (simp add: serialize_vector_def wrap_simps tl_codec.ser_appends [OF i31_codec i31] ser_all)
next
  case (2 vs rest)
  then have i31: "is_i31 (int (length vs))" by (simp add: is_i31_def)
  with 2 show ?case
    by (simp add: deserialize_vector_def lift_parser_def tl_codec.de_enc [OF i31_codec i31] de_all)
qed

end

lemma lift_codec: "tl_codec ser de enc valid \<Longrightarrow> tl_codec ser (lift_parser de) enc valid"
  by (simp add: tl_codec_def lift_parser_def)

sublocale bytes_crate \<subseteq> i32: tl_element B "write_i32 B" "lift_parser (parse_i32 B)" enc_i32 in_i32
  by (intro tl_element.intro bytes_crate_axioms lift_codec i32_codec)

sublocale bytes_crate \<subseteq> i64: tl_element B "write_i64 B" "lift_parser (parse_i64 B)" enc_i64 in_i64
  by (intro tl_element.intro bytes_crate_axioms lift_codec i64_codec)

sublocale bytes_crate \<subseteq> i256: tl_element B "write_i256 B" "lift_parser (parse_i256 B)" id is_i256
  by (intro tl_element.intro bytes_crate_axioms lift_codec i256_codec)

lemma specialised_vectors:
  "serialize_vector_int32 B = serialize_vector B (write_i32 B)"
  "serialize_vector_int64 B = serialize_vector B (write_i64 B)"
  "serialize_vector_int256 B = serialize_vector B (write_i256 B)"
  by (simp_all add: fun_eq_iff serialize_vector_int32_def serialize_vector_int64_def
      serialize_vector_int256_def serialize_vector_def reserve_def)

section \<open>The documented behaviour, as functions\<close>

definition std_buf :: buf_ops where
  "std_buf = \<lparr>
     put_u8 = (\<lambda>out b. out @ [b]),
     put_u32 = (\<lambda>out w. out @ be_bytes 4 (unat w)),
     put_i32_le = (\<lambda>out v. out @ le_bytes 4 (nat (v mod 2 ^ 32))),
     put_i64_le = (\<lambda>out v. out @ le_bytes 8 (nat (v mod 2 ^ 64))),
     put_slice = (\<lambda>out bs. out @ bs),
     put_bytes = (\<lambda>out b n. out @ replicate n b),
     get_u8 = (\<lambda>i. case i of [] \<Rightarrow> None | b # r \<Rightarrow> Some (b, r)),
     get_u32 = (\<lambda>i. if length i < 4 then None else Some (of_nat (be_val (take 4 i)), drop 4 i)),
     get_i32_le = (\<lambda>i. if length i < 4 then None
       else Some (wrap_i32 (int (le_val (take 4 i))), drop 4 i)),
     get_i64_le = (\<lambda>i. if length i < 8 then None
       else Some (wrap_i64 (int (le_val (take 8 i))), drop 8 i)),
     copy_to_slice = (\<lambda>i n. if length i < n then None else Some (take n i, drop n i)),
     advance = (\<lambda>i n. if length i < n then None else Some (drop n i)) \<rparr>"

interpretation std: bytes_crate std_buf
  by unfold_locales (simp_all add: std_buf_def)

section \<open>Properties\<close>

text \<open>
  C11. A byte string written by \<open>write_bytes\<close> is read back by \<open>parse_bytes\<close>, which leaves the
  bytes behind it in place: every string of at most 253 bytes, and every longer string below
  \<open>2\<^sup>2\<^sup>4\<close> bytes whose length is not a multiple of four.
\<close>

theorem write_parse_bytes:
  assumes "bytes_crate B" and "tl_bytes val"
  shows "parse_bytes B \<lparr>input_buf = output_buf (write_bytes B \<lparr>output_buf = []\<rparr> val) @ rest\<rparr>
    = Some (Ok val, \<lparr>input_buf = rest\<rparr>)"
  by (rule tl_codec.roundtrip [OF bytes_crate.bytes_codec [OF assms(1)] assms(2)])

theorem write_parse_bytes_witness:
  "parse_bytes std_buf
     \<lparr>input_buf = output_buf (write_bytes std_buf \<lparr>output_buf = []\<rparr> (replicate 255 1)) @ [7, 8]\<rparr>
   = Some (Ok (replicate 255 1), \<lparr>input_buf = [7, 8]\<rparr>)"
  by (rule write_parse_bytes [OF std.bytes_crate_axioms]) (simp add: tl_bytes_def)

text \<open>
  For a string of more than 253 bytes whose length is a multiple of four, \<open>write_bytes\<close>
  writes the low byte of the length once more in front of the data. The reader then returns the
  string shifted by one byte and leaves its last byte in the input, so everything read after it
  is out of step as well.
\<close>

lemma write_bytes_multiple_of_four:
  assumes "bytes_crate B" and "253 < length val" "length val < 2 ^ 24" "length val mod 4 = 0"
  shows "parse_bytes B \<lparr>input_buf = output_buf (write_bytes B \<lparr>output_buf = []\<rparr> val) @ rest\<rparr>
    = Some (Ok (of_nat (length val) # butlast val), \<lparr>input_buf = last val # rest\<rparr>)"
  using assms by (simp add: bytes_crate.write_bytes_shifted bytes_crate.parse_bytes_shifted)

lemma write_bytes_multiple_of_four_witness:
  "parse_bytes std_buf
     \<lparr>input_buf = output_buf (write_bytes std_buf \<lparr>output_buf = []\<rparr> (replicate 256 1)) @ []\<rparr>
   = Some (Ok (0 # replicate 255 1), \<lparr>input_buf = [1]\<rparr>)"
  using write_bytes_multiple_of_four [OF std.bytes_crate_axioms, of "replicate 256 1" "[]"]
  by (simp add: butlast_conv_take)

text \<open>
  C12. Vectors: with any codec for the elements, the generic \<open>Vector<T>\<close> implementation reads
  back every vector of fewer than \<open>2\<^sup>3\<^sup>1\<close> elements it wrote, and leaves what follows.
\<close>

theorem vector_roundtrip:
  assumes "bytes_crate B" and "tl_codec ser de enc valid"
    and "length vs < 2 ^ 31" and "\<forall>v\<in>set vs. valid v"
  shows "deserialize_vector B de
      \<lparr>input_buf = output_buf (serialize_vector B ser \<lparr>output_buf = []\<rparr> vs) @ rest\<rparr>
    = Some (Ok vs, \<lparr>input_buf = rest\<rparr>)"
  by (rule tl_codec.roundtrip [OF tl_element.vector_codec [OF tl_element.intro [OF assms(1,2)]]])
    (use assms(3,4) in simp)

theorem vector_roundtrip_witness:
  "deserialize_vector_int32 std_buf
     \<lparr>input_buf = output_buf (serialize_vector_int32 std_buf \<lparr>output_buf = []\<rparr> [1, -1, 5]) @ [9]\<rparr>
   = Some (Ok [1, -1, 5], \<lparr>input_buf = [9]\<rparr>)"
  unfolding specialised_vectors deserialize_vector_int32_def
  by (rule vector_roundtrip [OF std.bytes_crate_axioms std.i32.tl_codec_axioms])
    (simp_all add: in_i32_def)

text \<open>
  The scalars: every 32-bit and 64-bit integer, every non-negative 31-bit number, every
  256-bit value and every constructor number is read back by the matching reader, which leaves
  what follows.
\<close>

lemma scalar_roundtrip:
  assumes "bytes_crate B" and "in_i32 a" "in_i64 b" "is_i31 c" "is_i256 d"
  shows "parse_i32 B \<lparr>input_buf = output_buf (write_i32 B \<lparr>output_buf = []\<rparr> a) @ rest\<rparr>
        = Some (Ok a, \<lparr>input_buf = rest\<rparr>)
    \<and> parse_i64 B \<lparr>input_buf = output_buf (write_i64 B \<lparr>output_buf = []\<rparr> b) @ rest\<rparr>
        = Some (Ok b, \<lparr>input_buf = rest\<rparr>)
    \<and> parse_i31 B \<lparr>input_buf = output_buf (write_i31 B \<lparr>output_buf = []\<rparr> c) @ rest\<rparr>
        = Some (Ok c, \<lparr>input_buf = rest\<rparr>)
    \<and> parse_i256 B \<lparr>input_buf = output_buf (write_i256 B \<lparr>output_buf = []\<rparr> d) @ rest\<rparr>
        = Some (Ok d, \<lparr>input_buf = rest\<rparr>)
    \<and> parse_constructor_numer B
          \<lparr>input_buf = output_buf (write_constructor_number B \<lparr>output_buf = []\<rparr> e) @ rest\<rparr>
        = Some (Ok e, \<lparr>input_buf = rest\<rparr>)"
  by (intro conjI tl_codec.roundtrip [OF bytes_crate.i32_codec]
      tl_codec.roundtrip [OF bytes_crate.i64_codec] tl_codec.roundtrip [OF bytes_crate.i31_codec]
      tl_codec.roundtrip [OF bytes_crate.i256_codec]
      tl_codec.roundtrip [OF bytes_crate.constructor_number_codec] assms TrueI)

lemma scalar_roundtrip_witness:
  "parse_i32 std_buf \<lparr>input_buf = output_buf (write_i32 std_buf \<lparr>output_buf = []\<rparr> (-400)) @ [1]\<rparr>
     = Some (Ok (-400), \<lparr>input_buf = [1]\<rparr>)"
  using scalar_roundtrip [OF std.bytes_crate_axioms, of "-400" 0 0 "replicate 32 0" "[1]" 0]
  by (simp add: in_i32_def in_i64_def is_i31_def is_i256_def)

text \<open>
  A boxed value, written as its constructor number and its body, is read back by
  \<open>from_bytes_boxed\<close>; with any bytes left over it is refused.
\<close>

lemma boxed_roundtrip:
  assumes "bytes_crate B" and "tl_codec ser de enc valid" and "valid v"
    and "\<forall>se. serialize_boxed se v = ser (write_constructor_number B se cid) v"
    and "deserialize_boxed cid = de"
  shows "from_bytes_boxed B deserialize_boxed (to_bytes_boxed serialize_boxed v @ extra) =
    Some (if extra = [] then Ok v else Err (Message ''input is not empty''))"
proof -
  note c = bytes_crate.constructor_number_codec [OF assms(1)]
  have "to_bytes_boxed serialize_boxed v = be_bytes 4 (unat cid) @ enc v"
    using assms(3,4)
    by (simp add: to_bytes_boxed_def tl_codec.ser_appends [OF c] tl_codec.ser_appends [OF assms(2)])
  then show ?thesis
    using assms(3,5)
    by (simp add: from_bytes_boxed_def tl_codec.de_enc [OF c] tl_codec.de_enc [OF assms(2)])
qed

lemma boxed_roundtrip_witness:
  "from_bytes_boxed std_buf (\<lambda>_. lift_parser (parse_i32 std_buf))
     (to_bytes_boxed (\<lambda>se. write_i32 std_buf (write_constructor_number std_buf se 0x9a2b084d)) 5 @ [0]) =
   Some (Err (Message ''input is not empty''))"
  using boxed_roundtrip [OF std.bytes_crate_axioms std.i32.tl_codec_axioms, of 5
      "\<lambda>se. write_i32 std_buf (write_constructor_number std_buf se 0x9a2b084d)" "0x9a2b084d"
      "\<lambda>_. lift_parser (parse_i32 std_buf)" "[0]"]
  by (simp add: in_i32_def)

end
