(* ===== verification/Adnl.thy ===== *)
theory Adnl
  imports Tl_Codec
begin

text \<open>
  The ADNL transport of \<^verbatim>\<open>adnl-tcp\<close>: packets (\<^verbatim>\<open>packet.rs\<close>, \<^verbatim>\<open>ping.rs\<close>), the framing codec
  (\<^verbatim>\<open>codec.rs\<close>), the session keys (\<^verbatim>\<open>aes_ctr.rs\<close>, \<^verbatim>\<open>key.rs\<close>) and the two sides of the handshake
  (\<^verbatim>\<open>client.rs\<close>, \<^verbatim>\<open>server.rs\<close>). SHA-256, AES in counter mode and the curve operations come from
  other crates: they are a record of parameters, and the locale \<open>adnl_crypto\<close> states what the code
  relies on. A \<open>BytesMut\<close> is its contents, a list of bytes. Random values are arguments.
  The results: an incomplete read leaves no trace, so the way the stream is cut into reads does
  not matter; what one side encodes the other side decodes; and the handshake ends with the two
  sides holding matching ciphers.
\<close>

section \<open>Errors\<close>

text \<open>One constructor per \<open>bail!\<close>, \<open>ok_or\<close> and propagated error of the component.\<close>

datatype adnl_error =
    SmallAdnlPacket nat
  | IncorrectChecksum
  | WrongHandshakeChecksum
  | WrongServerKeyId
  | MissedEmptyPacket
  | EmptyPacketExpected
  | Elapsed
  | InvalidPublicKey
  | UnexpectedEof
  | KeystreamError

section \<open>Cryptographic crates as parameters\<close>

record ('c, 'seed, 'pk, 'sk) crypto_ops =
  sha256 :: "bytes \<Rightarrow> bytes"
  cipher_new :: "bytes \<Rightarrow> bytes \<Rightarrow> 'c"
  apply_keystream :: "'c \<Rightarrow> bytes \<Rightarrow> bytes \<times> 'c"
  apply_keystream_b2b :: "'c \<Rightarrow> bytes \<Rightarrow> (adnl_error, bytes) res"
  verifying_key :: "'seed \<Rightarrow> 'pk"
  expanded_secret :: "'seed \<Rightarrow> 'sk"
  vk_from_bytes :: "bytes \<Rightarrow> 'pk option"
  vk_as_bytes :: "'pk \<Rightarrow> bytes"
  montgomery_mul :: "'pk \<Rightarrow> 'sk \<Rightarrow> bytes"

definition slice :: "nat \<Rightarrow> nat \<Rightarrow> 'a list \<Rightarrow> 'a list" where
  \<comment> \<open>\<open>xs[a..b]\<close>, where the source's bounds are within the array\<close>
  "slice a b xs = take (b - a) (drop a xs)"

section \<open>Packets\<close>

record Packet =
  nonce :: bytes
  checksum :: bytes
  data :: bytes

definition packet_new :: "('c, 'seed, 'pk, 'sk) crypto_ops \<Rightarrow> bytes \<Rightarrow> bytes \<Rightarrow> Packet" where
  "packet_new C rnd bs = \<lparr>nonce = rnd, checksum = sha256 C (rnd @ bs), data = bs\<rparr>"

definition packet_empty :: "('c, 'seed, 'pk, 'sk) crypto_ops \<Rightarrow> bytes \<Rightarrow> Packet" where
  "packet_empty C rnd = packet_new C rnd []"

definition packet_is_empty :: "Packet \<Rightarrow> bool" where
  "packet_is_empty p = (data p = [])"

definition packet_len :: "Packet \<Rightarrow> nat" where
  "packet_len p = length (data p)"

definition ping_packet :: "('c, 'seed, 'pk, 'sk) crypto_ops \<Rightarrow> bytes \<Rightarrow> u64 \<Rightarrow> Packet" where
  "ping_packet C rnd rnd64 =
     packet_new C rnd ([0x9a, 0x2b, 0x08, 0x4d] @ le_bytes 8 (unat rnd64))"

definition is_ping_packet :: "Packet \<Rightarrow> bool" where
  "is_ping_packet p \<longleftrightarrow> length (data p) = 12 \<and> take 4 (data p) = [0x9a, 0x2b, 0x08, 0x4d]"

definition is_pong_packet :: "Packet \<Rightarrow> bool" where
  "is_pong_packet p \<longleftrightarrow> length (data p) = 12 \<and> take 4 (data p) = [0x03, 0xFB, 0x69, 0xDC]"

section \<open>Codec\<close>

record 'c PacketCodec =
  cipher_recv :: 'c
  cipher_send :: 'c
  next_len :: "nat option"

text \<open>What \<open>encode\<close> puts into the buffer before the keystream is applied.\<close>

definition frame :: "Packet \<Rightarrow> bytes" where
  "frame p = le_bytes 4 ((packet_len p + 64) mod 2 ^ 32) @ nonce p @ data p @ checksum p"

definition encode ::
    "('c, 'seed, 'pk, 'sk) crypto_ops \<Rightarrow> 'c PacketCodec \<Rightarrow> Packet \<Rightarrow> bytes \<Rightarrow> 'c PacketCodec \<times> bytes" where
  "encode C codec packet dst =
     (let (enc, c) = apply_keystream C (cipher_send codec) (frame packet)
      in (codec\<lparr>cipher_send := c\<rparr>, dst @ enc))"

definition decode_body ::
    "('c, 'seed, 'pk, 'sk) crypto_ops \<Rightarrow> nat \<Rightarrow> 'c PacketCodec \<Rightarrow> bytes \<Rightarrow>
     (adnl_error, Packet option) res \<times> 'c PacketCodec \<times> bytes" where
  "decode_body C len codec src =
     (if len < 64 then (Err (SmallAdnlPacket len), codec, src)
      else if length src < len then (Ok None, codec\<lparr>next_len := Some len\<rparr>, src)
      else
        let (dec, c) = apply_keystream C (cipher_recv codec) (take len src);
            codec = codec\<lparr>cipher_recv := c\<rparr>;
            src = dec @ drop len src
        in if sha256 C (take (len - 32) src) \<noteq> slice (len - 32) len src
           then (Err IncorrectChecksum, codec, src)
           else
             let d = take len src
             in (Ok (Some \<lparr>nonce = slice 0 32 d, checksum = slice (len - 32) len d,
                          data = slice 32 (len - 32) d\<rparr>), codec, drop len src))"

definition decode ::
    "('c, 'seed, 'pk, 'sk) crypto_ops \<Rightarrow> 'c PacketCodec \<Rightarrow> bytes \<Rightarrow>
     (adnl_error, Packet option) res \<times> 'c PacketCodec \<times> bytes" where
  "decode C codec src =
     (case next_len codec of
        Some len \<Rightarrow> decode_body C len (codec\<lparr>next_len := None\<rparr>) src
      | None \<Rightarrow>
          if length src < 4 then (Ok None, codec, src)
          else
            let (l, c) = apply_keystream C (cipher_recv codec) (take 4 src)
            in decode_body C (le_val l) (codec\<lparr>cipher_recv := c\<rparr>) (drop 4 src))"

definition from_bytes_as_client :: "('c, 'seed, 'pk, 'sk) crypto_ops \<Rightarrow> bytes \<Rightarrow> 'c PacketCodec" where
  "from_bytes_as_client C bs =
     \<lparr>cipher_recv = cipher_new C (slice 0 32 bs) (slice 64 80 bs),
      cipher_send = cipher_new C (slice 32 64 bs) (slice 80 96 bs),
      next_len = None\<rparr>"

definition from_bytes_as_server :: "('c, 'seed, 'pk, 'sk) crypto_ops \<Rightarrow> bytes \<Rightarrow> 'c PacketCodec" where
  "from_bytes_as_server C bs =
     \<lparr>cipher_recv = cipher_new C (slice 32 64 bs) (slice 80 96 bs),
      cipher_send = cipher_new C (slice 0 32 bs) (slice 64 80 bs),
      next_len = None\<rparr>"

section \<open>Session keys\<close>

record AesCtr =
  basis :: bytes

definition aes_ctr_generate :: "bytes \<Rightarrow> AesCtr" where
  "aes_ctr_generate rnd = \<lparr>basis = rnd\<rparr>"

definition aes_ctr_cipher :: "('c, 'seed, 'pk, 'sk) crypto_ops \<Rightarrow> bytes \<Rightarrow> bytes \<Rightarrow> 'c" where
  "aes_ctr_cipher C x y =
     cipher_new C (slice 0 16 x @ slice 16 32 y) (slice 0 4 y @ slice 20 32 x)"

definition from_encrypted ::
    "('c, 'seed, 'pk, 'sk) crypto_ops \<Rightarrow> bytes \<Rightarrow> bytes \<Rightarrow> 'sk \<Rightarrow> 'pk \<Rightarrow> (adnl_error, AesCtr) res" where
  "from_encrypted C bas chk expanded_secret_key vkey =
     (let x = montgomery_mul C vkey expanded_secret_key;
          cipher = aes_ctr_cipher C x chk
      in res_bind (apply_keystream_b2b C cipher bas)
           (\<lambda>basis_decrypted.
              if sha256 C basis_decrypted \<noteq> chk then Err WrongHandshakeChecksum
              else Ok \<lparr>basis = basis_decrypted\<rparr>))"

definition into_bytes :: "AesCtr \<Rightarrow> bytes" where
  "into_bytes a = basis a"

text \<open>\<open>encrypt\<close> unwraps the result of the cipher: an error is a panic.\<close>

definition aes_ctr_encrypt ::
    "('c, 'seed, 'pk, 'sk) crypto_ops \<Rightarrow> AesCtr \<Rightarrow> 'sk \<Rightarrow> 'pk \<Rightarrow> (bytes \<times> bytes) may_panic" where
  "aes_ctr_encrypt C a expanded_secret_key vkey =
     (let chk = sha256 C (basis a);
          x = montgomery_mul C vkey expanded_secret_key;
          cipher = aes_ctr_cipher C x chk
      in case apply_keystream_b2b C cipher (basis a) of
           Err _ \<Rightarrow> None
         | Ok basis_encrypted \<Rightarrow> Some (basis_encrypted, chk))"

definition from_aes_ctr_as_client :: "('c, 'seed, 'pk, 'sk) crypto_ops \<Rightarrow> AesCtr \<Rightarrow> 'c PacketCodec" where
  "from_aes_ctr_as_client C a = from_bytes_as_client C (into_bytes a)"

definition from_aes_ctr_as_server :: "('c, 'seed, 'pk, 'sk) crypto_ops \<Rightarrow> AesCtr \<Rightarrow> 'c PacketCodec" where
  "from_aes_ctr_as_server C a = from_bytes_as_server C (into_bytes a)"

definition KEY_TYPE :: bytes where
  "KEY_TYPE = [0xC6, 0xB4, 0x13, 0x48]"

type_synonym Ed25519KeyId = bytes

definition from_public_key_bytes :: "('c, 'seed, 'pk, 'sk) crypto_ops \<Rightarrow> bytes \<Rightarrow> Ed25519KeyId" where
  "from_public_key_bytes C public_key = sha256 C (KEY_TYPE @ public_key)"

definition key_id_from_slice :: "bytes \<Rightarrow> Ed25519KeyId may_panic" where
  "key_id_from_slice s = (if length s = 32 then Some s else None)"

record ('pk, 'sk) Ed25519Key =
  key_id :: Ed25519KeyId
  pub_key :: 'pk
  exp_key :: 'sk

definition ed25519_generate :: "('c, 'seed, 'pk, 'sk) crypto_ops \<Rightarrow> 'seed \<Rightarrow> ('pk, 'sk) Ed25519Key" where
  "ed25519_generate C private_key =
     \<lparr>key_id = from_public_key_bytes C (vk_as_bytes C (verifying_key C private_key)),
      pub_key = verifying_key C private_key,
      exp_key = expanded_secret C private_key\<rparr>"

section \<open>Handshake\<close>

text \<open>
  \<open>Client::connect\<close> up to the flush: the bytes it writes to the stream, and the codec of the
  connection. \<open>server_key\<close> is the public key the caller expects the server to own.
\<close>

definition connect_hello ::
    "('c, 'seed, 'pk, 'sk) crypto_ops \<Rightarrow> bytes \<Rightarrow> bytes \<Rightarrow> 'seed \<Rightarrow>
     (adnl_error, bytes \<times> 'c PacketCodec) res may_panic" where
  "connect_hello C server_key rnd seed =
     (let aes_ctr = aes_ctr_generate rnd
      in case vk_from_bytes C server_key of
           None \<Rightarrow> Some (Err InvalidPublicKey)
         | Some server_public_key \<Rightarrow>
             let server_key_id = from_public_key_bytes C server_key;
                 client_key = ed25519_generate C seed
             in do {
               (bas, chk) \<leftarrow> aes_ctr_encrypt C aes_ctr (exp_key client_key) server_public_key;
               Some (Ok (server_key_id @ vk_as_bytes C (pub_key client_key) @ chk @ bas,
                         from_aes_ctr_as_client C aes_ctr)) })"

text \<open>
  The rest of \<open>Client::connect\<close>, on what \<open>timeout(5s, framed.next())\<close> returns: \<open>None\<close> when the
  time is up, \<open>Some None\<close> when the stream ended, or an item.
\<close>

definition connect_finish :: "(adnl_error, Packet) res option option \<Rightarrow> (adnl_error, unit) res" where
  "connect_finish r =
     (case r of
        None \<Rightarrow> Err Elapsed
      | Some None \<Rightarrow> Err MissedEmptyPacket
      | Some (Some (Err e)) \<Rightarrow> Err e
      | Some (Some (Ok packet)) \<Rightarrow>
          if packet_is_empty packet then Ok () else Err EmptyPacketExpected)"

text \<open>
  \<open>Server::handshake\<close> on the bytes that arrive on the stream: the client's key, the codec of the
  connection after the empty packet was sent, and the bytes sent.
\<close>

definition server_handshake ::
    "('c, 'seed, 'pk, 'sk) crypto_ops \<Rightarrow> ('pk, 'sk) Ed25519Key \<Rightarrow> bytes \<Rightarrow> bytes \<Rightarrow>
     (adnl_error, 'pk \<times> 'c PacketCodec \<times> bytes) res may_panic" where
  "server_handshake C server_key rnd stream =
     (if length stream < 32 + 32 + 32 + 160 then Some (Err UnexpectedEof)
      else
        let handshake_packet = take (32 + 32 + 32 + 160) stream
        in do {
          server_key_id \<leftarrow> key_id_from_slice (slice 0 32 handshake_packet);
          Some
            (if server_key_id \<noteq> key_id server_key then Err WrongServerKeyId
             else case vk_from_bytes C (slice 32 64 handshake_packet) of
               None \<Rightarrow> Err InvalidPublicKey
             | Some client_public_key \<Rightarrow>
                 res_bind
                   (from_encrypted C (slice 96 256 handshake_packet) (slice 64 96 handshake_packet)
                      (exp_key server_key) client_public_key)
                   (\<lambda>aes_ctr.
                      let (codec, out) =
                        encode C (from_aes_ctr_as_server C aes_ctr) (packet_empty C rnd) []
                      in Ok (client_public_key, codec, out))) })"

section \<open>Contracts\<close>

text \<open>
  A stream cipher in counter mode: the keystream depends on the position only, so a buffer may be
  processed in pieces, and applying the same keystream twice gives the buffer back.
\<close>

locale stream_cipher =
  fixes apply_ks :: "'c \<Rightarrow> bytes \<Rightarrow> bytes \<times> 'c"
  assumes length_ks: "length (fst (apply_ks c xs)) = length xs"
    and ks_append: "apply_ks c (xs @ ys) =
      (fst (apply_ks c xs) @ fst (apply_ks (snd (apply_ks c xs)) ys),
       snd (apply_ks (snd (apply_ks c xs)) ys))"
    and ks_involution: "fst (apply_ks c (fst (apply_ks c xs))) = xs"
    and ks_position: "length xs = length ys \<Longrightarrow> snd (apply_ks c xs) = snd (apply_ks c ys)"
begin

lemma ks_position_enc: "snd (apply_ks c (fst (apply_ks c xs))) = snd (apply_ks c xs)"
  by (rule ks_position) (rule length_ks)

lemma take_ks: "take (length xs) (fst (apply_ks c (xs @ ys))) = fst (apply_ks c xs)"
  by (simp add: ks_append length_ks)

lemma drop_ks:
  "drop (length xs) (fst (apply_ks c (xs @ ys))) = fst (apply_ks (snd (apply_ks c xs)) ys)"
  by (simp add: ks_append length_ks)

end

text \<open>
  The rest of what the code relies on: SHA-256 values and keys are 32 bytes long, a public key
  survives its encoding, and the two sides of a Diffie-Hellman exchange get the same secret.
\<close>

locale adnl_crypto = stream_cipher "apply_keystream C"
  for C :: "('c, 'seed, 'pk, 'sk) crypto_ops" +
  assumes length_sha256: "length (sha256 C bs) = 32"
    and b2b: "apply_keystream_b2b C c bs = Ok (fst (apply_keystream C c bs))"
    and vk_bytes: "vk_from_bytes C (vk_as_bytes C (verifying_key C s)) = Some (verifying_key C s)"
    and length_vk: "length (vk_as_bytes C pk) = 32"
    and agreement: "montgomery_mul C (verifying_key C a) (expanded_secret C b)
      = montgomery_mul C (verifying_key C b) (expanded_secret C a)"

section \<open>Well-formed packets\<close>

definition wf_packet :: "('c, 'seed, 'pk, 'sk) crypto_ops \<Rightarrow> Packet \<Rightarrow> bool" where
  "wf_packet C p \<longleftrightarrow>
     length (nonce p) = 32 \<and> checksum p = sha256 C (nonce p @ data p) \<and> length (data p) + 64 < 2 ^ 32"

lemma packet_new_wf:
  "length rnd = 32 \<Longrightarrow> length bs + 64 < 2 ^ 32 \<Longrightarrow> wf_packet C (packet_new C rnd bs)"
  by (simp add: wf_packet_def packet_new_def)

section \<open>The codec\<close>

text \<open>An incomplete read has no effect that a later call could see.\<close>

lemma decode_body_pending:
  "decode_body C len codec a = (Ok None, codec', a') \<Longrightarrow> next_len codec = None \<Longrightarrow>
   next_len codec' = Some len \<and> codec'\<lparr>next_len := None\<rparr> = codec \<and> a' = a"
  by (cases codec) (auto simp: decode_body_def Let_def split: if_splits prod.splits)

lemma decode_pending:
  assumes "decode C codec a = (Ok None, codec', a')"
  shows "decode C codec' (a' @ b) = decode C codec (a @ b)"
proof (cases "next_len codec")
  case (Some len)
  with assms have "decode_body C len (codec\<lparr>next_len := None\<rparr>) a = (Ok None, codec', a')"
    by (simp add: decode_def)
  from decode_body_pending [OF this] Some show ?thesis by (simp add: decode_def)
next
  case None
  show ?thesis
  proof (cases "length a < 4")
    case True
    with assms None show ?thesis by (simp add: decode_def)
  next
    case False
    obtain l c where lc: "apply_keystream C (cipher_recv codec) (take 4 a) = (l, c)" by fastforce
    with assms None False
    have "decode_body C (le_val l) (codec\<lparr>cipher_recv := c\<rparr>) (drop 4 a) = (Ok None, codec', a')"
      by (simp add: decode_def)
    from decode_body_pending [OF this] None False lc show ?thesis by (simp add: decode_def)
  qed
qed

text \<open>Bytes behind a complete packet do not change how it is decoded.\<close>

lemma decode_body_complete:
  "decode_body C len codec a = (Ok (Some p), codec', a') \<Longrightarrow>
   decode_body C len codec (a @ b) = (Ok (Some p), codec', a' @ b) \<and> length a = len + length a'"
  if "\<And>c xs. length (fst (apply_keystream C c xs)) = length xs"
  using that [of "cipher_recv codec" "take len a"]
  by (auto simp: decode_body_def Let_def slice_def split: if_splits prod.splits)

lemma decode_body_some_len: "decode_body C len codec a = (Ok (Some p), codec', a') \<Longrightarrow> 64 \<le> len"
  by (simp add: decode_body_def split: if_splits)

context adnl_crypto
begin

lemma decode_complete:
  assumes "decode C codec a = (Ok (Some p), codec', a')"
  shows "decode C codec (a @ b) = (Ok (Some p), codec', a' @ b)" and "64 + length a' \<le> length a"
proof -
  have "decode C codec (a @ b) = (Ok (Some p), codec', a' @ b) \<and> 64 + length a' \<le> length a"
  proof (cases "next_len codec")
    case (Some len)
    with assms have body: "decode_body C len (codec\<lparr>next_len := None\<rparr>) a = (Ok (Some p), codec', a')"
      by (simp add: decode_def)
    from decode_body_complete [OF length_ks this, of b] decode_body_some_len [OF body] Some
    show ?thesis by (simp add: decode_def)
  next
    case None
    then have long: "\<not> length a < 4" using assms by (auto simp: decode_def split: if_splits)
    obtain l c where lc: "apply_keystream C (cipher_recv codec) (take 4 a) = (l, c)" by fastforce
    with assms None long
    have body: "decode_body C (le_val l) (codec\<lparr>cipher_recv := c\<rparr>) (drop 4 a) = (Ok (Some p), codec', a')"
      by (simp add: decode_def)
    from decode_body_complete [OF length_ks this, of b] decode_body_some_len [OF body] None long lc
    show ?thesis by (auto simp: decode_def)
  qed
  then show "decode C codec (a @ b) = (Ok (Some p), codec', a' @ b)" and "64 + length a' \<le> length a"
    by simp_all
qed

lemma decode_body_packet:
  assumes "wf_packet C p" and "n = length (data p) + 64"
  shows "decode_body C n codec
      (fst (apply_keystream C (cipher_recv codec) (nonce p @ data p @ checksum p)) @ rest) =
    (Ok (Some p), codec\<lparr>cipher_recv := snd (apply_keystream C (cipher_recv codec) (nonce p @ data p @ checksum p))\<rparr>, rest)"
proof -
  let ?body = "nonce p @ data p @ checksum p" and ?c = "cipher_recv codec"
  let ?e = "fst (apply_keystream C ?c ?body)"
  have len: "length ?body = n" "length (nonce p) = 32" "length (checksum p) = 32"
    using assms by (simp_all add: wf_packet_def length_sha256)
  then have e: "length ?e = n" by (simp only: length_ks)
  have dec: "apply_keystream C ?c ?e = (?body, snd (apply_keystream C ?c ?body))"
    by (metis ks_involution ks_position_enc prod.collapse)
  have "take (n - 32) (?body @ rest) = nonce p @ data p"
    and "slice (n - 32) n (?body @ rest) = checksum p"
    and "slice 0 32 ?body = nonce p" and "slice 32 (n - 32) ?body = data p"
    and "slice (n - 32) n ?body = checksum p"
    using assms(2) len by (simp_all add: slice_def)
  then show ?thesis
    using assms(1) len e dec by (simp add: decode_body_def wf_packet_def)
qed

lemma decode_frame:
  assumes "wf_packet C p" and "next_len codec = None"
  shows "decode C codec (fst (apply_keystream C (cipher_recv codec) (frame p)) @ rest) =
    (Ok (Some p), codec\<lparr>cipher_recv := snd (apply_keystream C (cipher_recv codec) (frame p))\<rparr>, rest)"
proof -
  let ?n = "length (data p) + 64" and ?c = "cipher_recv codec"
  let ?hdr = "le_bytes 4 ?n" and ?body = "nonce p @ data p @ checksum p"
  let ?c1 = "snd (apply_keystream C ?c ?hdr)"
  have fr: "frame p = ?hdr @ ?body" and hdr: "le_val ?hdr = ?n"
    using assms(1) by (simp_all add: frame_def packet_len_def wf_packet_def byte_simps)
  have e: "length (fst (apply_keystream C ?c ?hdr)) = 4" by (simp add: length_ks)
  have "apply_keystream C ?c (fst (apply_keystream C ?c ?hdr)) = (?hdr, ?c1)"
    by (metis ks_involution ks_position_enc prod.collapse)
  then show ?thesis
    unfolding fr ks_append [of ?c ?hdr ?body]
    using decode_body_packet [OF assms(1) refl, of "codec\<lparr>cipher_recv := ?c1\<rparr>" rest] assms(2) e hdr
    by (simp add: decode_def)
qed

end

section \<open>A connection as a sequence of reads\<close>

text \<open>
  The sender writes packets one after the other into the stream. The receiver's \<open>Framed\<close> calls
  \<open>decode\<close> until it returns \<open>Ok(None)\<close>, then appends what the next read of the socket brings:
  \<open>reads C codec buf cs ps codec' buf'\<close> says that with the buffer \<open>buf\<close> and the reads \<open>cs\<close> to
  come, the packets \<open>ps\<close> are delivered, no error occurs, and \<open>codec'\<close> and \<open>buf'\<close> are left.
\<close>

fun encode_all ::
    "('c, 'seed, 'pk, 'sk) crypto_ops \<Rightarrow> 'c PacketCodec \<Rightarrow> Packet list \<Rightarrow> bytes \<Rightarrow> 'c PacketCodec \<times> bytes"
  where
  "encode_all C codec [] dst = (codec, dst)"
| "encode_all C codec (p # ps) dst =
     (let (codec, dst) = encode C codec p dst in encode_all C codec ps dst)"

inductive reads ::
    "('c, 'seed, 'pk, 'sk) crypto_ops \<Rightarrow> 'c PacketCodec \<Rightarrow> bytes \<Rightarrow> bytes list \<Rightarrow> Packet list \<Rightarrow>
     'c PacketCodec \<Rightarrow> bytes \<Rightarrow> bool" for C where
  item: "decode C codec buf = (Ok (Some p), codec1, buf1) \<Longrightarrow> reads C codec1 buf1 cs ps codec' buf' \<Longrightarrow>
     reads C codec buf cs (p # ps) codec' buf'"
| more: "decode C codec buf = (Ok None, codec1, buf1) \<Longrightarrow> reads C codec1 (buf1 @ c) cs ps codec' buf' \<Longrightarrow>
     reads C codec buf (c # cs) ps codec' buf'"
| finish: "decode C codec buf = (Ok None, codec', buf') \<Longrightarrow> reads C codec buf [] [] codec' buf'"

fun wire :: "('c \<Rightarrow> bytes \<Rightarrow> bytes \<times> 'c) \<Rightarrow> 'c \<Rightarrow> Packet list \<Rightarrow> bytes" where
  "wire ks c [] = []"
| "wire ks c (p # ps) = fst (ks c (frame p)) @ wire ks (snd (ks c (frame p))) ps"

fun wire_end :: "('c \<Rightarrow> bytes \<Rightarrow> bytes \<times> 'c) \<Rightarrow> 'c \<Rightarrow> Packet list \<Rightarrow> 'c" where
  "wire_end ks c [] = c"
| "wire_end ks c (p # ps) = wire_end ks (snd (ks c (frame p))) ps"

lemma encode_all_wire:
  "encode_all C codec ps dst =
     (codec\<lparr>cipher_send := wire_end (apply_keystream C) (cipher_send codec) ps\<rparr>,
      dst @ wire (apply_keystream C) (cipher_send codec) ps)"
  by (induction ps arbitrary: codec dst) (simp_all add: encode_def Let_def split: prod.splits)

lemma decode_body_error:
  "fst (decode_body C len codec a) = Err e \<Longrightarrow> fst (decode_body C len codec (a @ b)) = Err e"
  if "\<And>c xs. length (fst (apply_keystream C c xs)) = length xs"
  using that [of "cipher_recv codec" "take len a"]
  by (auto simp: decode_body_def Let_def slice_def split: if_splits prod.splits)

lemma decode_empty: "next_len codec = None \<Longrightarrow> decode C codec [] = (Ok None, codec, [])"
  by (simp add: decode_def)

context adnl_crypto
begin

lemma decode_error:
  assumes "fst (decode C codec a) = Err e"
  shows "fst (decode C codec (a @ b)) = Err e"
proof (cases "next_len codec")
  case (Some len)
  with assms show ?thesis by (simp add: decode_def decode_body_error [OF length_ks])
next
  case None
  with assms have "\<not> length a < 4" by (auto simp: decode_def split: if_splits)
  with assms None show ?thesis
    by (simp add: decode_def decode_body_error [OF length_ks] split: prod.splits)
qed

lemma decode_wire:
  assumes "next_len codec = None" and "\<forall>p\<in>set ps. wf_packet C p"
  shows "decode C codec (wire (apply_keystream C) (cipher_recv codec) ps) =
    (case ps of
       [] \<Rightarrow> (Ok None, codec, [])
     | p # ps' \<Rightarrow>
         let c = snd (apply_keystream C (cipher_recv codec) (frame p))
         in (Ok (Some p), codec\<lparr>cipher_recv := c\<rparr>, wire (apply_keystream C) c ps'))"
  using assms by (cases ps) (simp_all add: decode_empty decode_frame Let_def)

lemma reads_wire_from:
  assumes "\<forall>x. decode C codec (buf @ x) = decode C codec0 (pre @ x)" and "next_len codec0 = None"
    and "pre @ concat cs = wire (apply_keystream C) (cipher_recv codec0) ps"
    and "\<forall>p\<in>set ps. wf_packet C p"
  shows "reads C codec buf cs ps
    (codec0\<lparr>cipher_recv := wire_end (apply_keystream C) (cipher_recv codec0) ps\<rparr>) []"
  using assms
proof (induction "length cs + length ps" arbitrary: codec buf codec0 pre cs ps rule: less_induct)
  case less
  let ?ks = "apply_keystream C"
  have buf: "decode C codec buf = decode C codec0 pre" using less.prems(1) [rule_format, of "[]"] by simp
  have whole: "decode C codec0 (pre @ concat cs) = decode C codec0 (wire ?ks (cipher_recv codec0) ps)"
    using less.prems(3) by simp
  note wire = decode_wire [OF less.prems(2,4)]
  obtain r codec1 buf1 where dec: "decode C codec buf = (r, codec1, buf1)" by (cases "decode C codec buf")
  consider e where "r = Err e" | p where "r = Ok (Some p)" | "r = Ok None"
    by (metis option.exhaust res.exhaust)
  then show ?case
  proof cases
    case (1 e)
    with buf dec have "fst (decode C codec0 pre) = Err e" by (metis fst_conv)
    from decode_error [OF this, of "concat cs"] whole wire show ?thesis
      by (simp add: Let_def split: list.splits)
  next
    case (2 p)
    with buf dec have "decode C codec0 pre = (Ok (Some p), codec1, buf1)" by simp
    from decode_complete(1) [OF this, of "concat cs"] whole wire
    obtain ps' where ps: "ps = p # ps'"
      and codec1: "codec1 = codec0\<lparr>cipher_recv := snd (?ks (cipher_recv codec0) (frame p))\<rparr>"
      and rest: "buf1 @ concat cs = wire ?ks (cipher_recv codec1) ps'"
      by (auto simp: Let_def split: list.splits)
    have "reads C codec1 buf1 cs ps' (codec1\<lparr>cipher_recv := wire_end ?ks (cipher_recv codec1) ps'\<rparr>) []"
      using less.prems(2,4) ps codec1 rest by (intro less.hyps) simp_all
    with dec 2 show ?thesis unfolding ps by (auto simp: codec1 intro: reads.item)
  next
    case 3
    with dec have pend: "decode C codec buf = (Ok None, codec1, buf1)" by simp
    show ?thesis
    proof (cases cs)
      case Nil
      with pend buf whole wire have "ps = [] \<and> codec1 = codec0 \<and> buf1 = []"
        by (auto simp: Let_def split: list.splits)
      with pend Nil show ?thesis by (auto intro: reads.finish)
    next
      case (Cons c cs')
      have "reads C codec1 (buf1 @ c) cs' ps
          (codec0\<lparr>cipher_recv := wire_end ?ks (cipher_recv codec0) ps\<rparr>) []"
      proof (rule less.hyps)
        show "\<forall>x. decode C codec1 ((buf1 @ c) @ x) = decode C codec0 ((pre @ c) @ x)"
          using decode_pending [OF pend] less.prems(1) by simp
      qed (use less.prems(2,3,4) Cons in simp_all)
      with pend Cons show ?thesis by (auto intro: reads.more)
    qed
  qed
qed

end

section \<open>The handshake\<close>

lemma slice_append [simp]:
  "length xs = a \<Longrightarrow> slice a b (xs @ ys) = take (b - a) ys"
  by (simp add: slice_def)

lemma key_id_slice: "32 \<le> length xs \<Longrightarrow> key_id_from_slice (slice 0 32 xs) = Some (take 32 xs)"
  by (simp add: key_id_from_slice_def slice_def)

context adnl_crypto
begin

lemma from_encrypted_encrypt:
  assumes "aes_ctr_encrypt C \<lparr>basis = bs\<rparr> (expanded_secret C a) (verifying_key C b) = Some (bas, chk)"
  shows "from_encrypted C bas chk (expanded_secret C b) (verifying_key C a) = Ok \<lparr>basis = bs\<rparr>"
  using assms
  by (auto simp: aes_ctr_encrypt_def from_encrypted_def b2b Let_def agreement [of b a] ks_involution)

lemma encrypt_defined:
  "\<exists>bas. aes_ctr_encrypt C \<lparr>basis = bs\<rparr> sk pk = Some (bas, sha256 C bs) \<and> length bas = length bs"
  by (simp add: aes_ctr_encrypt_def b2b length_ks Let_def)

lemma server_accepts:
  assumes "aes_ctr_encrypt C \<lparr>basis = rnd\<rparr> (expanded_secret C a) (verifying_key C b) = Some (bas, sha256 C rnd)"
    and "length bas = 160"
  shows "server_handshake C (ed25519_generate C b) n
      (from_public_key_bytes C (vk_as_bytes C (verifying_key C b)) @ vk_as_bytes C (verifying_key C a)
        @ sha256 C rnd @ bas) =
    (let (codec, out) = encode C (from_bytes_as_server C rnd) (packet_empty C n) []
     in Some (Ok (verifying_key C a, codec, out)))"
proof -
  let ?id = "from_public_key_bytes C (vk_as_bytes C (verifying_key C b))"
  let ?pk = "vk_as_bytes C (verifying_key C a)"
  have len: "length ?id = 32" "length ?pk = 32" "length (sha256 C rnd) = 32"
    by (simp_all add: from_public_key_bytes_def length_sha256 length_vk)
  let ?m = "?id @ ?pk @ sha256 C rnd @ bas"
  have "length ?m = 256" and "take 256 ?m = ?m" using len assms(2) by simp_all
  moreover have "take 32 ?m = ?id" and "slice 32 64 ?m = ?pk"
    and "slice 64 96 ?m = sha256 C rnd" and "slice 96 256 ?m = bas"
    using len assms(2) by (simp_all add: slice_def)
  ultimately show ?thesis
    using from_encrypted_encrypt [OF assms(1)]
    by (simp add: server_handshake_def key_id_slice ed25519_generate_def vk_bytes
        from_aes_ctr_as_server_def into_bytes_def split: prod.splits)
qed

lemma handshake:
  assumes "length rnd = 160" and "length n = 32"
  shows "\<exists>hello cc sc out cc'.
    connect_hello C (vk_as_bytes C (verifying_key C b)) rnd a = Some (Ok (hello, cc)) \<and>
    server_handshake C (ed25519_generate C b) n hello = Some (Ok (verifying_key C a, sc, out)) \<and>
    decode C cc out = (Ok (Some (packet_empty C n)), cc', []) \<and>
    connect_finish (Some (Some (Ok (packet_empty C n)))) = Ok () \<and>
    cipher_recv cc' = cipher_send sc \<and> cipher_send cc' = cipher_recv sc \<and>
    next_len cc' = None \<and> next_len sc = None"
proof -
  obtain bas where enc: "aes_ctr_encrypt C \<lparr>basis = rnd\<rparr> (expanded_secret C a) (verifying_key C b)
      = Some (bas, sha256 C rnd)" and bas: "length bas = 160"
    using encrypt_defined [of rnd "expanded_secret C a" "verifying_key C b"] assms(1) by auto
  let ?cc = "from_bytes_as_client C rnd" and ?ss = "from_bytes_as_server C rnd" and ?p = "packet_empty C n"
  have wf: "wf_packet C ?p" using assms(2) by (simp add: packet_empty_def packet_new_wf)
  have same: "cipher_recv ?cc = cipher_send ?ss" "cipher_send ?cc = cipher_recv ?ss" "next_len ?cc = None"
    "next_len ?ss = None"
    by (simp_all add: from_bytes_as_client_def from_bytes_as_server_def)
  have "connect_hello C (vk_as_bytes C (verifying_key C b)) rnd a =
      Some (Ok (from_public_key_bytes C (vk_as_bytes C (verifying_key C b)) @
        vk_as_bytes C (verifying_key C a) @ sha256 C rnd @ bas, ?cc))"
    using enc by (simp add: connect_hello_def vk_bytes aes_ctr_generate_def ed25519_generate_def
        from_aes_ctr_as_client_def into_bytes_def)
  moreover obtain ks c where ks: "apply_keystream C (cipher_send ?ss) (frame ?p) = (ks, c)" by fastforce
  moreover have "decode C ?cc ks = (Ok (Some ?p), ?cc\<lparr>cipher_recv := c\<rparr>, [])"
    using decode_frame [OF wf same(3), of "[]"] ks by (simp add: same(1))
  moreover have "connect_finish (Some (Some (Ok ?p))) = Ok ()"
    by (simp add: connect_finish_def packet_is_empty_def packet_empty_def packet_new_def)
  ultimately show ?thesis
    using server_accepts [OF enc bas, of n] same by (auto simp: encode_def)
qed

end

section \<open>A model of the contract\<close>

text \<open>
  A concrete set of operations that obeys the contract: the keystream is a counter added to a byte
  of the key, keys are single bytes and the shared secret is their product. It shows that the laws
  are consistent and is what the properties are evaluated on.
\<close>

fun counter_ks :: "u8 \<times> nat \<Rightarrow> bytes \<Rightarrow> bytes \<times> (u8 \<times> nat)" where
  "counter_ks c [] = ([], c)"
| "counter_ks (k, i) (x # xs) =
     (let (ys, c) = counter_ks (k, Suc i) xs in ((x XOR (k + of_nat i)) # ys, c))"

definition demo_crypto :: "(u8 \<times> nat, u8, u8, u8) crypto_ops" where
  "demo_crypto = \<lparr>
     sha256 = (\<lambda>bs. replicate 32 (sum_list bs)),
     cipher_new = (\<lambda>k iv. (sum_list k + sum_list iv, 0)),
     apply_keystream = counter_ks,
     apply_keystream_b2b = (\<lambda>c bs. Ok (fst (counter_ks c bs))),
     verifying_key = (\<lambda>s. s),
     expanded_secret = (\<lambda>s. s),
     vk_from_bytes = (\<lambda>bs. if length bs = 32 then Some (hd bs) else None),
     vk_as_bytes = (\<lambda>pk. replicate 32 pk),
     montgomery_mul = (\<lambda>pk sk. replicate 32 (pk * sk)) \<rparr>"

lemma counter_ks_end: "snd (counter_ks (k, i) xs) = (k, i + length xs)"
  by (induction xs arbitrary: i) (auto simp: split_beta Let_def)

lemma counter_ks_length: "length (fst (counter_ks c xs)) = length xs"
  by (induction c xs rule: counter_ks.induct) (auto simp: split_beta Let_def)

lemma counter_ks_append:
  "counter_ks c (xs @ ys) =
     (fst (counter_ks c xs) @ fst (counter_ks (snd (counter_ks c xs)) ys),
      snd (counter_ks (snd (counter_ks c xs)) ys))"
  by (induction c xs rule: counter_ks.induct) (auto simp: split_beta Let_def)

lemma counter_ks_involution: "fst (counter_ks c (fst (counter_ks c xs))) = xs"
  by (induction c xs rule: counter_ks.induct)
    (auto simp: split_beta Let_def xor.assoc)

interpretation demo: adnl_crypto demo_crypto
proof unfold_locales
  fix c :: "u8 \<times> nat" and xs ys :: bytes
  assume "length xs = length ys"
  then show "snd (apply_keystream demo_crypto c xs) = snd (apply_keystream demo_crypto c ys)"
    by (cases c) (simp add: demo_crypto_def counter_ks_end)
qed (simp_all add: demo_crypto_def counter_ks_length counter_ks_append counter_ks_involution mult.commute)

section \<open>Properties\<close>

text \<open>
  C9. A connection delivers what was sent, however the network cuts the stream: when the
  receiver's cipher is where the sender's is, every way of splitting the bytes the sender encoded
  into reads yields exactly the packets, in order, with nothing left in the buffer and the two
  ciphers in step again.
\<close>

theorem reads_deliver_what_was_sent:
  assumes "adnl_crypto C" and "cipher_recv r = cipher_send s" "next_len r = None"
    and "\<forall>p\<in>set ps. wf_packet C p"
    and "encode_all C s ps [] = (s', out)" and "concat cs = out"
  shows "\<exists>r'. reads C r [] cs ps r' [] \<and> cipher_recv r' = cipher_send s' \<and> next_len r' = None"
proof -
  have "out = wire (apply_keystream C) (cipher_recv r) ps"
    and "cipher_send s' = wire_end (apply_keystream C) (cipher_recv r) ps"
    using assms(2,5) by (auto simp: encode_all_wire)
  with adnl_crypto.reads_wire_from [OF assms(1), of r "[]" r "[]" cs ps] assms(3,4,6)
  show ?thesis
    by (intro exI [of _ "r\<lparr>cipher_recv := wire_end (apply_keystream C) (cipher_recv r) ps\<rparr>"]) simp
qed

theorem reads_deliver_what_was_sent_witness:
  "\<exists>r'. reads demo_crypto (from_bytes_as_client demo_crypto [1, 2, 3]) []
     [take 7 (snd (encode_all demo_crypto (from_bytes_as_server demo_crypto [1, 2, 3])
        [packet_empty demo_crypto (replicate 32 5)] [])),
      drop 7 (snd (encode_all demo_crypto (from_bytes_as_server demo_crypto [1, 2, 3])
        [packet_empty demo_crypto (replicate 32 5)] []))]
     [packet_empty demo_crypto (replicate 32 5)] r' []"
  using reads_deliver_what_was_sent [OF demo.adnl_crypto_axioms,
      of "from_bytes_as_client demo_crypto [1, 2, 3]" "from_bytes_as_server demo_crypto [1, 2, 3]"
      "[packet_empty demo_crypto (replicate 32 5)]",
      OF _ _ _ prod.collapse [symmetric],
      of "[take 7 (snd (encode_all demo_crypto (from_bytes_as_server demo_crypto [1, 2, 3])
            [packet_empty demo_crypto (replicate 32 5)] [])),
          drop 7 (snd (encode_all demo_crypto (from_bytes_as_server demo_crypto [1, 2, 3])
            [packet_empty demo_crypto (replicate 32 5)] []))]"]
  by (auto simp: from_bytes_as_client_def from_bytes_as_server_def packet_empty_def packet_new_wf)

text \<open>
  C10. The handshake works: with the server's own public key, the client's greeting is accepted by
  the server, which learns the client's key and answers with an empty packet; the client decodes
  that packet, its \<open>connect\<close> succeeds, and each side's sending cipher is then the other side's
  receiving cipher.
\<close>

theorem handshake_completes:
  assumes "adnl_crypto C" and "length rnd = 160" and "length n = 32"
  shows "\<exists>hello cc sc out cc'.
    connect_hello C (vk_as_bytes C (verifying_key C b)) rnd a = Some (Ok (hello, cc)) \<and>
    server_handshake C (ed25519_generate C b) n hello = Some (Ok (verifying_key C a, sc, out)) \<and>
    decode C cc out = (Ok (Some (packet_empty C n)), cc', []) \<and>
    connect_finish (Some (Some (Ok (packet_empty C n)))) = Ok () \<and>
    cipher_recv cc' = cipher_send sc \<and> cipher_send cc' = cipher_recv sc \<and>
    next_len cc' = None \<and> next_len sc = None"
  by (rule adnl_crypto.handshake [OF assms])

theorem handshake_completes_witness:
  "\<exists>hello cc sc out.
    connect_hello demo_crypto (vk_as_bytes demo_crypto 7) (replicate 160 3) 9 = Some (Ok (hello, cc)) \<and>
    server_handshake demo_crypto (ed25519_generate demo_crypto 7) (replicate 32 1) hello
      = Some (Ok (9, sc, out))"
  using handshake_completes [OF demo.adnl_crypto_axioms, of "replicate 160 3" "replicate 32 1" 7 9]
  by (auto simp: demo_crypto_def)

text \<open>
  C24. The server lets a connection in only on a complete greeting that names its own key, carries
  a valid public key, and whose checksum is that of the session keys the greeting decrypts to
  under the secret shared with that public key.
\<close>

theorem server_handshake_accepts_only:
  assumes "server_handshake C key n stream = Some (Ok (pk, codec, out))"
  shows "256 \<le> length stream \<and> take 32 stream = key_id key \<and>
    vk_from_bytes C (slice 32 64 stream) = Some pk \<and>
    (\<exists>bs. from_encrypted C (slice 96 256 stream) (slice 64 96 stream) (exp_key key) pk = Ok \<lparr>basis = bs\<rparr> \<and>
       sha256 C bs = slice 64 96 stream \<and>
       (codec, out) = encode C (from_bytes_as_server C bs) (packet_empty C n) [])"
proof -
  have sl: "slice a b (take 256 stream) = slice a b stream" if "b \<le> 256" for a b
    using that by (simp add: slice_def drop_take)
  show ?thesis
    using assms
    by (auto simp: server_handshake_def sl key_id_from_slice_def Let_def from_encrypted_def
        from_aes_ctr_as_server_def into_bytes_def slice_def [of 0] split: if_splits option.splits prod.splits)
qed

theorem server_handshake_accepts_only_witness:
  "\<exists>hello cc sc out. connect_hello demo_crypto (vk_as_bytes demo_crypto 7) (replicate 160 3) 9 = Some (Ok (hello, cc)) \<and>
     server_handshake demo_crypto (ed25519_generate demo_crypto 7) (replicate 32 1) hello = Some (Ok (9, sc, out)) \<and>
     take 32 hello = key_id (ed25519_generate demo_crypto 7)"
proof -
  obtain hello cc sc out where
    h: "connect_hello demo_crypto (vk_as_bytes demo_crypto 7) (replicate 160 3) 9 = Some (Ok (hello, cc))"
    and sv: "server_handshake demo_crypto (ed25519_generate demo_crypto 7) (replicate 32 1) hello
      = Some (Ok (9, sc, out))"
    using demo.handshake [of "replicate 160 3" "replicate 32 1" 7 9] by (auto simp: demo_crypto_def)
  from server_handshake_accepts_only [OF sv] h sv show ?thesis by blast
qed

text \<open>
  C23. A packet that comes out of \<open>decode\<close> is intact: its checksum is the SHA-256 of its nonce and
  data, its nonce has 32 bytes, and at least 64 bytes of the buffer were consumed for it.
\<close>

theorem decode_integrity:
  assumes "adnl_crypto C" and "decode C codec src = (Ok (Some p), codec', src')"
  shows "checksum p = sha256 C (nonce p @ data p) \<and> length (nonce p) = 32 \<and>
    64 + length src' \<le> length src"
proof -
  obtain len codec1 src1 where body: "decode_body C len codec1 src1 = (Ok (Some p), codec', src')"
    using assms(2)
    by (auto simp: decode_def Let_def split: option.splits if_splits prod.splits)
  let ?d = "fst (apply_keystream C (cipher_recv codec1) (take len src1))"
  have len: "64 \<le> len" "len \<le> length src1" "length ?d = len"
    using body stream_cipher.length_ks [OF adnl_crypto.axioms(1) [OF assms(1)]]
    by (auto simp: decode_body_def split: if_splits)
  from len have "take (len - 32) ?d = slice 0 32 ?d @ slice 32 (len - 32) ?d"
    by (simp add: slice_def take_add [symmetric])
  with body len show ?thesis
    using adnl_crypto.decode_complete(2) [OF assms]
    by (auto simp: decode_body_def Let_def slice_def split: if_splits prod.splits)
qed

theorem decode_integrity_witness:
  "\<exists>cc out cc' p. decode demo_crypto cc out = (Ok (Some p), cc', []) \<and> p = packet_empty demo_crypto (replicate 32 1) \<and>
     checksum p = sha256 demo_crypto (nonce p @ data p) \<and> length (nonce p) = 32 \<and> 64 \<le> length out"
proof -
  obtain cc out cc' where
    d: "decode demo_crypto cc out = (Ok (Some (packet_empty demo_crypto (replicate 32 1))), cc', [])"
    using demo.handshake [OF length_replicate length_replicate, of 7 3 9 1] by blast
  with decode_integrity [OF demo.adnl_crypto_axioms d] show ?thesis by auto
qed

end
