(* ===== verification/Address.thy ===== *)
theory Address
  imports Prelude
begin

text \<open>
  Account addresses, \<^verbatim>\<open>tonlibjson-client/src/address.rs\<close>: the raw form \<open>workchain:hex\<close>, the flagged
  base64 form and the shard-context form, their parsers and printers. The codecs of the crates
  \<^verbatim>\<open>hex\<close>, \<^verbatim>\<open>base64\<close> and \<^verbatim>\<open>crc\<close> are the parameter \<open>addr_ops\<close>; the locale \<open>addr_crates\<close> states their
  documented behaviour. Integers are printed and parsed as Rust's standard library does.
  Serialisation through \<^verbatim>\<open>serde\<close> is the printed form and the \<open>Debug\<close> output is not modelled.
\<close>

section \<open>Codecs of other crates\<close>

record addr_ops =
  hex_encode :: "bytes \<Rightarrow> string"
  hex_decode_to_slice :: "nat \<Rightarrow> string \<Rightarrow> bytes option"
  base64_encode :: "bytes \<Rightarrow> string"
  base64_decode :: "string \<Rightarrow> bytes option"
  base64_encode_url_safe :: "bytes \<Rightarrow> string"
  crc16_checksum :: "bytes \<Rightarrow> u16"

section \<open>Integers as text\<close>

fun show_nat :: "nat \<Rightarrow> string" where
  "show_nat n = (if n < 10 then [char_of (48 + n)] else show_nat (n div 10) @ [char_of (48 + n mod 10)])"

declare show_nat.simps [simp del]

definition show_int :: "int \<Rightarrow> string" where
  "show_int v = (if v < 0 then CHR ''-'' # show_nat (nat (- v)) else show_nat (nat v))"

definition digit_val :: "char \<Rightarrow> int option" where
  "digit_val c = (let n = of_char c :: nat in if 48 \<le> n \<and> n \<le> 57 then Some (int n - 48) else None)"

text \<open>The checked accumulation of \<open>i32::from_str\<close>.\<close>

fun parse_digits :: "bool \<Rightarrow> int \<Rightarrow> string \<Rightarrow> i32 option" where
  "parse_digits neg acc [] = Some acc"
| "parse_digits neg acc (c # cs) =
     (case digit_val c of
        None \<Rightarrow> None
      | Some d \<Rightarrow>
          (let v = acc * 10 + (if neg then - d else d)
           in if in_i32 (acc * 10) \<and> in_i32 v then parse_digits neg v cs else None))"

definition parse_i32 :: "string \<Rightarrow> i32 option" where
  "parse_i32 s =
     (case s of
        [] \<Rightarrow> None
      | c # cs \<Rightarrow>
          if (c = CHR ''+'' \<or> c = CHR ''-'') \<and> cs = [] then None
          else if c = CHR ''+'' then parse_digits False 0 cs
          else if c = CHR ''-'' then parse_digits True 0 cs
          else parse_digits False 0 s)"

fun split_once :: "char \<Rightarrow> string \<Rightarrow> (string \<times> string) option" where
  "split_once d [] = None"
| "split_once d (c # cs) =
     (if c = d then Some ([], cs)
      else case split_once d cs of None \<Rightarrow> None | Some (a, b) \<Rightarrow> Some (c # a, b))"

section \<open>Addresses\<close>

record AccountAddressData =
  chain_id :: i32
  addr_bytes :: bytes
  flags :: "u8 option"

datatype addr_error =
    ParseIntError
  | FromHexError
  | InvalidAddress
  | InvalidBase64Address
  | InvalidAddressLength nat

definition to_standard :: "string \<Rightarrow> string" where
  "to_standard s = map (\<lambda>c. if c = CHR ''_'' then CHR ''/'' else c)
     (map (\<lambda>c. if c = CHR ''-'' then CHR ''+'' else c) s)"

definition addr_from_str :: "addr_ops \<Rightarrow> string \<Rightarrow> (addr_error, AccountAddressData) res" where
  "addr_from_str A s =
     (case split_once CHR '':'' s of
        Some (workchain_id, hex_bytes) \<Rightarrow>
          (case parse_i32 workchain_id of
             None \<Rightarrow> Err ParseIntError
           | Some chain \<Rightarrow>
               (case hex_decode_to_slice A 32 hex_bytes of
                  None \<Rightarrow> Err FromHexError
                | Some bs \<Rightarrow> Ok \<lparr>chain_id = chain, addr_bytes = bs, flags = None\<rparr>))
      | None \<Rightarrow>
          (case hex_decode_to_slice A 32 s of
             Some bs \<Rightarrow> Ok \<lparr>chain_id = - 1, addr_bytes = bs, flags = None\<rparr>
           | None \<Rightarrow>
               (case base64_decode A (to_standard s) of
                  None \<Rightarrow> Err InvalidAddress
                | Some (fl # workchain # data) \<Rightarrow>
                    if length data \<noteq> 32 + 2 then Err (InvalidAddressLength (length data))
                    else Ok \<lparr>chain_id = (if workchain = 255 then - 1 else int (unat workchain)),
                             addr_bytes = take 32 data, flags = Some fl\<rparr>
                | Some _ \<Rightarrow> Err InvalidBase64Address)))"

definition BOUNCABLE :: u8 where
  "BOUNCABLE = 0x11"

definition NON_BOUNCABLE :: u8 where
  "NON_BOUNCABLE = 0x51"

definition with_chain_id :: "AccountAddressData \<Rightarrow> i32 \<Rightarrow> AccountAddressData" where
  "with_chain_id a c = a\<lparr>chain_id := c\<rparr>"

definition bounceable :: "AccountAddressData \<Rightarrow> AccountAddressData" where
  "bounceable a = \<lparr>chain_id = chain_id a, addr_bytes = addr_bytes a, flags = Some BOUNCABLE\<rparr>"

definition non_bounceable :: "AccountAddressData \<Rightarrow> AccountAddressData" where
  "non_bounceable a = \<lparr>chain_id = chain_id a, addr_bytes = addr_bytes a, flags = Some NON_BOUNCABLE\<rparr>"

definition to_raw_string :: "addr_ops \<Rightarrow> AccountAddressData \<Rightarrow> string" where
  "to_raw_string A a = show_int (chain_id a) @ CHR '':'' # hex_encode A (addr_bytes a)"

definition flagged_body :: "AccountAddressData \<Rightarrow> bytes" where
  "flagged_body a =
     (case flags a of Some fl \<Rightarrow> fl | None \<Rightarrow> BOUNCABLE) #
     (if chain_id a = - 1 then 255 else word_of_int (chain_id a)) # addr_bytes a"

definition to_flagged_string :: "addr_ops \<Rightarrow> AccountAddressData \<Rightarrow> string" where
  "to_flagged_string A a =
     (let buf = flagged_body a; crc16 = crc16_checksum A buf
      in base64_encode_url_safe A (buf @ be_bytes 2 (unat crc16)))"

definition addr_to_string :: "addr_ops \<Rightarrow> AccountAddressData \<Rightarrow> string" where
  "addr_to_string A a =
     (case flags a of Some _ \<Rightarrow> to_flagged_string A a | None \<Rightarrow> to_raw_string A a)"

record ShardContextAccountAddress =
  shard_bytes :: bytes

record InternalAccountAddress =
  internal_chain_id :: i32
  internal_bytes :: bytes

definition into_shard_context :: "AccountAddressData \<Rightarrow> ShardContextAccountAddress" where
  "into_shard_context a = \<lparr>shard_bytes = addr_bytes a\<rparr>"

datatype shard_addr_error = Base64Error | InvalidLength nat

definition shard_from_str :: "addr_ops \<Rightarrow> string \<Rightarrow> (shard_addr_error, ShardContextAccountAddress) res" where
  "shard_from_str A s =
     (case base64_decode A s of
        None \<Rightarrow> Err Base64Error
      | Some bs \<Rightarrow> if length bs \<noteq> 32 then Err (InvalidLength (length bs)) else Ok \<lparr>shard_bytes = bs\<rparr>)"

definition shard_to_string :: "addr_ops \<Rightarrow> ShardContextAccountAddress \<Rightarrow> string" where
  "shard_to_string A a = base64_encode A (shard_bytes a)"

definition into_internal :: "ShardContextAccountAddress \<Rightarrow> i32 \<Rightarrow> InternalAccountAddress" where
  "into_internal a c = \<lparr>internal_chain_id = c, internal_bytes = shard_bytes a\<rparr>"

definition internal_to_string :: "addr_ops \<Rightarrow> InternalAccountAddress \<Rightarrow> string" where
  "internal_to_string A a = show_int (internal_chain_id a) @ CHR '':'' # hex_encode A (internal_bytes a)"

section \<open>Integers: printing and parsing\<close>

lemma digit_val_char [simp]: "d < 10 \<Longrightarrow> digit_val (char_of (48 + d)) = Some (int d)" for d :: nat
  by (simp add: digit_val_def)

lemma parse_digits_append:
  "parse_digits neg acc (xs @ ys) = Option.bind (parse_digits neg acc xs) (\<lambda>v. parse_digits neg v ys)"
  by (induction neg acc xs rule: parse_digits.induct) (auto split: option.splits simp: Let_def)

lemma parse_digits_show_nat:
  "in_i32 (if neg then - int n else int n) \<Longrightarrow>
   parse_digits neg 0 (show_nat n) = Some (if neg then - int n else int n)"
proof (induction n rule: show_nat.induct)
  case (1 n)
  show ?case
  proof (cases "n < 10")
    case True
    with 1 show ?thesis by (subst show_nat.simps) (simp add: in_i32_def)
  next
    case False
    let ?s = "\<lambda>k :: nat. if neg then - int k else int k"
    have eq: "?s (n div 10) * 10 + (if neg then - int (n mod 10) else int (n mod 10)) = ?s n"
    proof -
      have "int n = int (n div 10) * 10 + int (n mod 10)" by (simp add: zdiv_int zmod_int)
      then show ?thesis by (auto simp del: of_nat_div of_nat_mod)
    qed
    have "in_i32 (?s (n div 10) * 10)" and "in_i32 (?s (n div 10))"
      using "1.prems" by (auto simp: in_i32_def zdiv_int split: if_splits)
    with 1 False eq show ?thesis
      by (subst show_nat.simps) (simp add: parse_digits_append Let_def)
  qed
qed

lemma show_nat_digits: "(\<forall>c\<in>set (show_nat n). digit_val c \<noteq> None) \<and> show_nat n \<noteq> []"
proof (induction n rule: show_nat.induct)
  case (1 n)
  then show ?case by (subst (1 2) show_nat.simps) auto
qed

lemma not_digit: "digit_val CHR ''+'' = None" "digit_val CHR ''-'' = None" "digit_val CHR '':'' = None"
  by (simp_all add: digit_val_def)

lemma parse_i32_show_int: "in_i32 v \<Longrightarrow> parse_i32 (show_int v) = Some v"
proof (cases "v < 0")
  case True
  assume "in_i32 v"
  with True show ?thesis
    using parse_digits_show_nat [of True "nat (- v)"] show_nat_digits [of "nat (- v)"]
    by (simp add: parse_i32_def show_int_def)
next
  case False
  assume "in_i32 v"
  then have p: "parse_digits False 0 (show_nat (nat v)) = Some v"
    using False parse_digits_show_nat [of False "nat v"] by simp
  obtain c cs where s: "show_nat (nat v) = c # cs"
    using show_nat_digits [of "nat v"] by (cases "show_nat (nat v)") auto
  then have "c \<noteq> CHR ''+''" and "c \<noteq> CHR ''-''"
    using show_nat_digits [of "nat v"] not_digit by auto
  with False p s show ?thesis by (simp add: parse_i32_def show_int_def)
qed

lemma split_once_append [simp]: "d \<notin> set xs \<Longrightarrow> split_once d (xs @ d # ys) = Some (xs, ys)"
  by (induction xs) auto

lemma split_once_absent: "d \<notin> set xs \<Longrightarrow> split_once d xs = None"
  by (induction xs) (auto split: option.splits)

lemma colon_show_int: "CHR '':'' \<notin> set (show_int v)"
  using show_nat_digits [of "nat v"] show_nat_digits [of "nat (- v)"] not_digit by (auto simp: show_int_def)

lemma parse_digits_range: "parse_digits neg acc s = Some v \<Longrightarrow> in_i32 acc \<Longrightarrow> in_i32 v"
  by (induction neg acc s rule: parse_digits.induct) (auto split: option.splits if_splits simp: Let_def)

lemma parse_i32_range: "parse_i32 s = Some v \<Longrightarrow> in_i32 v"
proof -
  have "in_i32 0" by (simp add: in_i32_def)
  then show "parse_i32 s = Some v \<Longrightarrow> in_i32 v"
    by (auto simp: parse_i32_def dest: parse_digits_range split: list.splits if_splits
      simp del: parse_digits.simps)
qed

section \<open>Contract of the codecs\<close>

locale addr_crates =
  fixes A :: addr_ops
  assumes hex_decode_encode: "length bs = n \<Longrightarrow> hex_decode_to_slice A n (hex_encode A bs) = Some bs"
    and hex_decode_length: "hex_decode_to_slice A n s = Some bs \<Longrightarrow> length bs = n \<and> length s = 2 * n"
    and base64_decode_encode: "base64_decode A (base64_encode A bs) = Some bs"
    and base64_length: "length (base64_encode A bs) = 4 * ((length bs + 2) div 3)"
    and base64_alphabet: "set (base64_encode A bs) \<inter> {CHR ''-'', CHR ''_'', CHR '':''} = {}"
    and base64_url_safe: "base64_encode_url_safe A bs =
      map (\<lambda>c. if c = CHR ''+'' then CHR ''-'' else if c = CHR ''/'' then CHR ''_'' else c) (base64_encode A bs)"
begin

lemma to_standard_url_safe: "to_standard (base64_encode_url_safe A bs) = base64_encode A bs"
proof -
  have "to_standard (base64_encode_url_safe A bs) = map (\<lambda>c. c) (base64_encode A bs)"
    unfolding to_standard_def base64_url_safe map_map
    by (rule map_cong) (use base64_alphabet [of bs] in auto)
  then show ?thesis by simp
qed

lemma url_safe_no_colon: "CHR '':'' \<notin> set (base64_encode_url_safe A bs)"
  using base64_alphabet [of bs] by (auto simp: base64_url_safe)

lemma flagged_not_hex:
  "length bs = 36 \<Longrightarrow> hex_decode_to_slice A 32 (base64_encode_url_safe A bs) = None"
proof (rule ccontr)
  assume len: "length bs = 36" and "hex_decode_to_slice A 32 (base64_encode_url_safe A bs) \<noteq> None"
  then have "length (base64_encode_url_safe A bs) = 64" by (auto dest: hex_decode_length)
  with len show False by (simp add: base64_url_safe base64_length)
qed

lemma addr_from_str_url_safe:
  "length data = 34 \<Longrightarrow>
   addr_from_str A (base64_encode_url_safe A (fl # w # data)) =
     Ok \<lparr>chain_id = (if w = 255 then - 1 else int (unat w)), addr_bytes = take 32 data, flags = Some fl\<rparr>"
  by (simp add: addr_from_str_def split_once_absent url_safe_no_colon flagged_not_hex to_standard_url_safe base64_decode_encode)

lemma flagged_chain_byte:
  "c = - 1 \<or> 0 \<le> c \<and> c < 255 \<Longrightarrow>
   (let w = (if c = - 1 then 255 else word_of_int c :: u8) in if w = 255 then - 1 else int (unat w)) = c"
proof -
  have "word_of_int c \<noteq> (255 :: u8)" and "int (unat (word_of_int c :: u8)) = c" if "0 \<le> c" "c < 255"
  proof -
    show "int (unat (word_of_int c :: u8)) = c" using that by (simp add: uint_word_of_int)
    then show "word_of_int c \<noteq> (255 :: u8)" using that by auto
  qed
  then show "c = - 1 \<or> 0 \<le> c \<and> c < 255 \<Longrightarrow> ?thesis" by (auto simp: Let_def)
qed

lemma flagged_roundtrip:
  assumes "length (addr_bytes a) = 32" and "chain_id a = - 1 \<or> 0 \<le> chain_id a \<and> chain_id a < 255"
  shows "addr_from_str A (to_flagged_string A a) =
    Ok (a\<lparr>flags := Some (case flags a of Some fl \<Rightarrow> fl | None \<Rightarrow> BOUNCABLE)\<rparr>)"
  using flagged_chain_byte [OF assms(2)] assms(1)
  by (simp add: to_flagged_string_def flagged_body_def addr_from_str_url_safe Let_def)

lemma raw_roundtrip:
  assumes "length (addr_bytes a) = 32" and "in_i32 (chain_id a)"
  shows "addr_from_str A (to_raw_string A a) = Ok (a\<lparr>flags := None\<rparr>)"
  using assms colon_show_int
  by (simp add: addr_from_str_def to_raw_string_def parse_i32_show_int hex_decode_encode)

lemma addr_from_str_wf:
  assumes "addr_from_str A s = Ok a"
  shows "length (addr_bytes a) = 32 \<and> in_i32 (chain_id a)"
  using assms
  by (auto simp: addr_from_str_def in_i32_byte [simplified] in_i32_minus_1 dest: hex_decode_length parse_i32_range
      split: option.splits list.splits if_splits prod.splits)

end

text \<open>The documented codecs, as functions.\<close>

definition hex_char :: "nat \<Rightarrow> char" where
  "hex_char n = char_of (if n < 10 then 48 + n else 87 + n)"

definition hex_val :: "char \<Rightarrow> nat option" where
  "hex_val c = (let n = of_char c :: nat in
     if 48 \<le> n \<and> n \<le> 57 then Some (n - 48)
     else if 97 \<le> n \<and> n \<le> 102 then Some (n - 87)
     else if 65 \<le> n \<and> n \<le> 70 then Some (n - 55) else None)"

definition std_hex_encode :: "bytes \<Rightarrow> string" where
  "std_hex_encode bs = concat (map (\<lambda>b. [hex_char (unat b div 16), hex_char (unat b mod 16)]) bs)"

fun std_hex_decode :: "nat \<Rightarrow> string \<Rightarrow> bytes option" where
  "std_hex_decode 0 [] = Some []"
| "std_hex_decode (Suc n) (c # d # cs) =
     (case (hex_val c, hex_val d, std_hex_decode n cs) of
        (Some h, Some l, Some bs) \<Rightarrow> Some (of_nat (16 * h + l) # bs)
      | _ \<Rightarrow> None)"
| "std_hex_decode _ _ = None"

definition b64_char :: "nat \<Rightarrow> char" where
  "b64_char n = char_of (if n < 26 then n + 65 else if n < 52 then n + 71
     else if n < 62 then n - 4 else if n = 62 then 43 else 47)"

definition b64_val :: "char \<Rightarrow> nat option" where
  "b64_val c = (let n = of_char c :: nat in
     if 65 \<le> n \<and> n \<le> 90 then Some (n - 65) else if 97 \<le> n \<and> n \<le> 122 then Some (n - 71)
     else if 48 \<le> n \<and> n \<le> 57 then Some (n + 4) else if n = 43 then Some 62
     else if n = 47 then Some 63 else None)"

fun b64_encode :: "nat list \<Rightarrow> string" where
  "b64_encode [] = []"
| "b64_encode [a] = [b64_char (a div 4), b64_char (a mod 4 * 16), CHR ''='', CHR ''='']"
| "b64_encode [a, b] =
     [b64_char (a div 4), b64_char (a mod 4 * 16 + b div 16), b64_char (b mod 16 * 4), CHR ''='']"
| "b64_encode (a # b # c # rest) =
     [b64_char (a div 4), b64_char (a mod 4 * 16 + b div 16), b64_char (b mod 16 * 4 + c div 64),
      b64_char (c mod 64)] @ b64_encode rest"

fun b64_decode :: "string \<Rightarrow> nat list option" where
  "b64_decode [] = Some []"
| "b64_decode (c1 # c2 # c3 # c4 # rest) =
     (case (b64_val c1, b64_val c2, b64_val c3, b64_val c4) of
        (Some v1, Some v2, Some v3, Some v4) \<Rightarrow>
          map_option (\<lambda>bs. [v1 * 4 + v2 div 16, v2 mod 16 * 16 + v3 div 4, v3 mod 4 * 64 + v4] @ bs)
            (b64_decode rest)
      | (Some v1, Some v2, Some v3, None) \<Rightarrow>
          if c4 = CHR ''='' \<and> v3 mod 4 = 0 \<and> rest = [] then Some [v1 * 4 + v2 div 16, v2 mod 16 * 16 + v3 div 4]
          else None
      | (Some v1, Some v2, None, None) \<Rightarrow>
          if c3 = CHR ''='' \<and> c4 = CHR ''='' \<and> v2 mod 16 = 0 \<and> rest = [] then Some [v1 * 4 + v2 div 16]
          else None
      | _ \<Rightarrow> None)"
| "b64_decode _ = None"

definition std_addr :: addr_ops where
  "std_addr = \<lparr>
     hex_encode = std_hex_encode,
     hex_decode_to_slice = std_hex_decode,
     base64_encode = (\<lambda>bs. b64_encode (map unat bs)),
     base64_decode = (\<lambda>s. map_option (map of_nat) (b64_decode s)),
     base64_encode_url_safe = (\<lambda>bs.
       map (\<lambda>c. if c = CHR ''+'' then CHR ''-'' else if c = CHR ''/'' then CHR ''_'' else c)
         (b64_encode (map unat bs))),
     crc16_checksum = (\<lambda>bs. of_nat (sum_list (map unat bs)))\<rparr>"

lemma hex_val_char [simp]: "n < 16 \<Longrightarrow> hex_val (hex_char n) = Some n"
  by (simp add: hex_val_def hex_char_def)

lemma std_hex_decode_encode: "std_hex_decode (length bs) (std_hex_encode bs) = Some bs"
proof (induction bs)
  case (Cons b bs)
  have "unat b div 16 < 16" using unat_u8_less [of b] by simp
  with Cons show ?case by (simp add: std_hex_encode_def)
qed (simp add: std_hex_encode_def)

lemma std_hex_decode_length: "std_hex_decode n s = Some bs \<Longrightarrow> length bs = n \<and> length s = 2 * n"
  by (induction n s arbitrary: bs rule: std_hex_decode.induct) (auto split: option.splits)

lemma b64_val_char [simp]: "n < 64 \<Longrightarrow> b64_val (b64_char n) = Some n"
  by (auto simp: b64_val_def b64_char_def Let_def)

lemma b64_val_pad [simp]: "b64_val CHR ''='' = None"
  by (simp add: b64_val_def)

lemma b64_decode_encode: "\<forall>b\<in>set bs. b < 256 \<Longrightarrow> b64_decode (b64_encode bs) = Some bs"
proof (induction bs rule: b64_encode.induct)
  case (4 a b c rest)
  then have "a div 4 < 64" "a mod 4 * 16 + b div 16 < 64" "b mod 16 * 4 + c div 64 < 64" by auto
  with 4 show ?case by (auto simp: Let_def)
qed auto

lemma b64_char_alphabet: "n < 64 \<Longrightarrow> b64_char n \<notin> {CHR ''-'', CHR ''_'', CHR '':''}"
  using b64_val_char [of n] by (auto simp: b64_val_def)

lemma b64_encode_alphabet:
  "\<forall>b\<in>set bs. b < 256 \<Longrightarrow> set (b64_encode bs) \<inter> {CHR ''-'', CHR ''_'', CHR '':''} = {}"
proof (induction bs rule: b64_encode.induct)
  case (4 a b c rest)
  then have "a div 4 < 64" "a mod 4 * 16 + b div 16 < 64" "b mod 16 * 4 + c div 64 < 64" "c mod 64 < 64"
    by auto
  from this [THEN b64_char_alphabet] 4 show ?case by auto
next
  case (3 a b)
  then have "a div 4 < 64" "a mod 4 * 16 + b div 16 < 64" "b mod 16 * 4 < 64" by auto
  from this [THEN b64_char_alphabet] show ?case by auto
next
  case (2 a)
  then have "a div 4 < 64" "a mod 4 * 16 < 64" by auto
  from this [THEN b64_char_alphabet] show ?case by auto
qed simp

lemma b64_encode_length: "length (b64_encode bs) = 4 * ((length bs + 2) div 3)"
proof (induction bs rule: b64_encode.induct)
  case (4 a b c rest)
  have "length (b64_encode (a # b # c # rest)) = 4 + length (b64_encode rest)" by simp
  moreover have "length (a # b # c # rest) + 2 = length rest + 2 + 3" by simp
  moreover have "(length rest + 2 + 3) div 3 = Suc ((length rest + 2) div 3)" by (subst div_add_self2) simp_all
  ultimately show ?case using 4 by (simp only: mult_Suc_right)
qed simp_all

lemma bytes_range: "\<forall>b\<in>set (map unat (bs :: bytes)). b < 256"
  using unat_u8_less by auto

interpretation std_addr: addr_crates std_addr
proof
  fix bs :: bytes and n s
  show "length bs = n \<Longrightarrow> hex_decode_to_slice std_addr n (hex_encode std_addr bs) = Some bs"
    using std_hex_decode_encode by (auto simp: std_addr_def)
  show "hex_decode_to_slice std_addr n s = Some bs \<Longrightarrow> length bs = n \<and> length s = 2 * n"
    by (simp add: std_addr_def std_hex_decode_length)
  show "base64_decode std_addr (base64_encode std_addr bs) = Some bs"
    by (simp add: std_addr_def b64_decode_encode [OF bytes_range] comp_def)
  show "length (base64_encode std_addr bs) = 4 * ((length bs + 2) div 3)"
    by (simp add: std_addr_def b64_encode_length)
  show "set (base64_encode std_addr bs) \<inter> {CHR ''-'', CHR ''_'', CHR '':''} = {}"
    using b64_encode_alphabet [OF bytes_range [of bs]] by (simp add: std_addr_def)
qed (simp add: std_addr_def)

section \<open>Properties\<close>

text \<open>
  C26. Printing and parsing an address are inverse. The flagged form of a 32-byte address in
  workchain -1 or 0 to 254 reads back as the address with its flags, or the bounceable flag when it
  had none; the raw form of an address in any workchain reads back as the address without flags.
\<close>

theorem address_roundtrip:
  assumes "addr_crates A" and "length (addr_bytes a) = 32"
  shows "(chain_id a = - 1 \<or> 0 \<le> chain_id a \<and> chain_id a < 255 \<longrightarrow>
      addr_from_str A (to_flagged_string A a) =
        Ok (a\<lparr>flags := Some (case flags a of Some fl \<Rightarrow> fl | None \<Rightarrow> BOUNCABLE)\<rparr>)) \<and>
    (in_i32 (chain_id a) \<longrightarrow> addr_from_str A (to_raw_string A a) = Ok (a\<lparr>flags := None\<rparr>))"
  using addr_crates.flagged_roundtrip [OF assms] addr_crates.raw_roundtrip [OF assms] by blast

theorem address_roundtrip_witness:
  "addr_from_str std_addr (to_flagged_string std_addr
     \<lparr>chain_id = - 1, addr_bytes = replicate 32 7, flags = Some NON_BOUNCABLE\<rparr>) =
     Ok \<lparr>chain_id = - 1, addr_bytes = replicate 32 7, flags = Some NON_BOUNCABLE\<rparr> \<and>
   addr_from_str std_addr (to_raw_string std_addr
     \<lparr>chain_id = - 1, addr_bytes = replicate 32 7, flags = Some NON_BOUNCABLE\<rparr>) =
     Ok \<lparr>chain_id = - 1, addr_bytes = replicate 32 7, flags = None\<rparr>"
  using address_roundtrip [OF std_addr.addr_crates_axioms,
      of "\<lparr>chain_id = - 1, addr_bytes = replicate 32 7, flags = Some NON_BOUNCABLE\<rparr>"]
  by (simp add: in_i32_minus_1)

text \<open>
  The parser accepts only addresses of 32 bytes with a workchain that fits 32 bits; the two
  checksum bytes of the flagged form are read and never compared with the checksum, so every
  checksum is accepted.
\<close>

lemma address_checksum_ignored:
  assumes "addr_crates A" and "length bs = 32" and "length crc = 2"
  shows "(\<forall>s a. addr_from_str A s = Ok a \<longrightarrow> length (addr_bytes a) = 32 \<and> in_i32 (chain_id a)) \<and>
    addr_from_str A (base64_encode_url_safe A (fl # w # bs @ crc)) =
      Ok \<lparr>chain_id = (if w = 255 then - 1 else int (unat w)), addr_bytes = bs, flags = Some fl\<rparr>"
  using addr_crates.addr_from_str_wf [OF assms(1)]
    addr_crates.addr_from_str_url_safe [OF assms(1), of "bs @ crc"] assms(2,3)
  by auto

lemma address_checksum_ignored_witness:
  "addr_from_str std_addr (base64_encode_url_safe std_addr (BOUNCABLE # 0 # replicate 32 7 @ [1, 2])) =
   addr_from_str std_addr (base64_encode_url_safe std_addr (BOUNCABLE # 0 # replicate 32 7 @ [3, 4]))"
  using address_checksum_ignored [OF std_addr.addr_crates_axioms, of "replicate 32 7" "[1, 2]" BOUNCABLE 0]
    address_checksum_ignored [OF std_addr.addr_crates_axioms, of "replicate 32 7" "[3, 4]" BOUNCABLE 0]
  by simp

end
