(* ===== verification/Router.thy ===== *)
theory Router
  imports Prelude "HOL-Library.AList" "HOL-Library.Multiset"
begin

text \<open>
  Routing of requests to lite servers: \<^verbatim>\<open>ton-client-util/src/router/route.rs\<close> (the routes and the
  choice of services for a route) and \<^verbatim>\<open>router/mod.rs\<close> (the router's set of services, fed by
  service discovery, its readiness and its fallback). The trait \<open>Routed\<close> is a record of its
  methods; sorting and grouping come from the crate \<^verbatim>\<open>itertools\<close> and are parameters with the locale
  \<open>itertools_crate\<close> as their documented behaviour. A \<open>HashMap\<close> is an association list, in whatever
  order its iterator has. Metrics are not modelled.
\<close>

section \<open>Routes\<close>

datatype BlockCriteria =
    Seqno (criteria_shard: i64) (criteria_seqno: i32)
  | LogicalTime (criteria_address: bytes) (criteria_lt: i64)

datatype Route = Block i32 BlockCriteria | Latest

datatype route_error = RouteNotAvailable | RouteUnknown

text \<open>The trait \<open>Routed\<close>.\<close>

record 's routed =
  contains :: "'s \<Rightarrow> i32 \<Rightarrow> BlockCriteria \<Rightarrow> bool"
  contains_not_available :: "'s \<Rightarrow> i32 \<Rightarrow> BlockCriteria \<Rightarrow> bool"
  last_seqno :: "'s \<Rightarrow> i32 option"

record 's itertools_ops =
  sorted_unstable_by_key :: "('s \<times> i32 \<Rightarrow> i32) \<Rightarrow> ('s \<times> i32) list \<Rightarrow> ('s \<times> i32) list"
  chunk_by :: "('s \<times> i32 \<Rightarrow> i32) \<Rightarrow> ('s \<times> i32) list \<Rightarrow> (i32 \<times> ('s \<times> i32) list) list"

text \<open>
  \<open>Route::choose\<close>. The closure of \<open>filter\<close> also sets the flag \<open>known\<close>: the fold carries the flag
  and the services kept so far.
\<close>

definition choose_step ::
    "'s routed \<Rightarrow> i32 \<Rightarrow> BlockCriteria \<Rightarrow> bool \<times> 's list \<Rightarrow> 's \<Rightarrow> bool \<times> 's list" where
  "choose_step R chain criteria acc s =
     (if contains R s chain criteria then (fst acc, snd acc @ [s])
      else if contains_not_available R s chain criteria then (True, snd acc)
      else acc)"

definition route_choose ::
    "'s itertools_ops \<Rightarrow> 's routed \<Rightarrow> Route \<Rightarrow> 's list \<Rightarrow> (route_error, 's list) res" where
  "route_choose I R route from =
     (case route of
        Block chain criteria \<Rightarrow>
          (let (known, clients) = foldl (choose_step R chain criteria) (False, []) from
          in if clients = [] then
               if known then Err RouteNotAvailable else Err RouteUnknown
             else Ok clients)
      | Latest \<Rightarrow>
          (let groups = chunk_by I (\<lambda>(_, seqno). seqno)
                (sorted_unstable_by_key I (\<lambda>(_, seqno). wrap_i32 (- seqno))
                  (List.map_filter (\<lambda>s. map_option (\<lambda>seqno. (s, seqno)) (last_seqno R s)) from))
          in case groups of
               (_, grp) # _ \<Rightarrow> Ok (map fst grp)
             | [] \<Rightarrow> Err RouteUnknown))"

section \<open>Router\<close>

datatype ('k, 's) change = Insert 'k 's | Remove 'k

text \<open>What a poll of the discovery stream returns.\<close>

type_synonym ('k, 's, 'e) discover_poll = "('e, ('k, 's) change) res option poll"

record ('k, 's) Router =
  services :: "('k \<times> 's) list"

definition router_new :: "('k, 's) Router" where
  "router_new = \<lparr>services = []\<rparr>"

definition router_values :: "('k, 's) Router \<Rightarrow> 's list" where
  "router_values r = map snd (services r)"

text \<open>
  \<open>update_pending_from_discover\<close> on the answers the discovery stream gives from now on; once they
  are used up the stream is pending.
\<close>

fun update_pending_from_discover ::
    "('k, 's) Router \<Rightarrow> ('k, 's, 'e) discover_poll list \<Rightarrow> unit option poll \<times> ('k, 's) Router" where
  "update_pending_from_discover r [] = (Pending, r)"
| "update_pending_from_discover r (p # ps) =
     (case p of
        Pending \<Rightarrow> (Pending, r)
      | Ready None \<Rightarrow> (Ready None, r)
      | Ready (Some (Ok (Remove key))) \<Rightarrow>
          update_pending_from_discover (r\<lparr>services := AList.delete key (services r)\<rparr>) ps
      | Ready (Some (Ok (Insert key svc))) \<Rightarrow>
          update_pending_from_discover (r\<lparr>services := AList.update key svc (services r)\<rparr>) ps
      | Ready (Some (Err e)) \<Rightarrow> update_pending_from_discover r ps)"

text \<open>
  The loop over the services of \<open>poll_ready\<close>: polling a service may change it; the loop stops at the
  first one that is ready.
\<close>

fun poll_services ::
    "('s \<Rightarrow> ('e, unit) res poll \<times> 's) \<Rightarrow> ('k \<times> 's) list \<Rightarrow> bool \<times> ('k \<times> 's) list" where
  "poll_services svc_poll [] = (False, [])"
| "poll_services svc_poll ((k, s) # rest) =
     (case svc_poll s of
        (Ready (Ok _), s') \<Rightarrow> (True, (k, s') # rest)
      | (_, s') \<Rightarrow> let (b, rest') = poll_services svc_poll rest in (b, (k, s') # rest'))"

definition router_poll_ready ::
    "('s \<Rightarrow> ('e, unit) res poll \<times> 's) \<Rightarrow> ('k, 's) Router \<Rightarrow> ('k, 's, 'd) discover_poll list \<Rightarrow>
     (route_error, unit) res poll \<times> ('k, 's) Router" where
  "router_poll_ready svc_poll r polls =
     (let r = snd (update_pending_from_discover r polls);
          (b, svcs) = poll_services svc_poll (services r);
          r = r\<lparr>services := svcs\<rparr>
      in if b then (Ready (Ok ()), r) else (Pending, r))"

text \<open>
  \<open>Router::call\<close>: the services among which the load balancer of \<^verbatim>\<open>tower\<close> picks one for the
  request. An unknown route falls back to the services with the latest block.
\<close>

definition router_call ::
    "'s itertools_ops \<Rightarrow> 's routed \<Rightarrow> ('k, 's) Router \<Rightarrow> Route \<Rightarrow> (route_error, 's list) res" where
  "router_call I R r route =
     (case route_choose I R route (router_values r) of
        Ok svcs \<Rightarrow> Ok svcs
      | Err RouteUnknown \<Rightarrow> route_choose I R Latest (router_values r)
      | Err RouteNotAvailable \<Rightarrow> Err RouteNotAvailable)"

text \<open>
  \<open>Balance\<close>, the service in front of the router: it is ready when the router is, and a request goes
  to the service that \<open>pick\<close>, the load balancer of \<^verbatim>\<open>tower\<close>, takes among those the router offers.
\<close>

definition balance_new :: "('k, 's) Router" where
  "balance_new = router_new"

definition balance_poll_ready ::
    "('s \<Rightarrow> ('e, unit) res poll \<times> 's) \<Rightarrow> ('k, 's) Router \<Rightarrow> ('k, 's, 'd) discover_poll list \<Rightarrow>
     (route_error, unit) res poll \<times> ('k, 's) Router" where
  "balance_poll_ready svc_poll r polls = router_poll_ready svc_poll r polls"

definition balance_call ::
    "'s itertools_ops \<Rightarrow> 's routed \<Rightarrow> (route_error \<Rightarrow> 'e) \<Rightarrow> ('s list \<Rightarrow> 's) \<Rightarrow> ('req \<Rightarrow> Route) \<Rightarrow>
     ('s \<Rightarrow> 'req \<Rightarrow> ('e, 'a) res) \<Rightarrow> ('k, 's) Router \<Rightarrow> 'req \<Rightarrow> ('e, 'a) res" where
  "balance_call I R into pick to_route svc_oneshot r req =
     (case router_call I R r (to_route req) of
        Err e \<Rightarrow> Err (into e)
      | Ok svcs \<Rightarrow> svc_oneshot (pick svcs) req)"

section \<open>Contracts\<close>

locale itertools_crate =
  fixes I :: "'s itertools_ops"
  assumes sort_mset: "mset (sorted_unstable_by_key I key xs) = mset xs"
    and sort_sorted: "sorted (map key (sorted_unstable_by_key I key xs))"
    and chunk_Nil: "chunk_by I key [] = []"
    and chunk_Cons: "chunk_by I key (x # xs) =
      (key x, x # takeWhile (\<lambda>y. key y = key x) xs) # chunk_by I key (dropWhile (\<lambda>y. key y = key x) xs)"
begin

lemma set_sort: "set (sorted_unstable_by_key I key xs) = set xs"
  using arg_cong [OF sort_mset, of set_mset] by simp

end

section \<open>Choice by block\<close>

lemma choose_fold:
  "foldl (choose_step R chain criteria) (known, acc) svcs =
     (known \<or> (\<exists>s\<in>set svcs. \<not> contains R s chain criteria \<and> contains_not_available R s chain criteria),
      acc @ filter (\<lambda>s. contains R s chain criteria) svcs)"
  by (induction svcs arbitrary: known acc) (auto simp: choose_step_def)

lemma choose_Block:
  "route_choose I R (Block chain criteria) svcs =
     (let clients = filter (\<lambda>s. contains R s chain criteria) svcs
      in if clients \<noteq> [] then Ok clients
         else if \<exists>s\<in>set svcs. contains_not_available R s chain criteria then Err RouteNotAvailable
         else Err RouteUnknown)"
  by (auto simp: route_choose_def choose_fold Let_def filter_empty_conv)

section \<open>Choice of the latest\<close>

definition seqnos :: "'s routed \<Rightarrow> 's list \<Rightarrow> ('s \<times> i32) list" where
  "seqnos R svcs = List.map_filter (\<lambda>s. map_option (\<lambda>seqno. (s, seqno)) (last_seqno R s)) svcs"

lemma set_seqnos: "set (seqnos R svcs) = {(s, q). s \<in> set svcs \<and> last_seqno R s = Some q}"
  by (induction svcs) (auto simp: seqnos_def map_filter_simps split: option.splits)

lemma filter_seqnos:
  "map fst (filter (\<lambda>p. snd p = q) (seqnos R svcs)) = filter (\<lambda>s. last_seqno R s = Some q) svcs"
  by (induction svcs) (auto simp: seqnos_def map_filter_simps split: option.splits)

lemma takeWhile_sorted_desc:
  "sorted (map (\<lambda>p. - snd p) ((s, q) # ys)) \<Longrightarrow>
   takeWhile (\<lambda>p. snd p = q) ys = filter (\<lambda>p. snd p = q) ys" for q :: int
proof (induction ys)
  case (Cons y ys)
  then have "filter (\<lambda>p. snd p = q) ys = []" if "snd y \<noteq> q"
    using that by (force simp: filter_empty_conv)
  with Cons show ?case by auto
qed simp

definition sane_seqnos :: "'s routed \<Rightarrow> 's list \<Rightarrow> bool" where
  \<comment> \<open>the least 32-bit integer has no negation\<close>
  "sane_seqnos R svcs \<longleftrightarrow>
     (\<forall>s\<in>set svcs. \<forall>q. last_seqno R s = Some q \<longrightarrow> in_i32 q \<and> q \<noteq> - (2 ^ 31))"

definition is_latest :: "'s routed \<Rightarrow> 's list \<Rightarrow> 's \<Rightarrow> bool" where
  "is_latest R svcs s \<longleftrightarrow>
     (\<exists>q. last_seqno R s = Some q \<and> (\<forall>t\<in>set svcs. \<forall>q'. last_seqno R t = Some q' \<longrightarrow> q' \<le> q))"

context itertools_crate
begin

lemma choose_Latest:
  assumes "sane_seqnos R svcs"
  shows "(\<forall>s\<in>set svcs. last_seqno R s = None) \<and> route_choose I R Latest svcs = Err RouteUnknown \<or>
    (\<exists>cs. route_choose I R Latest svcs = Ok cs \<and> cs \<noteq> [] \<and> mset cs = mset (filter (is_latest R svcs) svcs))"
proof -
  define ys where "ys = sorted_unstable_by_key I (\<lambda>(_, seqno). wrap_i32 (- seqno)) (seqnos R svcs)"
  have ch: "route_choose I R Latest svcs =
      (case chunk_by I (\<lambda>(_, seqno). seqno) ys of (_, grp) # _ \<Rightarrow> Ok (map fst grp) | [] \<Rightarrow> Err RouteUnknown)"
    by (simp add: route_choose_def ys_def seqnos_def Let_def)
  have ys: "mset ys = mset (seqnos R svcs)" and set_ys: "set ys = set (seqnos R svcs)"
    by (simp_all add: ys_def sort_mset set_sort)
  show ?thesis
  proof (cases ys)
    case Nil
    with set_ys have "\<forall>s\<in>set svcs. last_seqno R s = None" by (auto simp: set_seqnos)
    with Nil ch show ?thesis by (simp add: chunk_Nil)
  next
    case (Cons y ys')
    obtain s0 q0 where y: "y = (s0, q0)" by (cases y)
    have "map (\<lambda>(_, seqno). wrap_i32 (- seqno)) ys = map (\<lambda>p. - snd p) ys"
      using assms set_ys by (auto simp: sane_seqnos_def set_seqnos in_i32_def intro!: wrap_i32_id)
    then have "sorted (map (\<lambda>p. - snd p) ys)" by (metis ys_def sort_sorted)
    then have srt: "sorted (map (\<lambda>p. - snd p) ((s0, q0) # ys'))" unfolding Cons y .
    have q0: "\<exists>s\<in>set svcs. last_seqno R s = Some q0" "\<forall>s\<in>set svcs. \<forall>q. last_seqno R s = Some q \<longrightarrow> q \<le> q0"
      using set_ys srt Cons y by (auto simp: set_seqnos) force+
    then have lat: "is_latest R svcs s \<longleftrightarrow> last_seqno R s = Some q0" if "s \<in> set svcs" for s
      using that by (auto simp: is_latest_def) (metis antisym)
    have "route_choose I R Latest svcs = Ok (map fst (filter (\<lambda>p. snd p = q0) ys))"
      using ch Cons y takeWhile_sorted_desc [OF srt] by (simp add: chunk_Cons split_beta)
    moreover have "mset (map fst (filter (\<lambda>p. snd p = q0) ys)) =
        mset (map fst (filter (\<lambda>p. snd p = q0) (seqnos R svcs)))"
      by (simp add: ys)
    ultimately show ?thesis
      using Cons y lat by (auto simp: filter_seqnos cong: filter_cong)
  qed
qed

end

text \<open>The documented behaviour, as functions.\<close>

function std_chunk :: "('a \<Rightarrow> i32) \<Rightarrow> 'a list \<Rightarrow> (i32 \<times> 'a list) list" where
  "std_chunk key [] = []"
| "std_chunk key (x # xs) =
     (key x, x # takeWhile (\<lambda>y. key y = key x) xs) # std_chunk key (dropWhile (\<lambda>y. key y = key x) xs)"
  by pat_completeness auto
termination
  by (relation "measure (\<lambda>(_, xs). length xs)") (auto simp: le_imp_less_Suc length_dropWhile_le)

definition std_itertools :: "'s itertools_ops" where
  "std_itertools = \<lparr>sorted_unstable_by_key = sort_key, chunk_by = std_chunk\<rparr>"

interpretation std_iter: itertools_crate std_itertools
  by unfold_locales (simp_all add: std_itertools_def)

section \<open>Services and discovery\<close>

definition apply_change :: "('k \<rightharpoonup> 's) \<Rightarrow> ('e, ('k, 's) change) res \<Rightarrow> ('k \<rightharpoonup> 's)" where
  "apply_change m c =
     (case c of
        Ok (Insert k v) \<Rightarrow> m(k \<mapsto> v)
      | Ok (Remove k) \<Rightarrow> m(k := None)
      | Err _ \<Rightarrow> m)"

lemma update_pending_items:
  "update_pending_from_discover r (map (\<lambda>c. Ready (Some c)) items @ Pending # rest) =
     (Pending, snd (update_pending_from_discover r (map (\<lambda>c. Ready (Some c)) items)))"
  by (induction items arbitrary: r) (auto split: res.splits change.splits)

lemma update_pending_services:
  fixes r :: "('k, 's) Router"
  assumes "distinct (map fst (services r))"
  shows "distinct (map fst (services (snd (update_pending_from_discover r polls))))"
    and "map_of (services (snd (update_pending_from_discover r (map (\<lambda>c. Ready (Some c)) items)))) =
      foldl apply_change (map_of (services r)) items"
proof -
  show "distinct (map fst (services (snd (update_pending_from_discover r polls))))"
    using assms
    by (induction polls arbitrary: r)
      (simp_all add: distinct_update distinct_delete
        split: poll.split option.split res.split change.split)
  show "map_of (services (snd (update_pending_from_discover r (map (\<lambda>c. Ready (Some c)) items)))) =
      foldl apply_change (map_of (services r)) items"
    by (induction items arbitrary: r)
      (auto simp: apply_change_def update_conv' delete_conv' split: res.splits change.splits)
qed

lemma poll_services_spec:
  "fst (poll_services svc_poll xs) \<longleftrightarrow> (\<exists>s\<in>snd ` set xs. fst (svc_poll s) = Ready (Ok ()))"
  "map fst (snd (poll_services svc_poll xs)) = map fst xs"
proof (induction xs)
  case (Cons p xs)
  obtain k s where "p = (k, s)" by (cases p)
  moreover obtain a s' where "svc_poll s = (a, s')" by (cases "svc_poll s")
  ultimately show
    "fst (poll_services svc_poll (p # xs)) \<longleftrightarrow> (\<exists>s\<in>snd ` set (p # xs). fst (svc_poll s) = Ready (Ok ()))"
    "map fst (snd (poll_services svc_poll (p # xs))) = map fst (p # xs)"
    using Cons.IH by (simp_all add: split_beta split: poll.split res.split)
qed simp_all

section \<open>Properties\<close>

text \<open>
  The route to the latest block is offered by all the services that report the greatest
  masterchain sequence number, each as often as it occurs, and by no others; it is unknown only
  when no service reports one.
\<close>

lemma choose_latest_maximal:
  assumes "itertools_crate I" and "sane_seqnos R svcs"
  shows "(if \<forall>s\<in>set svcs. last_seqno R s = None
      then route_choose I R Latest svcs = Err RouteUnknown
      else \<exists>cs. route_choose I R Latest svcs = Ok cs \<and> cs \<noteq> [] \<and>
             mset cs = mset (filter (is_latest R svcs) svcs))"
proof -
  have "\<not> (\<forall>s\<in>set svcs. last_seqno R s = None)"
    if cs: "mset cs = mset (filter (is_latest R svcs) svcs)" "cs \<noteq> []" for cs
  proof -
    obtain s where "s \<in> set cs" using cs(2) by (cases cs) auto
    with mset_eq_setD [OF cs(1)] show ?thesis by (auto simp: is_latest_def)
  qed
  with itertools_crate.choose_Latest [OF assms] show ?thesis by auto
qed

text \<open>
  C17. What the router does with a request for a block. It offers exactly the services that hold
  the block, in their order; when there is none but some service knows that the block will come, it
  reports that the route is not available yet; when no service knows the block, it offers all the
  services that report the greatest masterchain sequence number, each as often as it occurs, and no
  others, and reports an unknown route only when no service reports a number at all. This is for
  sorting and grouping as \<^verbatim>\<open>itertools\<close> documents them, and for sequence numbers that are 32-bit integers
  other than the least one, whose negation the sort key would overflow on.
\<close>

theorem router_call_block:
  assumes "itertools_crate I" and "sane_seqnos R (router_values r)"
  shows "if \<exists>s\<in>set (router_values r). contains R s chain criteria
    then router_call I R r (Block chain criteria) =
      Ok (filter (\<lambda>s. contains R s chain criteria) (router_values r))
    else if \<exists>s\<in>set (router_values r). contains_not_available R s chain criteria
    then router_call I R r (Block chain criteria) = Err RouteNotAvailable
    else if \<forall>s\<in>set (router_values r). last_seqno R s = None
    then router_call I R r (Block chain criteria) = Err RouteUnknown
    else \<exists>cs. router_call I R r (Block chain criteria) = Ok cs \<and> cs \<noteq> [] \<and>
      mset cs = mset (filter (is_latest R (router_values r)) (router_values r))"
proof -
  have "router_call I R r (Block chain criteria) =
    (if \<exists>s\<in>set (router_values r). contains R s chain criteria
     then Ok (filter (\<lambda>s. contains R s chain criteria) (router_values r))
     else if \<exists>s\<in>set (router_values r). contains_not_available R s chain criteria
     then Err RouteNotAvailable else route_choose I R Latest (router_values r))"
    by (auto simp: router_call_def choose_Block Let_def filter_empty_conv)
  with choose_latest_maximal [OF assms] show ?thesis by presburger
qed

theorem router_call_block_witness:
  "\<exists>cs. router_call std_itertools
       \<lparr>contains = \<lambda>_ _ _. False, contains_not_available = \<lambda>_ _ _. False, last_seqno = Some\<rparr>
       \<lparr>services = [(1 :: nat, 70), (2, 100), (3, 50), (4, 100 :: int)]\<rparr> (Block 0 (Seqno 1 5)) = Ok cs \<and>
     mset cs = {#100, 100#}"
proof -
  let ?R = "\<lparr>contains = \<lambda>_ _ _. False, contains_not_available = \<lambda>_ _ _. False, last_seqno = Some\<rparr>"
  let ?r = "\<lparr>services = [(1 :: nat, 70), (2, 100), (3, 50), (4, 100 :: int)]\<rparr>"
  have vals: "router_values ?r = [70, 100, 50, 100]" by (simp add: router_values_def)
  have "sane_seqnos ?R (router_values ?r)" unfolding vals by (simp add: sane_seqnos_def in_i32_def)
  note call = router_call_block [OF std_iter.itertools_crate_axioms this, of 0 "Seqno 1 5"]
  have lat: "filter (is_latest ?R (router_values ?r)) (router_values ?r) = [100, 100]"
    unfolding vals by (simp add: is_latest_def)
  have ne: "\<not> (\<exists>s\<in>set (router_values ?r). contains ?R s 0 (Seqno 1 5))"
    "\<not> (\<exists>s\<in>set (router_values ?r). contains_not_available ?R s 0 (Seqno 1 5))"
    "\<not> (\<forall>s\<in>set (router_values ?r). last_seqno ?R s = None)"
    unfolding vals by auto
  show ?thesis
    using call [unfolded if_not_P [OF ne(1)] if_not_P [OF ne(2)] if_not_P [OF ne(3)] lat] by auto
qed

text \<open>
  C18. The router follows service discovery: after polling a discovery stream that has the items
  \<open>items\<close> ready and is then pending, its services are those of before with the insertions and
  removals applied in order and the errors skipped, and no key occurs twice.
\<close>

theorem router_follows_discovery:
  assumes "distinct (map fst (services r))"
    and "update_pending_from_discover r (map (\<lambda>c. Ready (Some c)) items @ Pending # rest) = (p, r')"
  shows "p = Pending \<and> map_of (services r') = foldl apply_change (map_of (services r)) items \<and>
    distinct (map fst (services r'))"
  using assms(2) update_pending_services [OF assms(1)] unfolding update_pending_items by auto

theorem router_follows_discovery_witness:
  "map_of (services (snd (update_pending_from_discover (router_new :: (nat, string) Router)
     (map (\<lambda>c. Ready (Some c)) [Ok (Insert 1 ''a''), Err ''dns'', Ok (Insert 2 ''b''), Ok (Remove 1)]
       @ [Pending])))) = [2 \<mapsto> ''b'']"
  using router_follows_discovery [of "router_new :: (nat, string) Router"
      "[Ok (Insert 1 ''a''), Err ''dns'', Ok (Insert 2 ''b''), Ok (Remove 1)]" "[]", OF _ prod.collapse [symmetric]]
  by (auto simp: router_new_def apply_change_def)

text \<open>
  The router is ready exactly when, after the discovered changes, one of its services is; a
  service that fails does not make it fail, and polling never adds or drops a service.
\<close>

lemma router_ready_iff_some_service_ready:
  "router_poll_ready svc_poll r polls = (p, r') \<Longrightarrow>
   p = (if \<exists>s\<in>set (router_values (snd (update_pending_from_discover r polls))). fst (svc_poll s) = Ready (Ok ())
        then Ready (Ok ()) else Pending) \<and>
   map fst (services r') = map fst (services (snd (update_pending_from_discover r polls)))"
  using poll_services_spec [of svc_poll "services (snd (update_pending_from_discover r polls))"]
  by (auto simp: router_poll_ready_def router_values_def Let_def split: prod.splits if_splits)

lemma router_ready_iff_some_service_ready_witness:
  "fst (router_poll_ready (\<lambda>s. (if s then Ready (Ok ()) else Ready (Err ''down''), s))
     \<lparr>services = [(1 :: nat, False), (2, True)]\<rparr> ([] :: (nat, bool, string) discover_poll list))
   = Ready (Ok ())"
  using router_ready_iff_some_service_ready
    [of "\<lambda>s. (if s then Ready (Ok ()) else Ready (Err ''down''), s)" "\<lparr>services = [(1 :: nat, False), (2, True)]\<rparr>"
      "[] :: (nat, bool, string) discover_poll list", OF prod.collapse [symmetric]]
  by (simp add: router_values_def)

text \<open>
  A request for a block that some service holds is answered by a service that holds it.
\<close>

lemma balance_asks_holder:
  assumes "\<exists>s\<in>set (router_values r). contains R s chain criteria"
    and "\<And>svcs. svcs \<noteq> [] \<Longrightarrow> pick svcs \<in> set svcs"
    and "to_route req = Block chain criteria"
  shows "\<exists>s\<in>set (router_values r). contains R s chain criteria \<and>
    balance_call I R into pick to_route svc_oneshot r req = svc_oneshot s req"
proof -
  let ?svcs = "filter (\<lambda>s. contains R s chain criteria) (router_values r)"
  have "?svcs \<noteq> []" using assms(1) by (auto simp: filter_empty_conv)
  then have "pick ?svcs \<in> set ?svcs" by (rule assms(2))
  moreover have "router_call I R r (Block chain criteria) = Ok ?svcs"
    using \<open>?svcs \<noteq> []\<close> by (auto simp: router_call_def choose_Block Let_def filter_empty_conv)
  ultimately show ?thesis using assms(3) by (auto simp: balance_call_def)
qed

end
