(* ===== verification/Shard_Prefix.thy ===== *)
theory Shard_Prefix
  imports Prelude
begin

unbundle bit_operations_syntax

text \<open>
  \<^verbatim>\<open>ton-client-util/src/router/shard_prefix.rs\<close>: the bit prefix a shard identifier stands for, and
  the test whether an account address lies in the shard. Bit vectors and bit views of byte arrays
  come from the crate \<^verbatim>\<open>bitvec\<close>: two operations as parameters, their documented behaviour as the
  locale \<open>bitvec_crate\<close>. A bit vector is its list of bits.
\<close>

section \<open>Model\<close>

record bitvec_ops =
  as_bits :: "bytes \<Rightarrow> bool list"
  starts_with :: "bool list \<Rightarrow> bool list \<Rightarrow> bool"

type_synonym ShardPrefix = "bool list"

text \<open>\<open>u64::trailing_zeros\<close>, which is 64 for 0.\<close>

definition trailing_zeros :: "u64 \<Rightarrow> nat" where
  "trailing_zeros w = length (takeWhile Not (map (bit w) [0..<64]))"

text \<open>
  The end of the slice is computed in 32-bit unsigned arithmetic, which wraps for the identifier
  0; a slice past the end panics.
\<close>

definition from_shard_id :: "bitvec_ops \<Rightarrow> u64 \<Rightarrow> ShardPrefix may_panic" where
  "from_shard_id V shard_id =
     (let idx = trailing_zeros shard_id;
          bits = as_bits V (be_bytes 8 (unat shard_id));
          last = nat ((64 - int idx - 1) mod 2 ^ 32)
      in if length bits < last then None else Some (take last bits))"

definition matches :: "bitvec_ops \<Rightarrow> ShardPrefix \<Rightarrow> bytes \<Rightarrow> bool" where
  "matches V prefix address = starts_with V (as_bits V address) prefix"

section \<open>The \<^verbatim>\<open>bitvec\<close> contract\<close>

definition msb0 :: "u8 \<Rightarrow> bool list" where
  "msb0 b = map (bit b) (rev [0..<8])"

locale bitvec_crate =
  fixes V :: bitvec_ops
  assumes as_bits: "as_bits V bs = concat (map msb0 bs)"
    and starts_with: "starts_with V xs ys \<longleftrightarrow> take (length ys) xs = ys"

definition std_bitvec :: bitvec_ops where
  "std_bitvec = \<lparr>as_bits = (\<lambda>bs. concat (map msb0 bs)),
     starts_with = (\<lambda>xs ys. take (length ys) xs = ys)\<rparr>"

interpretation std_bits: bitvec_crate std_bitvec
  by unfold_locales (simp_all add: std_bitvec_def)

section \<open>Bits of big-endian integers\<close>

lemma msb0_of_nat: "msb0 (of_nat (k mod 256)) = map (bit k) (rev [0..<8])"
proof -
  have "bit (of_nat (k mod 256) :: u8) i = bit k i" if "i < 8" for i
  proof -
    have "k mod 256 = take_bit 8 k" by (simp add: take_bit_eq_mod)
    with that show ?thesis by (simp add: bit_simps)
  qed
  then show ?thesis by (simp add: msb0_def)
qed

lemma map_bit_shift: "map (bit (k div 256)) (rev [0..<m]) = map (bit (k :: nat)) (rev [8..<m + 8])"
proof -
  have "bit (k div 256) i = bit k (i + 8)" for i
    by (simp add: bit_iff_odd div_mult2_eq [symmetric] power_add mult.commute)
  moreover have "[8..<m + 8] = map (\<lambda>i. i + 8) [0..<m]" by (simp add: map_add_upt)
  ultimately show ?thesis by (simp add: rev_map [symmetric])
qed

lemma bits_be_bytes: "concat (map msb0 (be_bytes n k)) = map (bit k) (rev [0..<8 * n])"
proof (induction n k rule: le_bytes.induct)
  case (2 n k)
  have "[0..<8 * Suc n] = [0..<8] @ [8..<8 * n + 8]" using upt_add_eq_append [of 0 8 "8 * n"] by (simp add: add.commute)
  then have "map (bit k) (rev [0..<8 * Suc n]) = map (bit k) (rev [8..<8 * n + 8]) @ map (bit k) (rev [0..<8])"
    by simp
  with 2 show ?case by (simp add: be_bytes_def msb0_of_nat map_bit_shift)
qed (simp add: be_bytes_def)

lemma bits_u64: "concat (map msb0 (be_bytes 8 (unat w))) = map (bit (w :: u64)) (rev [0..<64])"
  by (simp add: bits_be_bytes bit_unsigned_iff cong: map_cong)

text \<open>The first eight bytes of an address, as an unsigned integer.\<close>

definition address_head :: "bytes \<Rightarrow> u64" where
  "address_head address = of_nat (be_val (take 8 address))"

lemma be_bytes_address_head: "8 \<le> length address \<Longrightarrow> be_bytes 8 (unat (address_head address)) = take 8 address"
proof -
  assume "8 \<le> length address"
  then have l: "length (rev (take 8 address)) = 8" by simp
  have "le_val (rev (take 8 address)) < 2 ^ 64"
    using le_val_bound [of "rev (take 8 address)"] l by simp
  then have "unat (address_head address) = le_val (rev (take 8 address))"
    by (simp add: address_head_def be_val_def unat_of_nat)
  with le_bytes_le_val [of "rev (take 8 address)"] l show ?thesis by (simp add: be_bytes_def)
qed

section \<open>The prefix of a shard\<close>

lemma trailing_zeros_eqI:
  assumes "bit w n" and "\<And>i. i < n \<Longrightarrow> \<not> bit w i"
  shows "trailing_zeros w = n"
proof -
  have n: "n < 64" using bit_imp_le_length [OF assms(1)] by simp
  have "takeWhile Not (map (bit w) [0..<64]) = take n (map (bit w) [0..<64])"
    by (rule takeWhile_eq_take_P_nth) (use assms n in auto)
  with n show ?thesis by (simp add: trailing_zeros_def)
qed

lemma trailing_zeros_nonzero:
  assumes "w \<noteq> 0"
  shows "trailing_zeros w < 64" "bit w (trailing_zeros w)"
    "i < trailing_zeros w \<Longrightarrow> \<not> bit w i"
proof -
  obtain j where "bit w j" using assms by (metis bit_eqI bit_0_eq bot_apply bot_bool_def)
  define n where "n = (LEAST j. bit w j)"
  have n: "bit w n" "\<And>i. i < n \<Longrightarrow> \<not> bit w i"
    using \<open>bit w j\<close> unfolding n_def by (auto intro: LeastI dest: not_less_Least)
  from trailing_zeros_eqI [OF n] have t: "trailing_zeros w = n" by simp
  show "trailing_zeros w < 64" using bit_imp_le_length [OF n(1)] t by simp
  show "bit w (trailing_zeros w)" using n(1) t by simp
  show "i < trailing_zeros w \<Longrightarrow> \<not> bit w i" using n(2) t by simp
qed

lemma trailing_zeros_0 [simp]: "trailing_zeros 0 = 64"
proof -
  have "takeWhile Not (map (bit (0 :: u64)) [0..<64]) = map (bit (0 :: u64)) [0..<64]"
    by (simp add: takeWhile_eq_all_conv)
  then show ?thesis unfolding trailing_zeros_def by (simp only: length_map length_upt)
qed

lemma take_rev_upt: "t < m \<Longrightarrow> take (m - 1 - t) (rev [0..<m]) = rev [Suc t..<m]"
  by (simp add: take_rev)

context bitvec_crate
begin

lemma from_shard_id_0: "from_shard_id V 0 = None"
  by (simp add: from_shard_id_def as_bits Let_def length_concat comp_def msb0_def sum_list_triv)

lemma from_shard_id_prefix:
  assumes "w \<noteq> 0"
  shows "from_shard_id V w = Some (map (bit w) (rev [Suc (trailing_zeros w)..<64]))"
proof -
  let ?t = "trailing_zeros w"
  have t: "?t < 64" by (rule trailing_zeros_nonzero) (rule assms)
  then have "nat ((64 - int ?t - 1) mod 2 ^ 32) = 64 - 1 - ?t" by simp
  then show ?thesis
    using take_rev_upt [OF t] by (simp add: from_shard_id_def Let_def as_bits bits_u64 take_map)
qed

lemma address_bits:
  assumes "8 \<le> length address" and "t < 64"
  shows "take (63 - t) (as_bits V address) = map (bit (address_head address)) (rev [Suc t..<64])"
proof -
  have "as_bits V address = concat (map msb0 (take 8 address)) @ concat (map msb0 (drop 8 address))"
    unfolding as_bits concat_append [symmetric] map_append [symmetric] by simp
  also have "concat (map msb0 (take 8 address)) = map (bit (address_head address)) (rev [0..<64])"
    using bits_u64 [of "address_head address"] be_bytes_address_head [OF assms(1)] by simp
  finally show ?thesis
    using take_rev_upt [OF assms(2)] by (simp add: take_map)
qed

lemma matches_iff:
  assumes "w \<noteq> 0" and "8 \<le> length address" and "from_shard_id V w = Some prefix"
  shows "matches V prefix address \<longleftrightarrow>
    (\<forall>i. trailing_zeros w < i \<and> i < 64 \<longrightarrow> bit (address_head address) i = bit w i)"
proof -
  let ?t = "trailing_zeros w"
  have t: "?t < 64" by (rule trailing_zeros_nonzero) (rule assms(1))
  have p: "prefix = map (bit w) (rev [Suc ?t..<64])"
    using assms(3) from_shard_id_prefix [OF assms(1)] by simp
  then have "length prefix = 63 - ?t" by simp
  then have "matches V prefix address \<longleftrightarrow>
      map (bit (address_head address)) (rev [Suc ?t..<64]) = map (bit w) (rev [Suc ?t..<64])"
    using address_bits [OF assms(2) t] p by (simp add: matches_def starts_with)
  also have "\<dots> \<longleftrightarrow> (\<forall>i. ?t < i \<and> i < 64 \<longrightarrow> bit (address_head address) i = bit w i)"
    by (auto simp: Suc_le_eq)
  finally show ?thesis .
qed

end

text \<open>A shard contains the address made of its own identifier.\<close>

lemma address_head_be_bytes [simp]: "address_head (be_bytes 8 (unat (w :: u64)) @ xs) = w"
  by (simp add: address_head_def byte_simps del: power_numeral)

context bitvec_crate
begin

lemma own_address:
  "w \<noteq> 0 \<Longrightarrow> from_shard_id V w = Some prefix \<Longrightarrow> matches V prefix (be_bytes 8 (unat w) @ xs)"
  by (simp add: matches_iff)

end

text \<open>
  A shard splits by extending its prefix with one bit: the identifier's lowest set bit moves one
  place down, and the bit it leaves becomes 0 or 1.
\<close>

definition left_child :: "u64 \<Rightarrow> u64" where
  "left_child w = unset_bit (trailing_zeros w) (set_bit (trailing_zeros w - 1) w)"

definition right_child :: "u64 \<Rightarrow> u64" where
  "right_child w = set_bit (trailing_zeros w - 1) w"

lemma child_bits:
  assumes "w \<noteq> 0" and "0 < trailing_zeros w"
  shows "trailing_zeros (left_child w) = trailing_zeros w - 1"
    and "trailing_zeros (right_child w) = trailing_zeros w - 1"
    and "bit (left_child w) i \<longleftrightarrow> i = trailing_zeros w - 1 \<or> bit w i \<and> i \<noteq> trailing_zeros w"
    and "bit (right_child w) i \<longleftrightarrow> i = trailing_zeros w - 1 \<or> bit w i"
proof -
  let ?t = "trailing_zeros w"
  note tz = trailing_zeros_nonzero [OF assms(1)]
  show l: "bit (left_child w) i \<longleftrightarrow> i = ?t - 1 \<or> bit w i \<and> i \<noteq> ?t" for i
    using tz(1) assms(2) by (auto simp: left_child_def bit_simps)
  show r: "bit (right_child w) i \<longleftrightarrow> i = ?t - 1 \<or> bit w i" for i
    using tz(1) assms(2) by (auto simp: right_child_def bit_simps)
  show "trailing_zeros (left_child w) = ?t - 1" and "trailing_zeros (right_child w) = ?t - 1"
    using l r tz(3) assms(2) by (intro trailing_zeros_eqI; auto)+
qed

section \<open>Properties\<close>

text \<open>
  A shard identifier other than 0 has a prefix, and an address matches it exactly when its
  leading bits are those of the identifier above the lowest set bit. The identifier 0 is none:
  computing its prefix panics.
\<close>

lemma shard_matches_leading_bits:
  assumes "bitvec_crate V" and "length address = 32"
  shows "from_shard_id V 0 = None \<and>
    (w \<noteq> 0 \<longrightarrow> (\<exists>prefix. from_shard_id V w = Some prefix \<and> length prefix = 63 - trailing_zeros w \<and>
       (matches V prefix address \<longleftrightarrow>
         (\<forall>i. trailing_zeros w < i \<and> i < 64 \<longrightarrow> bit (address_head address) i = bit w i))))"
  using bitvec_crate.from_shard_id_0 [OF assms(1)] bitvec_crate.from_shard_id_prefix [OF assms(1)]
    bitvec_crate.matches_iff [OF assms(1), of w address] assms(2) by auto

lemma shard_matches_leading_bits_witness:
  "from_shard_id std_bitvec 0 = None \<and> (\<exists>prefix. from_shard_id std_bitvec (2 ^ 63) = Some prefix)"
  using shard_matches_leading_bits [OF std_bits.bitvec_crate_axioms, of "replicate 32 1" "2 ^ 63"] by auto

text \<open>
  C25. When a shard splits, every address of the shard belongs to exactly one of its two
  children, and the children hold no address that is not in the shard.
\<close>

theorem shard_split_partitions:
  assumes "bitvec_crate V" and "length address = 32" and "w \<noteq> 0" and "0 < trailing_zeros w"
    and "from_shard_id V w = Some p" "from_shard_id V (left_child w) = Some pl"
    "from_shard_id V (right_child w) = Some pr"
  shows "(matches V p address \<longleftrightarrow> matches V pl address \<or> matches V pr address) \<and>
    \<not> (matches V pl address \<and> matches V pr address)"
proof -
  let ?t = "trailing_zeros w" and ?a = "address_head address"
  note c = child_bits [OF assms(3,4)] and t = trailing_zeros_nonzero [OF assms(3)]
  have nz: "left_child w \<noteq> 0" "right_child w \<noteq> 0" using c(3,4) [of "?t - 1"] by auto
  note m = bitvec_crate.matches_iff [OF assms(1)]
  have mw: "matches V p address \<longleftrightarrow> (\<forall>i. ?t < i \<and> i < 64 \<longrightarrow> bit ?a i = bit w i)"
    using assms(2,3,5) by (intro m) auto
  have from_t: "?t - Suc 0 < i \<longleftrightarrow> i = ?t \<or> ?t < i" for i using assms(4) by auto
  have "matches V pl address \<longleftrightarrow> \<not> bit ?a ?t \<and> matches V p address"
    using m [OF nz(1) _ assms(6)] assms(2,4) t(1) unfolding mw by (auto simp: c from_t)
  moreover have "matches V pr address \<longleftrightarrow> bit ?a ?t \<and> matches V p address"
    using m [OF nz(2) _ assms(7)] assms(2,4) t(1,2) unfolding mw by (auto simp: c from_t)
  ultimately show ?thesis by auto
qed

theorem shard_split_partitions_witness:
  "\<exists>p pl pr. from_shard_id std_bitvec (2 ^ 63) = Some p \<and>
     from_shard_id std_bitvec (left_child (2 ^ 63)) = Some pl \<and>
     from_shard_id std_bitvec (right_child (2 ^ 63)) = Some pr \<and>
     (matches std_bitvec pl (replicate 32 7) \<or> matches std_bitvec pr (replicate 32 7)
       \<longleftrightarrow> matches std_bitvec p (replicate 32 7))"
proof -
  let ?w = "2 ^ 63 :: u64"
  have "bit ?w i \<longleftrightarrow> i = 63" for i unfolding bit_exp_iff by auto
  then have t: "trailing_zeros ?w = 63" by (intro trailing_zeros_eqI) (blast, metis less_irrefl)
  then have w: "?w \<noteq> 0" "0 < trailing_zeros ?w" by auto
  have nz: "left_child ?w \<noteq> 0" "right_child ?w \<noteq> 0" using child_bits(3,4) [OF w, of 62] t by auto
  obtain p pl pr where "from_shard_id std_bitvec ?w = Some p"
    "from_shard_id std_bitvec (left_child ?w) = Some pl" "from_shard_id std_bitvec (right_child ?w) = Some pr"
    using std_bits.from_shard_id_prefix w(1) nz by blast
  then show ?thesis
    using shard_split_partitions [OF std_bits.bitvec_crate_axioms _ w, of "replicate 32 7"] by auto
qed

end
