(* ===== verification/Ton_Block.thy ===== *)
theory Ton_Block
  imports Address Router Shard_Prefix
begin

text \<open>
  The requests of the two clients and where they go: \<^verbatim>\<open>tonlibjson-client/src/block.rs\<close>,
  \<^verbatim>\<open>request.rs\<close>, and \<^verbatim>\<open>ton-liteserver-client/src/tl.rs\<close>. The request and answer types are generated
  from the TL schema; here they have the fields that the code reads (\<open>TonBlockId\<close> and its extension
  by the two hashes are records, a request is a constructor with its fields in the schema's order,
  less those no code reads). Each \<open>to_route\<close> and \<open>to_timeout\<close> implementation is a definition; a
  timeout is a number of seconds. A \<open>to_route\<close> that calls \<open>expect\<close> on an address returns \<open>None\<close> when
  it panics.
\<close>

section \<open>Block identifiers and answers\<close>

record TonBlockId =
  workchain :: i32
  shard :: i64
  seqno :: i32

record TonBlockIdExt = TonBlockId +
  root_hash :: string
  file_hash :: string

definition block_id_of_ext :: "TonBlockIdExt \<Rightarrow> TonBlockId" where
  "block_id_of_ext block = \<lparr>workchain = workchain block, shard = shard block, seqno = seqno block\<rparr>"

record BlocksHeader =
  header_id :: TonBlockIdExt
  start_lt :: i64
  end_lt :: i64
  header_global_id :: i32
  header_version :: i32
  header_flags :: i32
  header_after_merge :: bool
  header_after_split :: bool
  header_before_split :: bool
  header_want_merge :: bool
  header_want_split :: bool
  header_validator_list_hash_short :: i32
  header_catchain_seqno :: i32
  header_min_ref_mc_seqno :: i32
  header_is_key_block :: bool
  header_prev_key_block_seqno :: i32
  header_gen_utime :: i64
  header_vert_seqno :: i32
  header_prev_blocks :: "TonBlockIdExt list"

text \<open>A header of which only the identifier and the logical times matter.\<close>

definition plain_header :: "TonBlockIdExt \<Rightarrow> i64 \<Rightarrow> i64 \<Rightarrow> BlocksHeader" where
  "plain_header b s e = \<lparr>header_id = b, start_lt = s, end_lt = e,
     header_global_id = 0, header_version = 0, header_flags = 0, header_after_merge = False, header_after_split = False, header_before_split = False, header_want_merge = False, header_want_split = False,
     header_validator_list_hash_short = 0, header_catchain_seqno = 0, header_min_ref_mc_seqno = 0, header_is_key_block = False, header_prev_key_block_seqno = 0, header_gen_utime = 0, header_vert_seqno = 0, header_prev_blocks = []\<rparr>"

lemma plain_header_simps [simp]:
  "header_id (plain_header b s e) = b" "start_lt (plain_header b s e) = s" "end_lt (plain_header b s e) = e"
  by (simp_all add: plain_header_def)

definition block_id_of_header :: "BlocksHeader \<Rightarrow> TonBlockId" where
  "block_id_of_header h =
     \<lparr>workchain = workchain (header_id h), shard = shard (header_id h), seqno = seqno (header_id h)\<rparr>"

text \<open>The fields of the masterchain info that are only compared and passed on are one field.\<close>

record 'x BlocksMasterchainInfo =
  last_block :: TonBlockIdExt
  info_rest :: 'x

definition masterchain_info_cmp :: "'x BlocksMasterchainInfo \<Rightarrow> 'x BlocksMasterchainInfo \<Rightarrow> int" where
  "masterchain_info_cmp a b = sgn (seqno (last_block a) - seqno (last_block b))"

record BlocksShortTxId =
  tx_account :: string
  tx_hash :: string
  tx_lt :: i64

definition tx_eq :: "BlocksShortTxId \<Rightarrow> BlocksShortTxId \<Rightarrow> bool" where
  "tx_eq a b \<longleftrightarrow> tx_account a = tx_account b \<and> tx_hash a = tx_hash b \<and> tx_lt a = tx_lt b"

definition tx_into_internal :: "addr_ops \<Rightarrow> BlocksShortTxId \<Rightarrow> i32 \<Rightarrow> InternalAccountAddress may_panic" where
  "tx_into_internal A tx chain =
     map_option (\<lambda>a. into_internal a chain) (ok_of (shard_from_str A (tx_account tx)))"

definition tx_into_internal_string :: "addr_ops \<Rightarrow> BlocksShortTxId \<Rightarrow> i32 \<Rightarrow> string may_panic" where
  "tx_into_internal_string A tx chain = map_option (internal_to_string A) (tx_into_internal A tx chain)"

record InternalTransactionId =
  itx_hash :: string
  itx_lt :: i64

definition internal_transaction_id_default :: InternalTransactionId where
  "internal_transaction_id_default =
     \<lparr>itx_hash = ''AAAAAAAAAAAAAAAAAAAAAAAAAAAAAAAAAAAAAAAAAAA='', itx_lt = 0\<rparr>"

record AccountAddress =
  account_address :: "string option"

definition account_address_new :: "addr_ops \<Rightarrow> string \<Rightarrow> (addr_error, AccountAddress) res" where
  "account_address_new A s = res_bind (addr_from_str A s) (\<lambda>_. Ok \<lparr>account_address = Some s\<rparr>)"

definition to_data :: "addr_ops \<Rightarrow> AccountAddress \<Rightarrow> AccountAddressData option" where
  "to_data A a = Option.bind (account_address a) (\<lambda>s. ok_of (addr_from_str A s))"

definition account_chain_id :: "addr_ops \<Rightarrow> AccountAddress \<Rightarrow> i32" where
  "account_chain_id A a =
     (case Option.bind (account_address a) (\<lambda>s. ok_of (addr_from_str A s)) of
        Some d \<Rightarrow> chain_id d
      | None \<Rightarrow> - 1)"

record BlocksAccountTransactionId =
  after_account :: string
  after_lt :: i64

definition account_transaction_id_default :: BlocksAccountTransactionId where
  "account_transaction_id_default =
     \<lparr>after_account = ''AAAAAAAAAAAAAAAAAAAAAAAAAAAAAAAAAAAAAAAAAAA='', after_lt = 0\<rparr>"

definition account_tx_of_short :: "BlocksShortTxId \<Rightarrow> BlocksAccountTransactionId" where
  "account_tx_of_short v = \<lparr>after_account = tx_account v, after_lt = tx_lt v\<rparr>"

datatype MsgBoxedData =
    MsgDataRaw string string
  | MsgDataText string
  | MsgDataDecryptedText string
  | MsgDataEncryptedText string

record RawMessage =
  msg_source :: AccountAddress
  msg_destination :: AccountAddress
  msg_value :: i64
  msg_fwd_fee :: i64
  msg_ihr_fee :: i64
  msg_created_lt :: i64
  msg_body_hash :: string
  msg_data :: MsgBoxedData

record RawTransaction =
  raw_address :: AccountAddress
  raw_transaction_id :: InternalTransactionId
  raw_utime :: i64
  raw_data :: string
  raw_fee :: i64
  raw_storage_fee :: i64
  raw_other_fee :: i64
  raw_in_msg :: "RawMessage option"
  raw_out_msgs :: "RawMessage list"

datatype raw_tx_error = EmptyAddress | BadAddress addr_error

definition account_tx_of_raw :: "addr_ops \<Rightarrow> RawTransaction \<Rightarrow> (raw_tx_error, BlocksAccountTransactionId) res" where
  "account_tx_of_raw A v =
     (case account_address (raw_address v) of
        None \<Rightarrow> Err EmptyAddress
      | Some s \<Rightarrow>
          (case addr_from_str A s of
             Err e \<Rightarrow> Err (BadAddress e)
           | Ok d \<Rightarrow> Ok \<lparr>after_account = shard_to_string A (into_shard_context d),
                         after_lt = itx_lt (raw_transaction_id v)\<rparr>))"

section \<open>Requests of tonlib\<close>

definition to_route_BlocksGetBlockHeader :: "TonBlockIdExt \<Rightarrow> Route" where
  "to_route_BlocksGetBlockHeader bid = Block (workchain bid) (Seqno (shard bid) (seqno bid))"

definition to_route_GetShardAccountCell :: "AccountAddress \<Rightarrow> Route" where
  "to_route_GetShardAccountCell account = Latest"

definition to_route_GetShardAccountCellByTransaction ::
    "addr_ops \<Rightarrow> AccountAddress \<Rightarrow> InternalTransactionId \<Rightarrow> Route may_panic" where
  "to_route_GetShardAccountCellByTransaction A account tid =
     map_option (\<lambda>data. Block (chain_id data) (LogicalTime (addr_bytes data) (itx_lt tid))) (to_data A account)"

definition to_route_RawGetAccountState :: "AccountAddress \<Rightarrow> Route" where
  "to_route_RawGetAccountState account = Latest"

definition to_route_RawGetAccountStateByTransaction ::
    "addr_ops \<Rightarrow> AccountAddress \<Rightarrow> InternalTransactionId \<Rightarrow> Route may_panic" where
  "to_route_RawGetAccountStateByTransaction A account tid =
     map_option (\<lambda>data. Block (chain_id data) (LogicalTime (addr_bytes data) (itx_lt tid))) (to_data A account)"

definition to_route_GetAccountState :: "AccountAddress \<Rightarrow> Route" where
  "to_route_GetAccountState account = Latest"

definition to_route_BlocksGetMasterchainInfo :: Route where
  "to_route_BlocksGetMasterchainInfo = Latest"

record BlocksLookupBlock =
  lookup_mode :: i32
  lookup_id :: TonBlockId
  lookup_lt :: i64
  lookup_utime :: i32

definition shard_address :: "i64 \<Rightarrow> bytes" where
  "shard_address s = be_bytes 8 (unat (word_of_int s :: u64)) @ replicate 24 0"

definition to_route_BlocksLookupBlock :: "BlocksLookupBlock \<Rightarrow> Route" where
  "to_route_BlocksLookupBlock r =
     Block (workchain (lookup_id r))
       (if lookup_mode r = 2 then LogicalTime (shard_address (shard (lookup_id r))) (lookup_lt r)
        else Seqno (shard (lookup_id r)) (seqno (lookup_id r)))"

definition lookup_seqno :: "TonBlockId \<Rightarrow> BlocksLookupBlock" where
  "lookup_seqno bid = \<lparr>lookup_mode = 1, lookup_id = bid, lookup_lt = 0, lookup_utime = 0\<rparr>"

definition lookup_logical_time :: "TonBlockId \<Rightarrow> i64 \<Rightarrow> BlocksLookupBlock" where
  "lookup_logical_time bid lt = \<lparr>lookup_mode = 2, lookup_id = bid, lookup_lt = lt, lookup_utime = 0\<rparr>"

definition to_route_BlocksGetShards :: "TonBlockIdExt \<Rightarrow> Route" where
  "to_route_BlocksGetShards bid = Block (workchain bid) (Seqno (shard bid) (seqno bid))"

text \<open>\<open>BlocksGetTransactions\<close> and \<open>BlocksGetTransactionsExt\<close> have the same fields.\<close>

record BlocksGetTransactions =
  txs_id :: TonBlockIdExt
  txs_mode :: i32
  txs_count :: i32
  txs_after :: BlocksAccountTransactionId

definition ext_unverified ::
    "TonBlockIdExt \<Rightarrow> BlocksAccountTransactionId option \<Rightarrow> bool \<Rightarrow> i32 \<Rightarrow> BlocksGetTransactions" where
  "ext_unverified bid after reverse cnt =
     (let cnt = (if cnt > 256 then 256 else cnt);
          mode = 1 + 2 + 4 + (if after \<noteq> None then 128 else 0) + (if reverse then 64 else 0)
      in \<lparr>txs_id = bid, txs_mode = mode, txs_count = cnt,
          txs_after = case_option account_transaction_id_default (\<lambda>a. a) after\<rparr>)"

definition ext_verified ::
    "TonBlockIdExt \<Rightarrow> BlocksAccountTransactionId option \<Rightarrow> bool \<Rightarrow> i32 \<Rightarrow> BlocksGetTransactions" where
  "ext_verified bid after reverse cnt =
     (let cnt = (if cnt > 256 then 256 else cnt);
          mode = 32 + 1 + 2 + 4 + (if after \<noteq> None then 128 else 0) + (if reverse then 64 else 0)
      in \<lparr>txs_id = bid, txs_mode = mode, txs_count = cnt,
          txs_after = case_option account_transaction_id_default (\<lambda>a. a) after\<rparr>)"

definition to_route_BlocksGetTransactionsExt :: "BlocksGetTransactions \<Rightarrow> Route" where
  "to_route_BlocksGetTransactionsExt r =
     Block (workchain (txs_id r)) (Seqno (shard (txs_id r)) (seqno (txs_id r)))"

definition txs_unverified ::
    "TonBlockIdExt \<Rightarrow> BlocksAccountTransactionId option \<Rightarrow> bool \<Rightarrow> i32 \<Rightarrow> BlocksGetTransactions" where
  "txs_unverified bid after reverse cnt =
     (let cnt = (if cnt > 256 then 256 else cnt);
          mode = 1 + 2 + 4 + (if after \<noteq> None then 128 else 0) + (if reverse then 64 else 0)
      in \<lparr>txs_id = bid, txs_mode = mode, txs_count = cnt,
          txs_after = case_option account_transaction_id_default (\<lambda>a. a) after\<rparr>)"

definition txs_verified ::
    "TonBlockIdExt \<Rightarrow> BlocksAccountTransactionId option \<Rightarrow> bool \<Rightarrow> i32 \<Rightarrow> BlocksGetTransactions" where
  "txs_verified bid after reverse cnt =
     (let cnt = (if cnt > 256 then 256 else cnt);
          mode = 32 + 1 + 2 + 4 + (if after \<noteq> None then 128 else 0) + (if reverse then 64 else 0)
      in \<lparr>txs_id = bid, txs_mode = mode, txs_count = cnt,
          txs_after = case_option account_transaction_id_default (\<lambda>a. a) after\<rparr>)"

definition to_route_BlocksGetTransactions :: "BlocksGetTransactions \<Rightarrow> Route" where
  "to_route_BlocksGetTransactions r =
     Block (workchain (txs_id r)) (Seqno (shard (txs_id r)) (seqno (txs_id r)))"

definition to_route_RawSendMessage :: "string \<Rightarrow> Route" where
  "to_route_RawSendMessage body = Latest"

definition to_route_RawSendMessageReturnHash :: "string \<Rightarrow> Route" where
  "to_route_RawSendMessageReturnHash body = Latest"

definition to_route_SmcLoad :: "AccountAddress \<Rightarrow> Route" where
  "to_route_SmcLoad account = Latest"

definition to_route_RawGetTransactionsV2 ::
    "addr_ops \<Rightarrow> AccountAddress \<Rightarrow> InternalTransactionId \<Rightarrow> Route may_panic" where
  "to_route_RawGetTransactionsV2 A account from_tid =
     map_option (\<lambda>data. Block (chain_id data) (LogicalTime (addr_bytes data) (itx_lt from_tid)))
       (to_data A account)"

definition to_timeout_default :: "nat option" where
  "to_timeout_default = None"

definition to_timeout_Sync :: "nat option" where
  "to_timeout_Sync = Some (5 * 60)"

record 'f WithBlock =
  with_id :: TonBlockIdExt
  with_function :: 'f

definition to_timeout_WithBlock :: "('f \<Rightarrow> nat option) \<Rightarrow> 'f WithBlock \<Rightarrow> nat option" where
  "to_timeout_WithBlock to_timeout r = to_timeout (with_function r)"

definition to_route_WithBlock :: "'f WithBlock \<Rightarrow> Route" where
  "to_route_WithBlock r = Block (workchain (with_id r)) (Seqno (shard (with_id r)) (seqno (with_id r)))"

text \<open>\<^verbatim>\<open>request.rs\<close> and \<^verbatim>\<open>session.rs\<close>: wrappers that choose the route themselves.\<close>

record 'f Forward =
  forward_route :: Route
  forward_inner :: 'f

definition forward_new :: "Route \<Rightarrow> 'f \<Rightarrow> 'f Forward" where
  "forward_new route inner = \<lparr>forward_route = route, forward_inner = inner\<rparr>"

definition to_route_Forward :: "'f Forward \<Rightarrow> Route" where
  "to_route_Forward r = forward_route r"

definition to_timeout_Forward :: "('f \<Rightarrow> nat option) \<Rightarrow> 'f Forward \<Rightarrow> nat option" where
  "to_timeout_Forward to_timeout r = to_timeout (forward_inner r)"

datatype 'f Specialized = Specialized (specialized_inner: 'f)

definition to_route_Specialized :: "('f \<Rightarrow> Route) \<Rightarrow> 'f Specialized \<Rightarrow> Route" where
  "to_route_Specialized to_route r = to_route (specialized_inner r)"

definition to_route_RunGetMethod :: "AccountAddress \<Rightarrow> Route" where
  "to_route_RunGetMethod account = Latest"

section \<open>Requests of the lite server protocol\<close>

record TonNodeBlockIdExt = TonBlockId +
  node_root_hash :: bytes
  node_file_hash :: bytes

record LiteServerAccountId =
  account_workchain :: i32
  account_id :: bytes

record LiteServerLookupBlock =
  ls_lookup_mode :: i32
  ls_lookup_id :: TonBlockId
  ls_lookup_lt :: "i64 option"
  ls_lookup_utime :: "i32 option"

definition ton_node_block_id_new :: "i32 \<Rightarrow> i64 \<Rightarrow> i32 \<Rightarrow> TonBlockId" where
  "ton_node_block_id_new w s q = \<lparr>workchain = w, shard = s, seqno = q\<rparr>"

definition ls_lookup_seqno :: "TonBlockId \<Rightarrow> LiteServerLookupBlock" where
  "ls_lookup_seqno bid =
     \<lparr>ls_lookup_mode = 1, ls_lookup_id = bid, ls_lookup_lt = None, ls_lookup_utime = None\<rparr>"

datatype LiteServerRequest =
    LiteServerGetMasterchainInfo
  | LiteServerGetMasterchainInfoExt i32
  | LiteServerGetBlock TonNodeBlockIdExt
  | LiteServerGetState TonNodeBlockIdExt
  | LiteServerGetBlockHeader TonNodeBlockIdExt i32
  | LiteServerSendMessage bytes
  | LiteServerGetAccountState TonNodeBlockIdExt LiteServerAccountId
  | LiteServerGetAccountStatePrunned TonNodeBlockIdExt LiteServerAccountId
  | LiteServerRunSmcMethod i32 TonNodeBlockIdExt LiteServerAccountId i64 bytes
  | LiteServerGetShardInfo TonNodeBlockIdExt i32 i64 bool
  | LiteServerGetAllShardsInfo TonNodeBlockIdExt
  | LiteServerGetOneTransaction TonNodeBlockIdExt LiteServerAccountId i64
  | LiteServerGetTransactions i32 LiteServerAccountId i64 bytes
  | LiteServerLookup LiteServerLookupBlock
  | LiteServerLookupWithProof LiteServerLookupBlock TonNodeBlockIdExt
  | LiteServerListBlockTransactions TonNodeBlockIdExt i32 i32
  | LiteServerListBlockTransactionsExt TonNodeBlockIdExt i32 i32
  | LiteServerGetBlockProof i32 TonNodeBlockIdExt "TonNodeBlockIdExt option"
  | LiteServerGetConfigAll i32 TonNodeBlockIdExt
  | LiteServerGetConfigParams i32 TonNodeBlockIdExt "i32 list"
  | LiteServerGetValidatorStats i32 TonNodeBlockIdExt i32 "bytes option" "i32 option"
  | LiteServerGetLibraries "bytes list"
  | LiteServerGetLibrariesWithProof TonNodeBlockIdExt i32 "bytes list"
  | LiteServerGetShardBlockProof TonNodeBlockIdExt

definition get_block_header_new :: "TonNodeBlockIdExt \<Rightarrow> LiteServerRequest" where
  "get_block_header_new bid = LiteServerGetBlockHeader bid 0"

definition get_block_new :: "TonNodeBlockIdExt \<Rightarrow> LiteServerRequest" where
  "get_block_new bid = LiteServerGetBlock bid"

definition get_all_shards_info_new :: "TonNodeBlockIdExt \<Rightarrow> LiteServerRequest" where
  "get_all_shards_info_new bid = LiteServerGetAllShardsInfo bid"

text \<open>One definition for each implementation of \<open>ToRoute\<close>, over the fields it reads.\<close>

definition to_route_LiteServerGetMasterchainInfo :: Route where
  "to_route_LiteServerGetMasterchainInfo = Latest"

definition to_route_LiteServerGetMasterchainInfoExt :: Route where
  "to_route_LiteServerGetMasterchainInfoExt = Latest"

definition to_route_LiteServerGetBlock :: "TonNodeBlockIdExt \<Rightarrow> Route" where
  "to_route_LiteServerGetBlock bid = Block (workchain bid) (Seqno (shard bid) (seqno bid))"

definition to_route_LiteServerGetState :: "TonNodeBlockIdExt \<Rightarrow> Route" where
  "to_route_LiteServerGetState bid = Block (workchain bid) (Seqno (shard bid) (seqno bid))"

definition to_route_LiteServerGetBlockHeader :: "TonNodeBlockIdExt \<Rightarrow> Route" where
  "to_route_LiteServerGetBlockHeader bid = Block (workchain bid) (Seqno (shard bid) (seqno bid))"

definition to_route_LiteServerSendMessage :: Route where
  "to_route_LiteServerSendMessage = Latest"

definition to_route_LiteServerGetAccountState :: "TonNodeBlockIdExt \<Rightarrow> Route" where
  "to_route_LiteServerGetAccountState bid = Block (workchain bid) (Seqno (shard bid) (seqno bid))"

definition to_route_LiteServerGetAccountStatePrunned :: "TonNodeBlockIdExt \<Rightarrow> Route" where
  "to_route_LiteServerGetAccountStatePrunned bid = Block (workchain bid) (Seqno (shard bid) (seqno bid))"

definition to_route_LiteServerRunSmcMethod :: "TonNodeBlockIdExt \<Rightarrow> Route" where
  "to_route_LiteServerRunSmcMethod bid = Block (workchain bid) (Seqno (shard bid) (seqno bid))"

definition to_route_LiteServerGetShardInfo :: "TonNodeBlockIdExt \<Rightarrow> Route" where
  "to_route_LiteServerGetShardInfo bid = Block (workchain bid) (Seqno (shard bid) (seqno bid))"

definition to_route_LiteServerGetAllShardsInfo :: "TonNodeBlockIdExt \<Rightarrow> Route" where
  "to_route_LiteServerGetAllShardsInfo bid = Block (workchain bid) (Seqno (shard bid) (seqno bid))"

definition to_route_LiteServerGetOneTransaction :: "TonNodeBlockIdExt \<Rightarrow> Route" where
  "to_route_LiteServerGetOneTransaction bid = Block (workchain bid) (Seqno (shard bid) (seqno bid))"

definition to_route_LiteServerGetTransactions :: "LiteServerAccountId \<Rightarrow> i64 \<Rightarrow> Route" where
  "to_route_LiteServerGetTransactions account lt = Block (account_workchain account) (LogicalTime (account_id account) lt)"

definition to_route_LiteServerLookupBlock :: "LiteServerLookupBlock \<Rightarrow> Route" where
  "to_route_LiteServerLookupBlock r =
     Block (workchain (ls_lookup_id r))
       (case ls_lookup_lt r of
          None \<Rightarrow> Seqno (shard (ls_lookup_id r)) (seqno (ls_lookup_id r))
        | Some lt \<Rightarrow> LogicalTime (shard_address (shard (ls_lookup_id r))) lt)"

definition to_route_LiteServerLookupBlockWithProof :: "LiteServerLookupBlock \<Rightarrow> Route" where
  "to_route_LiteServerLookupBlockWithProof r =
     Block (workchain (ls_lookup_id r))
       (case ls_lookup_lt r of
          None \<Rightarrow> Seqno (shard (ls_lookup_id r)) (seqno (ls_lookup_id r))
        | Some lt \<Rightarrow> LogicalTime (shard_address (shard (ls_lookup_id r))) lt)"

definition to_route_LiteServerListBlockTransactions :: "TonNodeBlockIdExt \<Rightarrow> Route" where
  "to_route_LiteServerListBlockTransactions bid = Block (workchain bid) (Seqno (shard bid) (seqno bid))"

definition to_route_LiteServerListBlockTransactionsExt :: "TonNodeBlockIdExt \<Rightarrow> Route" where
  "to_route_LiteServerListBlockTransactionsExt bid = Block (workchain bid) (Seqno (shard bid) (seqno bid))"

definition to_route_LiteServerGetBlockProof :: "TonNodeBlockIdExt \<Rightarrow> Route" where
  "to_route_LiteServerGetBlockProof bid = Block (workchain bid) (Seqno (shard bid) (seqno bid))"

definition to_route_LiteServerGetConfigAll :: "TonNodeBlockIdExt \<Rightarrow> Route" where
  "to_route_LiteServerGetConfigAll bid = Block (workchain bid) (Seqno (shard bid) (seqno bid))"

definition to_route_LiteServerGetConfigParams :: "TonNodeBlockIdExt \<Rightarrow> Route" where
  "to_route_LiteServerGetConfigParams bid = Block (workchain bid) (Seqno (shard bid) (seqno bid))"

definition to_route_LiteServerGetValidatorStats :: "TonNodeBlockIdExt \<Rightarrow> Route" where
  "to_route_LiteServerGetValidatorStats bid = Block (workchain bid) (Seqno (shard bid) (seqno bid))"

definition to_route_LiteServerGetLibraries :: Route where
  "to_route_LiteServerGetLibraries = Latest"

definition to_route_LiteServerGetLibrariesWithProof :: "TonNodeBlockIdExt \<Rightarrow> Route" where
  "to_route_LiteServerGetLibrariesWithProof bid = Block (workchain bid) (Seqno (shard bid) (seqno bid))"

definition to_route_LiteServerGetShardBlockProof :: "TonNodeBlockIdExt \<Rightarrow> Route" where
  "to_route_LiteServerGetShardBlockProof bid = Block (workchain bid) (Seqno (shard bid) (seqno bid))"

fun ls_to_route :: "LiteServerRequest \<Rightarrow> Route" where
  "ls_to_route LiteServerGetMasterchainInfo = to_route_LiteServerGetMasterchainInfo"
| "ls_to_route (LiteServerGetMasterchainInfoExt _) = to_route_LiteServerGetMasterchainInfoExt"
| "ls_to_route (LiteServerGetBlock bid) = to_route_LiteServerGetBlock bid"
| "ls_to_route (LiteServerGetState bid) = to_route_LiteServerGetState bid"
| "ls_to_route (LiteServerGetBlockHeader bid _) = to_route_LiteServerGetBlockHeader bid"
| "ls_to_route (LiteServerSendMessage _) = to_route_LiteServerSendMessage"
| "ls_to_route (LiteServerGetAccountState bid _) = to_route_LiteServerGetAccountState bid"
| "ls_to_route (LiteServerGetAccountStatePrunned bid _) = to_route_LiteServerGetAccountStatePrunned bid"
| "ls_to_route (LiteServerRunSmcMethod _ bid _ _ _) = to_route_LiteServerRunSmcMethod bid"
| "ls_to_route (LiteServerGetShardInfo bid _ _ _) = to_route_LiteServerGetShardInfo bid"
| "ls_to_route (LiteServerGetAllShardsInfo bid) = to_route_LiteServerGetAllShardsInfo bid"
| "ls_to_route (LiteServerGetOneTransaction bid _ _) = to_route_LiteServerGetOneTransaction bid"
| "ls_to_route (LiteServerGetTransactions _ account lt _) = to_route_LiteServerGetTransactions account lt"
| "ls_to_route (LiteServerLookup r) = to_route_LiteServerLookupBlock r"
| "ls_to_route (LiteServerLookupWithProof r _) = to_route_LiteServerLookupBlockWithProof r"
| "ls_to_route (LiteServerListBlockTransactions bid _ _) = to_route_LiteServerListBlockTransactions bid"
| "ls_to_route (LiteServerListBlockTransactionsExt bid _ _) = to_route_LiteServerListBlockTransactionsExt bid"
| "ls_to_route (LiteServerGetBlockProof _ bid _) = to_route_LiteServerGetBlockProof bid"
| "ls_to_route (LiteServerGetConfigAll _ bid) = to_route_LiteServerGetConfigAll bid"
| "ls_to_route (LiteServerGetConfigParams _ bid _) = to_route_LiteServerGetConfigParams bid"
| "ls_to_route (LiteServerGetValidatorStats _ bid _ _ _) = to_route_LiteServerGetValidatorStats bid"
| "ls_to_route (LiteServerGetLibraries _) = to_route_LiteServerGetLibraries"
| "ls_to_route (LiteServerGetLibrariesWithProof bid _ _) = to_route_LiteServerGetLibrariesWithProof bid"
| "ls_to_route (LiteServerGetShardBlockProof bid) = to_route_LiteServerGetShardBlockProof bid"

section \<open>Properties\<close>

lemma length_shard_address [simp]: "length (shard_address s) = 32"
  by (simp add: shard_address_def)

context bitvec_crate
begin

lemma shard_address_matches:
  "word_of_int s \<noteq> (0 :: u64) \<Longrightarrow> from_shard_id V (word_of_int s) = Some prefix \<Longrightarrow>
   matches V prefix (shard_address s)"
  by (simp add: shard_address_def own_address)

end

lemma txs_request_fields:
  assumes "r \<in> {txs_verified bid after reverse cnt, txs_unverified bid after reverse cnt}"
  shows "bit (txs_mode r) 6 = reverse" "bit (txs_mode r) 7 = (after \<noteq> None)"
    "take_bit 5 (txs_mode r) = 7" "txs_count r = min cnt 256" "txs_id r = bid"
    "\<forall>a. after = Some a \<longrightarrow> txs_after r = a"
  using assms
  by (cases reverse; cases after; auto simp: txs_verified_def txs_unverified_def Let_def min_def)+

text \<open>
  The mode word of a request for the transactions of a block says what was asked: bit 5 for a
  proof, bit 6 for the reverse order, bit 7 for a starting transaction, and the three lowest bits
  for the fields wanted; the count never exceeds 256. The extended request has the same fields.
\<close>

lemma transactions_mode:
  "bit (txs_mode (txs_verified bid after reverse cnt)) 5 \<and>
   \<not> bit (txs_mode (txs_unverified bid after reverse cnt)) 5 \<and>
   (\<forall>r \<in> {txs_verified bid after reverse cnt, txs_unverified bid after reverse cnt}.
      bit (txs_mode r) 6 = reverse \<and> bit (txs_mode r) 7 = (after \<noteq> None) \<and>
      take_bit 5 (txs_mode r) = 7 \<and> txs_count r = min cnt 256 \<and> txs_id r = bid \<and>
      (\<forall>a. after = Some a \<longrightarrow> txs_after r = a)) \<and>
   ext_verified bid after reverse cnt = txs_verified bid after reverse cnt \<and>
   ext_unverified bid after reverse cnt = txs_unverified bid after reverse cnt"
proof -
  have 1: "bit (txs_mode (txs_verified bid after reverse cnt)) 5"
    "\<not> bit (txs_mode (txs_unverified bid after reverse cnt)) 5"
    by (simp_all add: txs_verified_def txs_unverified_def Let_def)
  have 3: "ext_verified bid after reverse cnt = txs_verified bid after reverse cnt"
    "ext_unverified bid after reverse cnt = txs_unverified bid after reverse cnt"
    by (simp_all add: ext_verified_def txs_verified_def ext_unverified_def txs_unverified_def)
  show ?thesis by (intro conjI ballI 1 3 txs_request_fields)
qed

lemma transactions_mode_witness:
  "txs_count (txs_verified \<lparr>workchain = 0, shard = - (2 ^ 63), seqno = 7, root_hash = '''', file_hash = ''''\<rparr> None True 1000) = 256"
  using transactions_mode [of "\<lparr>workchain = 0, shard = - (2 ^ 63), seqno = 7, root_hash = '''', file_hash = ''''\<rparr>" None True 1000] by simp

end
