(* ===== verification/Cursor.thy ===== *)
theory Cursor
  imports Ton_Block
begin

text \<open>
  The registry of the blocks a lite server holds, \<^verbatim>\<open>tonlibjson-client/src/cursor_client.rs\<close>: for
  every shard the first and the last block with a header and the last block announced, and the
  routing client built on it. A \<open>DashMap\<close> is a map, a \<open>DashSet\<close> the list of its elements in
  iteration order, the watch channel its last value. A lookup by logical time walks the shards of
  the chain and panics on the shard identifier 0; it returns an option.
\<close>

section \<open>Bounds of a shard\<close>

type_synonym ShardId = "i32 \<times> i64"

definition shard_id_of :: "TonBlockIdExt \<Rightarrow> ShardId" where
  "shard_id_of b = (workchain b, shard b)"

record ShardBounds =
  left :: "BlocksHeader option"
  right :: "BlocksHeader option"
  right_end :: "i32 option"

definition bounds_left :: "BlocksHeader \<Rightarrow> ShardBounds" where
  "bounds_left h = \<lparr>left = Some h, right = None, right_end = None\<rparr>"

definition bounds_right :: "BlocksHeader \<Rightarrow> ShardBounds" where
  "bounds_right h = \<lparr>left = None, right = Some h, right_end = Some (seqno (header_id h))\<rparr>"

definition bounds_right_end :: "i32 \<Rightarrow> ShardBounds" where
  "bounds_right_end q = \<lparr>left = None, right = None, right_end = Some q\<rparr>"

definition bounds_right_next :: "ShardBounds \<Rightarrow> i32 option" where
  "bounds_right_next b =
     (case right_end b of
        None \<Rightarrow> None
      | Some q \<Rightarrow>
          (case right b of
             None \<Rightarrow> Some q
           | Some r \<Rightarrow> if seqno (header_id r) < q then Some (wrap_i32 (seqno (header_id r) + 1)) else None))"

definition contains_seqno :: "ShardBounds \<Rightarrow> i32 \<Rightarrow> bool \<Rightarrow> bool" where
  "contains_seqno b q not_available =
     (case (left b, right b) of
        (Some l, Some r) \<Rightarrow>
          if not_available then
            seqno (header_id l) \<le> q \<and> q \<le> case_option (seqno (header_id r)) (\<lambda>e. e) (right_end b)
          else seqno (header_id l) \<le> q \<and> q \<le> seqno (header_id r)
      | _ \<Rightarrow> False)"

definition contains_lt :: "ShardBounds \<Rightarrow> i64 \<Rightarrow> bool \<Rightarrow> bool" where
  "contains_lt b lt not_available =
     (case (left b, right b) of
        (Some l, Some r) \<Rightarrow>
          if not_available then
            start_lt l \<le> lt \<and> lt \<le> wrap_i64 (end_lt r + wrap_i64 (end_lt r - start_lt r))
          else start_lt l \<le> lt \<and> lt \<le> end_lt r
      | _ \<Rightarrow> False)"

section \<open>Registry\<close>

record Registry =
  shard_registry :: "i32 \<rightharpoonup> ShardId list"
  shard_bounds_registry :: "ShardId \<rightharpoonup> ShardBounds"

definition registry_default :: Registry where
  "registry_default = \<lparr>shard_registry = Map.empty, shard_bounds_registry = Map.empty\<rparr>"

definition registry_right_next :: "Registry \<Rightarrow> ShardId \<Rightarrow> i32 option" where
  "registry_right_next reg sid = Option.bind (shard_bounds_registry reg sid) bounds_right_next"

definition get_last_seqno :: "Registry \<Rightarrow> ShardId \<Rightarrow> i32 option" where
  "get_last_seqno reg sid =
     Option.bind (shard_bounds_registry reg sid) (\<lambda>b. map_option (\<lambda>h. seqno (header_id h)) (right b))"

definition update_shard_registry :: "Registry \<Rightarrow> ShardId \<Rightarrow> Registry" where
  "update_shard_registry reg sid =
     (let entry = case_option [] (\<lambda>ids. ids) (shard_registry reg (fst sid))
      in reg\<lparr>shard_registry := (shard_registry reg)(fst sid \<mapsto>
           (if sid \<in> set entry then entry else entry @ [sid]))\<rparr>)"

definition upsert_left :: "Registry \<Rightarrow> BlocksHeader \<Rightarrow> Registry" where
  "upsert_left reg h =
     (let sid = (workchain (header_id h), shard (header_id h));
          reg = update_shard_registry reg sid
      in reg\<lparr>shard_bounds_registry := (shard_bounds_registry reg)(sid \<mapsto>
           (case shard_bounds_registry reg sid of
              Some b \<Rightarrow> b\<lparr>left := Some h\<rparr>
            | None \<Rightarrow> bounds_left h))\<rparr>)"

definition upsert_right :: "Registry \<Rightarrow> BlocksHeader \<Rightarrow> Registry" where
  "upsert_right reg h =
     (let sid = (workchain (header_id h), shard (header_id h));
          reg = update_shard_registry reg sid
      in reg\<lparr>shard_bounds_registry := (shard_bounds_registry reg)(sid \<mapsto>
           (case shard_bounds_registry reg sid of
              Some b \<Rightarrow> b\<lparr>right := Some h\<rparr>
            | None \<Rightarrow> bounds_right h))\<rparr>)"

definition upsert_right_end :: "Registry \<Rightarrow> TonBlockIdExt \<Rightarrow> Registry" where
  "upsert_right_end reg bid =
     (let sid = (workchain bid, shard bid);
          reg = update_shard_registry reg sid
      in reg\<lparr>shard_bounds_registry := (shard_bounds_registry reg)(sid \<mapsto>
           (case shard_bounds_registry reg sid of
              Some b \<Rightarrow> b\<lparr>right_end := Some (seqno bid)\<rparr>
            | None \<Rightarrow> bounds_right_end (seqno bid)))\<rparr>)"

text \<open>The lazy \<open>filter_map\<close> and \<open>any\<close> over the shards of a chain.\<close>

fun any_shard :: "bitvec_ops \<Rightarrow> Registry \<Rightarrow> bytes \<Rightarrow> i64 \<Rightarrow> bool \<Rightarrow> ShardId list \<Rightarrow> bool may_panic" where
  "any_shard V reg address lt not_available [] = Some False"
| "any_shard V reg address lt not_available (sid # rest) =
     (case from_shard_id V (word_of_int (snd sid)) of
        None \<Rightarrow> None
      | Some prefix \<Rightarrow>
          if matches V prefix address \<and>
             (case shard_bounds_registry reg sid of Some b \<Rightarrow> contains_lt b lt not_available | None \<Rightarrow> False)
          then Some True
          else any_shard V reg address lt not_available rest)"

definition registry_contains ::
    "bitvec_ops \<Rightarrow> Registry \<Rightarrow> i32 \<Rightarrow> BlockCriteria \<Rightarrow> bool \<Rightarrow> bool may_panic" where
  "registry_contains V reg chain criteria not_available =
     (case criteria of
        LogicalTime address lt \<Rightarrow>
          (case shard_registry reg chain of
             Some ids \<Rightarrow> any_shard V reg address lt not_available ids
           | None \<Rightarrow> Some False)
      | Seqno sh q \<Rightarrow>
          (case shard_bounds_registry reg (chain, sh) of
             None \<Rightarrow> Some False
           | Some b \<Rightarrow> Some (contains_seqno b q not_available)))"

definition registry_edges_defined :: "Registry \<Rightarrow> ShardId \<Rightarrow> bool" where
  "registry_edges_defined reg sid =
     (case shard_bounds_registry reg sid of None \<Rightarrow> False | Some b \<Rightarrow> left b \<noteq> None)"

section \<open>Client\<close>

record ('c, 'x) CursorClient =
  inner_client :: 'c
  masterchain_info_rx :: "'x BlocksMasterchainInfo option"
  registry :: Registry

definition master_shard_id :: "('c, 'x) CursorClient \<Rightarrow> ShardId option" where
  "master_shard_id s =
     map_option (\<lambda>info. (workchain (last_block info), shard (last_block info))) (masterchain_info_rx s)"

definition cursor_last_seqno :: "('c, 'x) CursorClient \<Rightarrow> i32 option" where
  "cursor_last_seqno s = Option.bind (master_shard_id s) (get_last_seqno (registry s))"

text \<open>The trait \<open>Routed\<close>; on a registry within its invariant no call panics.\<close>

definition cursor_routed :: "bitvec_ops \<Rightarrow> ('c, 'x) CursorClient routed" where
  "cursor_routed V = \<lparr>
     contains = (\<lambda>s chain criteria. registry_contains V (registry s) chain criteria False = Some True),
     contains_not_available = (\<lambda>s chain criteria. registry_contains V (registry s) chain criteria True = Some True),
     last_seqno = cursor_last_seqno\<rparr>"

definition cursor_edges_defined :: "('c, 'x) CursorClient \<Rightarrow> bool" where
  "cursor_edges_defined s =
     (case master_shard_id s of None \<Rightarrow> False | Some sid \<Rightarrow> registry_edges_defined (registry s) sid)"

definition info_poll_ready :: "('c, 'x) CursorClient \<Rightarrow> ('e, unit) res poll" where
  "info_poll_ready s =
     (if masterchain_info_rx s \<noteq> None \<and> cursor_edges_defined s then Ready (Ok ()) else Pending)"

definition info_call :: "('c, 'x) CursorClient \<Rightarrow> ('e, 'x BlocksMasterchainInfo) res may_panic" where
  "info_call s = map_option Ok (masterchain_info_rx s)"

definition cursor_poll_ready ::
    "('c \<Rightarrow> ('e, unit) res poll \<times> 'c) \<Rightarrow> ('c, 'x) CursorClient \<Rightarrow>
     ('e, unit) res poll \<times> ('c, 'x) CursorClient" where
  "cursor_poll_ready client_poll_ready s =
     (if cursor_edges_defined s
      then (let (p, c) = client_poll_ready (inner_client s) in (p, s\<lparr>inner_client := c\<rparr>))
      else (Pending, s))"

definition cursor_call ::
    "('c \<Rightarrow> 'r \<Rightarrow> 'f \<times> 'c) \<Rightarrow> ('c, 'x) CursorClient \<Rightarrow> 'r \<Rightarrow> 'f \<times> ('c, 'x) CursorClient" where
  "cursor_call client_call s req =
     (let (f, c) = client_call (inner_client s) req in (f, s\<lparr>inner_client := c\<rparr>))"

section \<open>Invariant\<close>

definition shard_ok :: "ShardId \<Rightarrow> bool" where
  "shard_ok sid \<longleftrightarrow> word_of_int (snd sid) \<noteq> (0 :: u64)"

definition registry_inv :: "Registry \<Rightarrow> bool" where
  "registry_inv reg \<longleftrightarrow>
     (\<forall>chain ids. shard_registry reg chain = Some ids \<longrightarrow>
        distinct ids \<and> (\<forall>sid\<in>set ids. fst sid = chain \<and> shard_ok sid)) \<and>
     (\<forall>sid b. shard_bounds_registry reg sid = Some b \<longrightarrow>
        (\<exists>ids. shard_registry reg (fst sid) = Some ids \<and> sid \<in> set ids) \<and>
        (\<forall>h. left b = Some h \<or> right b = Some h \<longrightarrow> shard_id_of (header_id h) = sid))"

lemma registry_inv_default: "registry_inv registry_default"
  by (simp add: registry_inv_def registry_default_def)

lemma registry_inv_ids:
  "registry_inv reg \<Longrightarrow> shard_registry reg chain = Some ids \<Longrightarrow>
   distinct ids \<and> (\<forall>sid\<in>set ids. fst sid = chain \<and> shard_ok sid)"
  unfolding registry_inv_def by blast

lemma registry_inv_bounds:
  "registry_inv reg \<Longrightarrow> shard_bounds_registry reg sid = Some b \<Longrightarrow>
   (\<exists>ids. shard_registry reg (fst sid) = Some ids \<and> sid \<in> set ids) \<and>
   (\<forall>h. left b = Some h \<or> right b = Some h \<longrightarrow> shard_id_of (header_id h) = sid)"
  unfolding registry_inv_def by blast

lemma shard_registry_update:
  "shard_registry (update_shard_registry reg sid) chain =
     (if chain = fst sid
      then Some (let ids = case_option [] (\<lambda>ids. ids) (shard_registry reg chain)
                 in if sid \<in> set ids then ids else ids @ [sid])
      else shard_registry reg chain)"
  by (simp add: update_shard_registry_def Let_def)

lemma shard_bounds_update [simp]:
  "shard_bounds_registry (update_shard_registry reg sid) = shard_bounds_registry reg"
  by (simp add: update_shard_registry_def Let_def)

lemma shard_registry_mono:
  "shard_registry reg chain = Some ids \<Longrightarrow> x \<in> set ids \<Longrightarrow>
   \<exists>ids'. shard_registry (update_shard_registry reg sid) chain = Some ids' \<and> x \<in> set ids'"
  by (auto simp: shard_registry_update Let_def)

lemma update_shard_registry_inv:
  assumes "registry_inv reg" and "shard_ok sid"
  shows "registry_inv (update_shard_registry reg sid)"
    and "\<exists>ids. shard_registry (update_shard_registry reg sid) (fst sid) = Some ids \<and> sid \<in> set ids"
proof -
  show "\<exists>ids. shard_registry (update_shard_registry reg sid) (fst sid) = Some ids \<and> sid \<in> set ids"
    by (auto simp: shard_registry_update Let_def)
  have ids: "distinct ids \<and> (\<forall>x\<in>set ids. fst x = chain \<and> shard_ok x)"
    if "shard_registry (update_shard_registry reg sid) chain = Some ids" for chain ids
  proof (cases "chain = fst sid")
    case True
    let ?old = "case_option [] (\<lambda>ids. ids) (shard_registry reg chain)"
    have "distinct ?old \<and> (\<forall>x\<in>set ?old. fst x = chain \<and> shard_ok x)"
      using registry_inv_ids [OF assms(1), of chain] by (cases "shard_registry reg chain") simp_all
    moreover have "ids = (if sid \<in> set ?old then ?old else ?old @ [sid])"
      using that True unfolding shard_registry_update Let_def by (simp only: refl if_True option.inject)
    ultimately show ?thesis using True assms(2) by auto
  next
    case False
    with that show ?thesis using registry_inv_ids [OF assms(1)] by (simp add: shard_registry_update)
  qed
  have "\<exists>ids. shard_registry (update_shard_registry reg sid) (fst x) = Some ids \<and> x \<in> set ids"
    if "shard_bounds_registry reg x = Some b" for x b
    using registry_inv_bounds [OF assms(1) that] shard_registry_mono by blast
  with ids registry_inv_bounds [OF assms(1)] show "registry_inv (update_shard_registry reg sid)"
    unfolding registry_inv_def shard_bounds_update by blast
qed

lemma upsert_bounds_inv:
  assumes "registry_inv reg" and "shard_ok sid"
    and "\<And>h. left b = Some h \<or> right b = Some h \<Longrightarrow> shard_id_of (header_id h) = sid"
  shows "registry_inv (update_shard_registry reg sid
    \<lparr>shard_bounds_registry := (shard_bounds_registry (update_shard_registry reg sid))(sid \<mapsto> b)\<rparr>)"
  using update_shard_registry_inv [OF assms(1,2)] assms(3) by (auto simp: registry_inv_def)

lemma bounds_of_inv:
  "registry_inv reg \<Longrightarrow> shard_bounds_registry reg sid = Some b \<Longrightarrow> left b = Some h \<or> right b = Some h \<Longrightarrow>
   shard_id_of (header_id h) = sid"
  unfolding registry_inv_def by blast

lemma upsert_left_inv:
  "registry_inv reg \<Longrightarrow> shard_ok (shard_id_of (header_id h)) \<Longrightarrow> registry_inv (upsert_left reg h)"
  unfolding upsert_left_def Let_def shard_id_of_def [symmetric]
  by (rule upsert_bounds_inv)
    (auto simp: bounds_left_def update_shard_registry_inv dest: bounds_of_inv split: option.splits)

lemma upsert_right_inv:
  "registry_inv reg \<Longrightarrow> shard_ok (shard_id_of (header_id h)) \<Longrightarrow> registry_inv (upsert_right reg h)"
  unfolding upsert_right_def Let_def shard_id_of_def [symmetric]
  by (rule upsert_bounds_inv)
    (auto simp: bounds_right_def update_shard_registry_inv dest: bounds_of_inv split: option.splits)

lemma upsert_right_end_inv:
  "registry_inv reg \<Longrightarrow> shard_ok (shard_id_of bid) \<Longrightarrow> registry_inv (upsert_right_end reg bid)"
  unfolding upsert_right_end_def Let_def shard_id_of_def [symmetric]
  by (rule upsert_bounds_inv)
    (auto simp: bounds_right_end_def update_shard_registry_inv dest: bounds_of_inv split: option.splits)

lemmas registry_inv_intros =
  registry_inv_default upsert_left_inv upsert_right_inv upsert_right_end_inv

section \<open>Lookups\<close>

text \<open>What a registry holds of an address: the bounds of some shard of the chain that contains it.\<close>

definition in_shard :: "ShardId \<Rightarrow> bytes \<Rightarrow> bool" where
  "in_shard sid address \<longleftrightarrow>
     (\<forall>i. trailing_zeros (word_of_int (snd sid)) < i \<and> i < 64 \<longrightarrow>
        bit (address_head address) i = bit (word_of_int (snd sid) :: u64) i)"

context bitvec_crate
begin

lemma any_shard_spec:
  assumes "\<forall>sid\<in>set ids. shard_ok sid" and "length address = 32"
  shows "any_shard V reg address lt na ids =
    Some (\<exists>sid\<in>set ids. in_shard sid address \<and>
      (\<exists>b. shard_bounds_registry reg sid = Some b \<and> contains_lt b lt na))"
  using assms(1)
proof (induction ids)
  case (Cons sid ids)
  from Cons.prems have w: "word_of_int (snd sid) \<noteq> (0 :: u64)" by (simp add: shard_ok_def)
  obtain prefix where p: "from_shard_id V (word_of_int (snd sid)) = Some prefix"
    using from_shard_id_prefix [OF w] by simp
  have "matches V prefix address \<longleftrightarrow> in_shard sid address"
    using matches_iff [OF w _ p] assms(2) by (simp add: in_shard_def)
  with Cons p show ?case by (auto split: option.splits)
qed simp

lemma registry_contains_lt:
  assumes "registry_inv reg" and "length address = 32"
  shows "registry_contains V reg chain (LogicalTime address lt) na =
    Some (\<exists>sid b. fst sid = chain \<and> in_shard sid address \<and>
      shard_bounds_registry reg sid = Some b \<and> contains_lt b lt na)"
proof (cases "shard_registry reg chain")
  case None
  then show ?thesis
    using registry_inv_bounds [OF assms(1)] by (fastforce simp: registry_contains_def)
next
  case (Some ids)
  have "any_shard V reg address lt na ids =
      Some (\<exists>sid\<in>set ids. in_shard sid address \<and>
        (\<exists>b. shard_bounds_registry reg sid = Some b \<and> contains_lt b lt na))"
    by (rule any_shard_spec) (use registry_inv_ids [OF assms(1) Some] assms(2) in auto)
  also have "(\<exists>sid\<in>set ids. in_shard sid address \<and>
        (\<exists>b. shard_bounds_registry reg sid = Some b \<and> contains_lt b lt na)) \<longleftrightarrow>
      (\<exists>sid b. fst sid = chain \<and> in_shard sid address \<and>
        shard_bounds_registry reg sid = Some b \<and> contains_lt b lt na)"
    using registry_inv_ids [OF assms(1) Some] registry_inv_bounds [OF assms(1)] Some by fastforce
  finally show ?thesis using Some by (simp add: registry_contains_def)
qed

lemma registry_contains_seqno:
  "registry_contains V reg chain (Seqno sh q) na =
     Some (\<exists>b. shard_bounds_registry reg (chain, sh) = Some b \<and> contains_seqno b q na)"
  by (auto simp: registry_contains_def split: option.split)

end

text \<open>Bounds on which the larger range contains the smaller one.\<close>

definition bounds_ordered :: "ShardBounds \<Rightarrow> bool" where
  "bounds_ordered b \<longleftrightarrow>
     (\<forall>r. right b = Some r \<longrightarrow>
        (\<forall>e. right_end b = Some e \<longrightarrow> seqno (header_id r) \<le> e) \<and>
        0 \<le> start_lt r \<and> start_lt r \<le> end_lt r \<and> end_lt r < 2 ^ 62)"

lemma contains_seqno_not_available:
  "bounds_ordered b \<Longrightarrow> contains_seqno b q False \<Longrightarrow> contains_seqno b q True"
  by (auto simp: contains_seqno_def bounds_ordered_def split: option.splits)

lemma contains_lt_not_available:
  assumes "bounds_ordered b" and "contains_lt b lt False"
  shows "contains_lt b lt True"
proof -
  obtain l r where b: "left b = Some l" "right b = Some r"
    using assms(2) by (auto simp: contains_lt_def split: option.splits)
  with assms(1) have r: "0 \<le> start_lt r" "start_lt r \<le> end_lt r" "end_lt r < 2 ^ 62"
    by (auto simp: bounds_ordered_def)
  then have "wrap_i64 (end_lt r - start_lt r) = end_lt r - start_lt r"
    and "wrap_i64 (end_lt r + (end_lt r - start_lt r)) = end_lt r + (end_lt r - start_lt r)"
    by (intro wrap_i64_id; simp add: in_i64_def)+
  with b r assms(2) show ?thesis by (auto simp: contains_lt_def)
qed

text \<open>
  The contract of the trait \<open>Routed\<close> that the router relies on: a service that holds a block also
  knows it.
\<close>

locale routed_service =
  fixes R :: "'s routed" and ok :: "'s \<Rightarrow> bool"
  assumes contains_known: "ok s \<Longrightarrow> contains R s chain criteria \<Longrightarrow>
    (\<exists>sh q. criteria = Seqno sh q) \<or> length (criteria_address criteria) = 32 \<Longrightarrow>
    contains_not_available R s chain criteria"
begin

lemma router_falls_back_iff:
  assumes "\<forall>s\<in>set (router_values r). ok s"
    and "(\<exists>sh q. criteria = Seqno sh q) \<or> length (criteria_address criteria) = 32"
  shows "route_choose I R (Block chain criteria) (router_values r) = Err RouteUnknown \<longleftrightarrow>
    (\<forall>s\<in>set (router_values r). \<not> contains_not_available R s chain criteria)"
  using assms contains_known by (auto simp: choose_Block Let_def filter_empty_conv split: if_splits)

end

definition cursor_ok :: "('c, 'x) CursorClient \<Rightarrow> bool" where
  "cursor_ok s \<longleftrightarrow> registry_inv (registry s) \<and>
     (\<forall>sid b. shard_bounds_registry (registry s) sid = Some b \<longrightarrow> bounds_ordered b)"

context bitvec_crate
begin

lemma cursor_contains_known:
  assumes "cursor_ok s" and "contains (cursor_routed V) s chain criteria"
    and "(\<exists>sh q. criteria = Seqno sh q) \<or> length (criteria_address criteria) = 32"
  shows "contains_not_available (cursor_routed V) s chain criteria"
proof (cases criteria)
  case (Seqno sh q)
  with assms(1,2) show ?thesis
    by (auto simp: cursor_routed_def registry_contains_seqno cursor_ok_def contains_seqno_not_available)
next
  case (LogicalTime address lt)
  with assms(3) have "length address = 32" by auto
  with LogicalTime assms(1,2) show ?thesis
    by (auto simp: cursor_routed_def registry_contains_lt cursor_ok_def)
      (meson contains_lt_not_available)
qed

end

interpretation cursor_service: routed_service "cursor_routed std_bitvec" cursor_ok
  by unfold_locales (rule std_bits.cursor_contains_known)

section \<open>Registries the program builds\<close>

inductive built :: "Registry \<Rightarrow> bool" where
  built_default: "built registry_default"
| built_left: "built reg \<Longrightarrow> shard_ok (shard_id_of (header_id h)) \<Longrightarrow> built (upsert_left reg h)"
| built_right: "built reg \<Longrightarrow> shard_ok (shard_id_of (header_id h)) \<Longrightarrow> built (upsert_right reg h)"
| built_right_end: "built reg \<Longrightarrow> shard_ok (shard_id_of bid) \<Longrightarrow> built (upsert_right_end reg bid)"

lemma built_inv: "built reg \<Longrightarrow> registry_inv reg"
  by (induction rule: built.induct) (simp_all add: registry_inv_intros)

lemma bounds_upsert_left:
  "shard_bounds_registry (upsert_left reg h) = (shard_bounds_registry reg)(shard_id_of (header_id h) \<mapsto>
     (case shard_bounds_registry reg (shard_id_of (header_id h)) of
        Some b \<Rightarrow> b\<lparr>left := Some h\<rparr> | None \<Rightarrow> bounds_left h))"
  by (simp add: upsert_left_def Let_def shard_id_of_def)

lemma bounds_upsert_right:
  "shard_bounds_registry (upsert_right reg h) = (shard_bounds_registry reg)(shard_id_of (header_id h) \<mapsto>
     (case shard_bounds_registry reg (shard_id_of (header_id h)) of
        Some b \<Rightarrow> b\<lparr>right := Some h\<rparr> | None \<Rightarrow> bounds_right h))"
  by (simp add: upsert_right_def Let_def shard_id_of_def)

lemma bounds_upsert_right_end:
  "shard_bounds_registry (upsert_right_end reg bid) = (shard_bounds_registry reg)(shard_id_of bid \<mapsto>
     (case shard_bounds_registry reg (shard_id_of bid) of
        Some b \<Rightarrow> b\<lparr>right_end := Some (seqno bid)\<rparr> | None \<Rightarrow> bounds_right_end (seqno bid)))"
  by (simp add: upsert_right_end_def Let_def shard_id_of_def)

lemmas bounds_upsert = bounds_upsert_left bounds_upsert_right bounds_upsert_right_end

section \<open>Properties\<close>

text \<open>
  C16. In every registry built by the three upserts from blocks whose shard is not 0, a lookup by
  logical time never panics and finds exactly the shards of the chain that contain the address and
  whose bounds contain the logical time; a lookup by sequence number reads the bounds of the shard.
\<close>

theorem registry_contains_spec:
  assumes "bitvec_crate V" and "built reg" and "length address = 32"
  shows "registry_contains V reg chain (LogicalTime address lt) na =
      Some (\<exists>sid b. fst sid = chain \<and> in_shard sid address \<and>
        shard_bounds_registry reg sid = Some b \<and> contains_lt b lt na) \<and>
    registry_contains V reg chain (Seqno sh q) na =
      Some (\<exists>b. shard_bounds_registry reg (chain, sh) = Some b \<and> contains_seqno b q na)"
  using bitvec_crate.registry_contains_lt [OF assms(1) built_inv [OF assms(2)] assms(3)]
    bitvec_crate.registry_contains_seqno [OF assms(1)] by simp

definition example_block :: "i32 \<Rightarrow> TonBlockIdExt" where
  "example_block q = \<lparr>workchain = - 1, shard = - (2 ^ 63), seqno = q, root_hash = [], file_hash = []\<rparr>"

definition example_header :: "i32 \<Rightarrow> BlocksHeader" where
  "example_header q = plain_header (example_block q) (1000 * q) (1000 * q + 9)"

definition example_registry :: Registry where
  "example_registry = upsert_right (upsert_left registry_default (example_header 5)) (example_header 20)"

lemma shard_ok_example: "shard_ok (shard_id_of (example_block q))"
  by (simp add: shard_ok_def shard_id_of_def example_block_def)

lemma built_example: "built example_registry"
  by (simp add: example_registry_def built.intros shard_ok_example example_header_def)

lemma bounds_example:
  "shard_bounds_registry example_registry =
     [(- 1, - (2 ^ 63)) \<mapsto> \<lparr>left = Some (example_header 5), right = Some (example_header 20), right_end = None\<rparr>]"
  by (simp add: example_registry_def bounds_upsert registry_default_def bounds_left_def shard_id_of_def
      example_header_def example_block_def)

theorem registry_contains_spec_witness:
  "registry_contains std_bitvec example_registry (- 1) (LogicalTime (replicate 32 7) 12000) False = Some True \<and>
   registry_contains std_bitvec example_registry (- 1) (Seqno (- (2 ^ 63)) 21) False = Some False"
proof -
  have tz: "trailing_zeros (word_of_int (- (2 ^ 63)) :: u64) = 63"
  proof -
    have "word_of_int (- (2 ^ 63)) = (2 ^ 63 :: u64)" by simp
    moreover have "trailing_zeros (2 ^ 63 :: u64) = 63"
      by (rule trailing_zeros_eqI) (simp_all add: bit_exp_iff del: power_numeral)
    ultimately show ?thesis by (simp only:)
  qed
  have "in_shard (- 1, - (2 ^ 63)) (replicate 32 7)" unfolding in_shard_def snd_conv tz by auto
  with registry_contains_spec [OF std_bits.bitvec_crate_axioms built_example, of "replicate 32 7" "- 1" 12000 False "- (2 ^ 63)" 21]
  show ?thesis
    by (simp add: bounds_example contains_lt_def contains_seqno_def example_header_def example_block_def)
qed

text \<open>
  A lookup of a block by logical time in a shard, through either client's request, is routed to
  an address of that shard, so a registry whose bounds for the shard contain the logical time
  accepts it; and a lookup by sequence number is accepted exactly when the shard's bounds contain it.
\<close>

lemma lookup_routes_to_shard:
  assumes "bitvec_crate V" and "built reg" and "shard_bounds_registry reg (workchain bid, shard bid) = Some b"
    and "contains_lt b lt na"
  shows "(\<exists>c. to_route_BlocksLookupBlock (lookup_logical_time bid lt) = Block (workchain bid) c \<and>
      ls_to_route (LiteServerLookup (ls_lookup_seqno bid\<lparr>ls_lookup_lt := Some lt\<rparr>)) = Block (workchain bid) c \<and>
      registry_contains V reg (workchain bid) c na = Some True) \<and>
    (\<exists>c. to_route_BlocksLookupBlock (lookup_seqno bid) = Block (workchain bid) c \<and>
      ls_to_route (LiteServerLookup (ls_lookup_seqno bid)) = Block (workchain bid) c \<and>
      registry_contains V reg (workchain bid) c na = Some (contains_seqno b (seqno bid) na))"
proof
  let ?sid = "(workchain bid, shard bid)"
  have inv: "registry_inv reg" by (rule built_inv) (rule assms(2))
  have "shard_ok ?sid"
    using registry_inv_bounds [OF inv assms(3)] registry_inv_ids [OF inv] by auto
  then have "in_shard ?sid (shard_address (shard bid))"
    by (simp add: in_shard_def shard_address_def)
  then have "registry_contains V reg (workchain bid) (LogicalTime (shard_address (shard bid)) lt) na = Some True"
    using bitvec_crate.registry_contains_lt [OF assms(1) inv] assms(3,4) by fastforce
  then show "\<exists>c. to_route_BlocksLookupBlock (lookup_logical_time bid lt) = Block (workchain bid) c \<and>
      ls_to_route (LiteServerLookup (ls_lookup_seqno bid\<lparr>ls_lookup_lt := Some lt\<rparr>)) = Block (workchain bid) c \<and>
      registry_contains V reg (workchain bid) c na = Some True"
    by (simp add: to_route_BlocksLookupBlock_def lookup_logical_time_def ls_lookup_seqno_def
        to_route_LiteServerLookupBlock_def)
  show "\<exists>c. to_route_BlocksLookupBlock (lookup_seqno bid) = Block (workchain bid) c \<and>
      ls_to_route (LiteServerLookup (ls_lookup_seqno bid)) = Block (workchain bid) c \<and>
      registry_contains V reg (workchain bid) c na = Some (contains_seqno b (seqno bid) na)"
    using bitvec_crate.registry_contains_seqno [OF assms(1)] assms(3)
    by (simp add: to_route_BlocksLookupBlock_def lookup_seqno_def ls_lookup_seqno_def
        to_route_LiteServerLookupBlock_def)
qed

lemma lookup_routes_to_shard_witness:
  "\<exists>c. to_route_BlocksLookupBlock (lookup_logical_time \<lparr>workchain = - 1, shard = - (2 ^ 63), seqno = 12\<rparr> 12000)
      = Block (- 1) c \<and> registry_contains std_bitvec example_registry (- 1) c False = Some True"
  using lookup_routes_to_shard [OF std_bits.bitvec_crate_axioms built_example,
      of "\<lparr>workchain = - 1, shard = - (2 ^ 63), seqno = 12\<rparr>" _ 12000 False]
  by (auto simp: bounds_example contains_lt_def example_header_def)

text \<open>
  A router over these clients falls back to the latest block exactly when no client knows the
  requested block, provided their bounds are in order: a client that holds a block always knows it.
\<close>

lemma router_falls_back_iff_unknown:
  assumes "\<forall>s\<in>set (router_values r). cursor_ok s"
    and "(\<exists>sh q. criteria = Seqno sh q) \<or> length (criteria_address criteria) = 32"
  shows "route_choose I (cursor_routed std_bitvec) (Block chain criteria) (router_values r) = Err RouteUnknown \<longleftrightarrow>
    (\<forall>s\<in>set (router_values r). \<not> contains_not_available (cursor_routed std_bitvec) s chain criteria)"
  using assms by (rule cursor_service.router_falls_back_iff)

lemma router_falls_back_iff_unknown_witness:
  "route_choose std_itertools (cursor_routed std_bitvec) (Block (- 1) (Seqno (- (2 ^ 63)) 21))
     (router_values \<lparr>services = [(1 :: nat,
       \<lparr>inner_client = (), masterchain_info_rx = None :: unit BlocksMasterchainInfo option,
        registry = example_registry\<rparr>)]\<rparr>) = Err RouteUnknown"
proof -
  let ?s = "\<lparr>inner_client = (), masterchain_info_rx = None :: unit BlocksMasterchainInfo option,
    registry = example_registry\<rparr>"
  have ok: "cursor_ok ?s"
    by (simp add: cursor_ok_def built_inv built_example bounds_example bounds_ordered_def example_header_def)
  have "\<not> contains_not_available (cursor_routed std_bitvec) ?s (- 1) (Seqno (- (2 ^ 63)) 21)"
    by (simp add: cursor_routed_def registry_contains_def bounds_example contains_seqno_def
        example_header_def example_block_def)
  with router_falls_back_iff_unknown [of "\<lparr>services = [(1 :: nat, ?s)]\<rparr>" "Seqno (- (2 ^ 63)) 21" std_itertools "- 1"] ok
  show ?thesis by (simp add: router_values_def)
qed

text \<open>
  The client takes no request before the first masterchain block of its server is known, it
  then is ready when its inner client is, and the answer from the watch channel, given once it is
  ready, never panics.
\<close>

lemma ready_only_with_first_block:
  "cursor_poll_ready client_poll_ready s = (Ready x, s') \<Longrightarrow>
   (\<exists>info b h. masterchain_info_rx s = Some info \<and>
      shard_bounds_registry (registry s) (shard_id_of (last_block info)) = Some b \<and> left b = Some h \<and>
      info_call s = Some (Ok info)) \<and>
   fst (client_poll_ready (inner_client s)) = Ready x \<and> registry s' = registry s \<and>
   info_poll_ready s = Ready (Ok ())"
  by (auto simp: cursor_poll_ready_def cursor_edges_defined_def master_shard_id_def registry_edges_defined_def
      info_poll_ready_def info_call_def shard_id_of_def split: if_splits option.splits prod.splits)

lemma ready_only_with_first_block_witness:
  "\<exists>info. info_call
     \<lparr>inner_client = (), masterchain_info_rx = Some \<lparr>last_block = example_block 20, info_rest = ()\<rparr>,
      registry = example_registry\<rparr> = Some (Ok info :: (unit, unit BlocksMasterchainInfo) res)"
proof -
  let ?s = "\<lparr>inner_client = (), masterchain_info_rx = Some \<lparr>last_block = example_block 20, info_rest = ()\<rparr>,
    registry = example_registry\<rparr>"
  have "cursor_poll_ready (\<lambda>c. (Ready (Ok ()) :: (unit, unit) res poll, c)) ?s = (Ready (Ok ()), ?s)"
    by (simp add: cursor_poll_ready_def cursor_edges_defined_def master_shard_id_def
        registry_edges_defined_def bounds_example example_block_def)
  from ready_only_with_first_block [OF this] show ?thesis by auto
qed

end
