(* ===== verification/Cursor_Discover.thy ===== *)
theory Cursor_Discover
  imports Cursor
begin

text \<open>
  The background tasks that fill the registry, \<^verbatim>\<open>tonlibjson-client/src/cursor_client.rs\<close>: the binary
  search for the first block a server holds, the task that follows the last block, and the tasks
  that follow the shards. The server is the parameter \<open>server_ops\<close>: an answer to each request, which
  may change with the state of the server. Concurrent requests of \<open>try_join\<close> are asked in order.
  The two loops whose end depends on the server are partial functions; \<open>None\<close> is a loop that never
  ends. Delays between retries are not modelled; the number of attempts is.
\<close>

record ('c, 'e, 'x) server_ops =
  ask_lookup :: "'c \<Rightarrow> BlocksLookupBlock \<Rightarrow> ('e, TonBlockIdExt) res \<times> 'c"
  ask_shards :: "'c \<Rightarrow> TonBlockIdExt \<Rightarrow> ('e, TonBlockIdExt list) res \<times> 'c"
  ask_header :: "'c \<Rightarrow> TonBlockIdExt \<Rightarrow> ('e, BlocksHeader) res \<times> 'c"
  ask_masterchain_info :: "'c \<Rightarrow> ('e, 'x BlocksMasterchainInfo) res \<times> 'c"
  ask_sync :: "'c \<Rightarrow> ('e, TonBlockIdExt) res \<times> 'c"

section \<open>First block\<close>

fun try_join_all :: "('c, 'e, 'x) server_ops \<Rightarrow> 'c \<Rightarrow> TonBlockIdExt list \<Rightarrow> ('e, BlocksHeader list) res \<times> 'c" where
  "try_join_all S c [] = (Ok [], c)"
| "try_join_all S c (b # bs) =
     (case ask_header S c b of
        (Err e, c) \<Rightarrow> (Err e, c)
      | (Ok h, c) \<Rightarrow>
          (case try_join_all S c bs of
             (Err e, c) \<Rightarrow> (Err e, c)
           | (Ok hs, c) \<Rightarrow> (Ok (h # hs), c)))"

definition check_block_available ::
    "('c, 'e, 'x) server_ops \<Rightarrow> 'c \<Rightarrow> TonBlockId \<Rightarrow> ('e, BlocksHeader \<times> BlocksHeader list) res \<times> 'c" where
  "check_block_available S c block_id =
     (case ask_lookup S c (lookup_seqno block_id) of
        (Err e, c) \<Rightarrow> (Err e, c)
      | (Ok bid, c) \<Rightarrow>
          (case ask_shards S c bid of
             (Err e, c) \<Rightarrow> (Err e, c)
           | (Ok shards, c) \<Rightarrow>
               (case ask_header S c bid of
                  (Err e, c) \<Rightarrow> (Err e, c)
                | (Ok h, c) \<Rightarrow>
                    (case try_join_all S c shards of
                       (Err e, c) \<Rightarrow> (Err e, c)
                     | (Ok hs, c) \<Rightarrow> (Ok (h, hs), c)))))"

partial_function (option) find_loop ::
    "('c, 'e, 'x) server_ops \<Rightarrow> i32 \<Rightarrow> i64 \<Rightarrow> i32 \<Rightarrow> i32 \<Rightarrow> i32 \<Rightarrow>
     ('e, BlocksHeader \<times> BlocksHeader list) res \<Rightarrow> (BlocksHeader \<times> BlocksHeader list) option \<Rightarrow> 'c \<Rightarrow>
     (i32 \<times> ('e, BlocksHeader \<times> BlocksHeader list) res \<times> (BlocksHeader \<times> BlocksHeader list) option \<times> 'c) option"
  where
  "find_loop S wc sh lhs rhs cur block success c =
     (if lhs < rhs then
        let lhs' = (if is_ok block then lhs else wrap_i32 (cur + 1));
            rhs' = (if is_ok block then cur else rhs);
            cur' = rust_div (wrap_i32 (lhs' + rhs')) 2
        in if cur' = 0 then Some (cur', block, success, c)
           else
             let r = check_block_available S c \<lparr>workchain = wc, shard = sh, seqno = cur'\<rparr>
             in find_loop S wc sh lhs' rhs' cur' (fst r)
                  (case fst r of Ok b \<Rightarrow> Some b | Err _ \<Rightarrow> success) (snd r)
      else Some (cur, block, success, c))"

definition find_first_blocks ::
    "('c, 'e, 'x) server_ops \<Rightarrow> 'c \<Rightarrow> TonBlockIdExt \<Rightarrow> i32 option \<Rightarrow> i32 option \<Rightarrow>
     (('e, BlocksHeader \<times> BlocksHeader list) res \<times> 'c) option" where
  "find_first_blocks S c start lhs cur =
     (let rhs = seqno start;
          lhs = case_option 1 (\<lambda>l. l) lhs;
          cur = case_option (wrap_i32 (seqno start - 200000)) (\<lambda>k. k) cur;
          (block, c) = check_block_available S c \<lparr>workchain = workchain start, shard = shard start, seqno = cur\<rparr>
      in case find_loop S (workchain start) (shard start) lhs rhs cur block None c of
           None \<Rightarrow> None
         | Some (cur, block, success, c) \<Rightarrow>
             Some (case block of
                     Ok b \<Rightarrow> (Ok b, c)
                   | Err e \<Rightarrow>
                       (case success of
                          Some b \<Rightarrow> if wrap_i32 (seqno (header_id (fst b)) - cur) \<le> 4 then (Ok b, c) else (Err e, c)
                        | None \<Rightarrow> (Err e, c))))"

text \<open>\<open>FirstBlockDiscover::next\<close> and one turn of \<open>discover\<close>.\<close>

definition first_next ::
    "('c, 'e, 'x) server_ops \<Rightarrow> 'c \<Rightarrow> Registry \<Rightarrow> BlocksHeader option \<Rightarrow> TonBlockIdExt \<Rightarrow>
     (('e, BlocksHeader option) res \<times> 'c \<times> Registry) option" where
  "first_next S c reg current start =
     (let (still, c) =
        (case current of
           None \<Rightarrow> (False, c)
         | Some mfb \<Rightarrow> let (r, c) = ask_shards S c (header_id mfb) in (is_ok r, c))
      in if still then Some (Ok None, c, reg)
         else
           let lhs = map_option (\<lambda>n. wrap_i32 (seqno (header_id n) + 1)) current;
               cur = map_option (\<lambda>n. wrap_i32 (seqno (header_id n) + 32)) current
           in case find_first_blocks S c start lhs cur of
                None \<Rightarrow> None
              | Some (Err e, c) \<Rightarrow> Some (Err e, c, reg)
              | Some (Ok (mfb, wfb), c) \<Rightarrow> Some (Ok (Some mfb), c, foldl upsert_left (upsert_left reg mfb) wfb))"

definition first_discover_tick ::
    "('c, 'e, 'x) server_ops \<Rightarrow> 'c \<Rightarrow> Registry \<Rightarrow> BlocksHeader option \<Rightarrow> 'x BlocksMasterchainInfo option \<Rightarrow>
     (BlocksHeader option \<times> 'c \<times> Registry) option" where
  "first_discover_tick S c reg current rx =
     (case rx of
        None \<Rightarrow> Some (current, c, reg)
      | Some info \<Rightarrow>
          (case first_next S c reg current (last_block info) of
             None \<Rightarrow> None
           | Some (Ok (Some mfb), c, reg) \<Rightarrow> Some (Some mfb, c, reg)
           | Some (_, c, reg) \<Rightarrow> Some (current, c, reg)))"

section \<open>Last block\<close>

text \<open>\<open>Retry::spawn\<close> with a strategy of \<open>n\<close> delays makes at most \<open>n + 1\<close> attempts.\<close>

fun retry_spawn :: "nat \<Rightarrow> ('c \<Rightarrow> ('e, 'a) res \<times> 'c) \<Rightarrow> 'c \<Rightarrow> ('e, 'a) res \<times> 'c" where
  "retry_spawn 0 action c = action c"
| "retry_spawn (Suc n) action c =
     (case action c of (Ok a, c) \<Rightarrow> (Ok a, c) | (Err _, c) \<Rightarrow> retry_spawn n action c)"

definition wait_for_block_header ::
    "('c, 'e, 'x) server_ops \<Rightarrow> 'c \<Rightarrow> TonBlockIdExt \<Rightarrow> ('e, BlocksHeader) res \<times> 'c" where
  "wait_for_block_header S c block_id = retry_spawn 16 (\<lambda>c. ask_header S c block_id) c"

datatype 'e discover_error = ClientError 'e | SendError

record ('c, 'x) LastBlockDiscover =
  ld_client :: 'c
  ld_registry :: Registry
  ld_watch :: "'x BlocksMasterchainInfo option"
  ld_sent :: "TonBlockIdExt list"
  ld_receiver_alive :: bool

partial_function (option) last_loop ::
    "('c, 'e, 'x) server_ops \<Rightarrow> TonBlockIdExt \<Rightarrow> 'x BlocksMasterchainInfo \<Rightarrow> ('c, 'x) LastBlockDiscover \<Rightarrow>
     (('e discover_error, 'x BlocksMasterchainInfo option) res \<times> ('c, 'x) LastBlockDiscover) option" where
  "last_loop S lastb info st =
     (case registry_right_next (ld_registry st) (shard_id_of lastb) of
        None \<Rightarrow> Some (Ok (Some info), st)
      | Some q \<Rightarrow>
          let r = ask_lookup S (ld_client st)
                (lookup_seqno \<lparr>workchain = workchain lastb, shard = shard lastb, seqno = q\<rparr>)
          in case fst r of
               Err e \<Rightarrow> Some (Err (ClientError e), st\<lparr>ld_client := snd r\<rparr>)
             | Ok block_id \<Rightarrow>
                 let r = wait_for_block_header S (snd r) block_id
                 in case fst r of
                      Err e \<Rightarrow> Some (Err (ClientError e), st\<lparr>ld_client := snd r\<rparr>)
                    | Ok header \<Rightarrow>
                        if ld_receiver_alive st then
                          let info = info\<lparr>last_block := header_id header\<rparr>
                          in last_loop S lastb info
                               (st\<lparr>ld_client := snd r, ld_sent := ld_sent st @ [lastb],
                                   ld_registry := upsert_right (ld_registry st) header,
                                   ld_watch := Some info\<rparr>)
                        else Some (Err SendError, st\<lparr>ld_client := snd r\<rparr>))"

definition last_next ::
    "('c, 'e, 'x) server_ops \<Rightarrow> 'x BlocksMasterchainInfo option \<Rightarrow> ('c, 'x) LastBlockDiscover \<Rightarrow>
     (('e discover_error, 'x BlocksMasterchainInfo option) res \<times> ('c, 'x) LastBlockDiscover) option" where
  "last_next S current st =
     (case ask_masterchain_info S (ld_client st) of
        (Err e, c) \<Rightarrow> Some (Err (ClientError e), st\<lparr>ld_client := c\<rparr>)
      | (Ok info, c) \<Rightarrow>
          if current = Some info then Some (Ok None, st\<lparr>ld_client := c\<rparr>)
          else
            (case ask_sync S c of
               (Err e, c) \<Rightarrow> Some (Err (ClientError e), st\<lparr>ld_client := c\<rparr>)
             | (Ok lastb, c) \<Rightarrow>
                 last_loop S lastb info
                   (st\<lparr>ld_client := c, ld_registry := upsert_right_end (ld_registry st) lastb\<rparr>)))"

definition last_discover_tick ::
    "('c, 'e, 'x) server_ops \<Rightarrow> 'x BlocksMasterchainInfo option \<Rightarrow> ('c, 'x) LastBlockDiscover \<Rightarrow>
     ('x BlocksMasterchainInfo option \<times> ('c, 'x) LastBlockDiscover) option" where
  "last_discover_tick S current st =
     (case last_next S current st of
        None \<Rightarrow> None
      | Some (Ok (Some info), st) \<Rightarrow> Some (Some info, st)
      | Some (_, st) \<Rightarrow> Some (current, st))"

section \<open>The search finds the first block\<close>

text \<open>The server holds the masterchain blocks from \<open>t\<close> on, with their shards.\<close>

definition available_from :: "('c, 'e, 'x) server_ops \<Rightarrow> i32 \<Rightarrow> i64 \<Rightarrow> i32 \<Rightarrow> bool" where
  "available_from S wc sh t \<longleftrightarrow>
     (\<forall>c n. if t \<le> n
        then \<exists>m w. fst (check_block_available S c \<lparr>workchain = wc, shard = sh, seqno = n\<rparr>) = Ok (m, w) \<and>
               seqno (header_id m) = n
        else \<exists>e. fst (check_block_available S c \<lparr>workchain = wc, shard = sh, seqno = n\<rparr>) = Err e)"

definition block_at :: "i32 \<Rightarrow> i32 \<Rightarrow> ('e, BlocksHeader \<times> BlocksHeader list) res \<Rightarrow> bool" where
  "block_at t n block \<longleftrightarrow>
     (if t \<le> n then \<exists>m w. block = Ok (m, w) \<and> seqno (header_id m) = n else \<exists>e. block = Err e)"

lemma available_block_at:
  "available_from S wc sh t \<Longrightarrow>
   block_at t n (fst (check_block_available S c \<lparr>workchain = wc, shard = sh, seqno = n\<rparr>))"
  unfolding available_from_def block_at_def by blast

lemma midpoint:
  "0 \<le> l \<Longrightarrow> l \<le> r \<Longrightarrow> r < 2 ^ 30 \<Longrightarrow> rust_div (wrap_i32 (l + r)) 2 = (l + r) div 2"
  by (simp add: wrap_simps in_i32_def)

lemma find_loop_finds:
  assumes "available_from S wc sh t"
  shows "1 \<le> lhs \<Longrightarrow> lhs \<le> t \<Longrightarrow> t \<le> rhs \<Longrightarrow> rhs < 2 ^ 30 \<Longrightarrow> lhs \<le> cur \<Longrightarrow>
    cur < rhs \<or> lhs = rhs \<and> cur = rhs \<Longrightarrow> block_at t cur block \<Longrightarrow>
    \<exists>m w suc c'. find_loop S wc sh lhs rhs cur block success c = Some (t, Ok (m, w), suc, c') \<and>
      seqno (header_id m) = t"
proof (induction "nat (rhs - lhs)" arbitrary: lhs rhs cur block success c rule: less_induct)
  case less
  show ?case
  proof (cases "lhs < rhs")
    case False
    with less.prems show ?thesis by (subst find_loop.simps) (auto simp: block_at_def)
  next
    case True
    then have cur: "lhs \<le> cur" "cur < rhs" using less.prems by auto
    define l r where "l = (if is_ok block then lhs else cur + 1)" and "r = (if is_ok block then cur else rhs)"
    have ok: "is_ok block \<longleftrightarrow> t \<le> cur"
      using less.prems(7) by (auto simp: block_at_def split: if_splits)
    have lr: "1 \<le> l" "l \<le> t" "t \<le> r" "r < 2 ^ 30" "r - l < rhs - lhs"
      using less.prems(1-4) cur ok by (auto simp: l_def r_def)
    let ?k = "(l + r) div 2"
    have k: "l \<le> ?k" "?k < r \<or> l = r \<and> ?k = r" "?k \<noteq> 0" using lr by auto
    have "wrap_i32 (cur + 1) = cur + 1" using cur less.prems(1,4) by (intro wrap_i32_id) (simp add: in_i32_def)
    then have step: "find_loop S wc sh lhs rhs cur block success c =
        (let r' = check_block_available S c \<lparr>workchain = wc, shard = sh, seqno = ?k\<rparr>
         in find_loop S wc sh l r ?k (fst r') (case fst r' of Ok b \<Rightarrow> Some b | Err _ \<Rightarrow> success) (snd r'))"
      using True k(3) midpoint [of l r] lr
      by (subst find_loop.simps) (cases "is_ok block"; simp add: Let_def l_def r_def)
    show ?thesis
      unfolding step Let_def
      by (rule less.hyps) (use lr k available_block_at [OF assms] True in auto)
  qed
qed

lemma find_first_blocks_finds:
  assumes "available_from S (workchain start) (shard start) t"
    and "1 \<le> l" "l \<le> t" "t \<le> seqno start" "seqno start < 2 ^ 30" "l \<le> k" "k < seqno start"
    and "case_option 1 (\<lambda>l. l) lhs = l" and "case_option (wrap_i32 (seqno start - 200000)) (\<lambda>k. k) cur = k"
  shows "\<exists>m w c'. find_first_blocks S c start lhs cur = Some (Ok (m, w), c') \<and> seqno (header_id m) = t"
proof -
  let ?r = "check_block_available S c \<lparr>workchain = workchain start, shard = shard start, seqno = k\<rparr>"
  obtain m w suc c' where "find_loop S (workchain start) (shard start) l (seqno start) k (fst ?r) None (snd ?r) =
      Some (t, Ok (m, w), suc, c')" and "seqno (header_id m) = t"
    using find_loop_finds [OF assms(1), of l "seqno start" k "fst ?r" None "snd ?r"]
      available_block_at [OF assms(1)] assms(2-7) by auto
  with assms(8,9) show ?thesis by (auto simp: find_first_blocks_def split_beta)
qed

section \<open>The last block is reached\<close>

text \<open>A server that answers lookups and header requests with the block that was asked for.\<close>

definition honest :: "('c, 'e, 'x) server_ops \<Rightarrow> bool" where
  "honest S \<longleftrightarrow>
     (\<forall>c bid. \<exists>b c'. ask_lookup S c (lookup_seqno bid) = (Ok b, c') \<and> block_id_of_ext b = bid) \<and>
     (\<forall>c b. \<exists>h c'. ask_header S c b = (Ok h, c') \<and> header_id h = b)"

lemma retry_spawn_Ok: "action c = (Ok a, c') \<Longrightarrow> retry_spawn n action c = (Ok a, c')"
  by (cases n) auto

lemma right_next_cases:
  "shard_bounds_registry reg sid = Some b \<Longrightarrow> right_end b = Some e \<Longrightarrow>
   registry_right_next reg sid =
     (case get_last_seqno reg sid of
        None \<Rightarrow> Some e
      | Some q \<Rightarrow> if q < e then Some (wrap_i32 (q + 1)) else None)"
  by (simp add: registry_right_next_def bounds_right_next_def get_last_seqno_def split: option.split)

lemma last_loop_step:
  assumes "honest S" and "ld_receiver_alive st"
    and "registry_right_next (ld_registry st) (shard_id_of lb) = Some q"
  shows "\<exists>h c. shard_id_of (header_id h) = shard_id_of lb \<and> seqno (header_id h) = q \<and>
    last_loop S lb info st = last_loop S lb (info\<lparr>last_block := header_id h\<rparr>)
      (st\<lparr>ld_client := c, ld_sent := ld_sent st @ [lb], ld_registry := upsert_right (ld_registry st) h,
          ld_watch := Some (info\<lparr>last_block := header_id h\<rparr>)\<rparr>)"
proof -
  let ?id = "\<lparr>workchain = workchain lb, shard = shard lb, seqno = q\<rparr>"
  obtain b c1 where b: "ask_lookup S (ld_client st) (lookup_seqno ?id) = (Ok b, c1)" "block_id_of_ext b = ?id"
    using assms(1) unfolding honest_def by blast
  obtain h c2 where h: "ask_header S c1 b = (Ok h, c2)" "header_id h = b"
    using assms(1) unfolding honest_def by blast
  have "wait_for_block_header S c1 b = (Ok h, c2)"
    unfolding wait_for_block_header_def by (rule retry_spawn_Ok) (rule h(1))
  with b h assms(2,3) show ?thesis
    by (intro exI [of _ h] exI [of _ c2], subst last_loop.simps)
      (auto simp: block_id_of_ext_def shard_id_of_def Let_def)
qed

lemma upsert_right_same_shard:
  assumes "shard_bounds_registry reg sid = Some b" and "shard_id_of (header_id h) = sid"
  shows "shard_bounds_registry (upsert_right reg h) sid = Some (b\<lparr>right := Some h\<rparr>)"
    and "get_last_seqno (upsert_right reg h) sid = Some (seqno (header_id h))"
  using assms by (simp_all add: bounds_upsert_right get_last_seqno_def)

text \<open>The loop from a registry whose last header is \<open>q\<close>: \<open>n\<close> more turns.\<close>

lemma last_loop_runs:
  assumes "honest S" and "in_i32 e"
  shows "ld_receiver_alive st \<Longrightarrow> shard_bounds_registry (ld_registry st) (shard_id_of lb) = Some b \<Longrightarrow>
    right_end b = Some e \<Longrightarrow> get_last_seqno (ld_registry st) (shard_id_of lb) = Some q \<Longrightarrow>
    in_i32 q \<Longrightarrow> n = nat (e - q) \<Longrightarrow> q \<le> e \<Longrightarrow> seqno (last_block info) = q \<and> ld_watch st = Some info \<Longrightarrow>
    \<exists>info' st'. last_loop S lb info st = Some (Ok (Some info'), st') \<and>
      get_last_seqno (ld_registry st') (shard_id_of lb) = Some e \<and>
      seqno (last_block info') = e \<and> ld_watch st' = Some info' \<and>
      ld_sent st' = ld_sent st @ replicate n lb"
proof (induction n arbitrary: st info q b)
  case 0
  then have "q = e" by simp
  with 0 have "registry_right_next (ld_registry st) (shard_id_of lb) = None" by (simp add: right_next_cases)
  with 0 \<open>q = e\<close> show ?case by (subst last_loop.simps) auto
next
  case (Suc n)
  then have "q < e" by simp
  moreover from this have wq: "wrap_i32 (q + 1) = q + 1" and iq: "in_i32 (q + 1)"
    using assms(2) Suc.prems(5) by (simp_all add: in_i32_def wrap_i32_id)
  ultimately have "registry_right_next (ld_registry st) (shard_id_of lb) = Some (q + 1)"
    using Suc.prems by (simp add: right_next_cases)
  from last_loop_step [OF assms(1) Suc.prems(1) this, of info] obtain h c where
    h: "shard_id_of (header_id h) = shard_id_of lb" "seqno (header_id h) = q + 1" and
    step: "last_loop S lb info st = last_loop S lb (info\<lparr>last_block := header_id h\<rparr>)
      (st\<lparr>ld_client := c, ld_sent := ld_sent st @ [lb], ld_registry := upsert_right (ld_registry st) h,
          ld_watch := Some (info\<lparr>last_block := header_id h\<rparr>)\<rparr>)"
    by blast
  let ?st = "st\<lparr>ld_client := c, ld_sent := ld_sent st @ [lb], ld_registry := upsert_right (ld_registry st) h,
    ld_watch := Some (info\<lparr>last_block := header_id h\<rparr>)\<rparr>"
  note up = upsert_right_same_shard [OF Suc.prems(2) h(1)]
  have "n = nat (e - (q + 1))" using Suc.prems(6) \<open>q < e\<close> by simp
  then have "\<exists>info' st'. last_loop S lb (info\<lparr>last_block := header_id h\<rparr>) ?st = Some (Ok (Some info'), st') \<and>
      get_last_seqno (ld_registry st') (shard_id_of lb) = Some e \<and>
      seqno (last_block info') = e \<and> ld_watch st' = Some info' \<and>
      ld_sent st' = ld_sent ?st @ replicate n lb"
    using Suc.prems(1,3) up h(2) iq \<open>q < e\<close>
    by (intro Suc.IH [of ?st "b\<lparr>right := Some h\<rparr>" "q + 1"]) simp_all
  with step show ?case by auto
qed

lemma last_next_reaches:
  assumes "honest S" and "ld_receiver_alive st"
    and "ask_masterchain_info S (ld_client st) = (Ok info, c1)" and "current \<noteq> Some info"
    and "ask_sync S c1 = (Ok lb, c2)" and e: "in_i32 (seqno lb)"
    and q: "case get_last_seqno (ld_registry st) (shard_id_of lb) of
        None \<Rightarrow> n = 1 | Some q \<Rightarrow> in_i32 q \<and> q < seqno lb \<and> n = nat (seqno lb - q)"
  shows "\<exists>info' st'. last_next S current st = Some (Ok (Some info'), st') \<and>
      get_last_seqno (ld_registry st') (shard_id_of lb) = Some (seqno lb) \<and>
      seqno (last_block info') = seqno lb \<and> ld_watch st' = Some info' \<and>
      ld_sent st' = ld_sent st @ replicate n lb"
proof -
  let ?sid = "shard_id_of lb"
  let ?st = "st\<lparr>ld_client := c2, ld_registry := upsert_right_end (ld_registry st) lb\<rparr>"
  have nxt: "last_next S current st = last_loop S lb info ?st"
    using assms(3-5) by (simp add: last_next_def)
  obtain b where b: "shard_bounds_registry (ld_registry ?st) ?sid = Some b" "right_end b = Some (seqno lb)"
    and old: "get_last_seqno (ld_registry ?st) ?sid = get_last_seqno (ld_registry st) ?sid"
    by (auto simp: bounds_upsert get_last_seqno_def bounds_right_end_def split: option.splits)
  define k where "k = (case get_last_seqno (ld_registry st) ?sid of None \<Rightarrow> seqno lb | Some q \<Rightarrow> q + 1)"
  have k: "in_i32 k" "k \<le> seqno lb" "n = Suc (nat (seqno lb - k))"
    using q e by (auto simp: k_def in_i32_def split: option.splits)
  have "registry_right_next (ld_registry ?st) ?sid = Some k"
    using right_next_cases [OF b] old q k(1) by (auto simp: k_def wrap_simps split: option.splits)
  from last_loop_step [OF assms(1) _ this, of info] assms(2) obtain h c where
    h: "shard_id_of (header_id h) = ?sid" "seqno (header_id h) = k" and
    step: "last_loop S lb info ?st = last_loop S lb (info\<lparr>last_block := header_id h\<rparr>)
      (?st\<lparr>ld_client := c, ld_sent := ld_sent ?st @ [lb], ld_registry := upsert_right (ld_registry ?st) h,
          ld_watch := Some (info\<lparr>last_block := header_id h\<rparr>)\<rparr>)"
    by auto
  note up = upsert_right_same_shard [OF b(1) h(1)]
  have "\<exists>info' st'. last_loop S lb info ?st = Some (Ok (Some info'), st') \<and>
      get_last_seqno (ld_registry st') ?sid = Some (seqno lb) \<and>
      seqno (last_block info') = seqno lb \<and> ld_watch st' = Some info' \<and>
      ld_sent st' = (ld_sent st @ [lb]) @ replicate (nat (seqno lb - k)) lb"
    unfolding step
    using last_loop_runs [OF assms(1) e, of
        "?st\<lparr>ld_client := c, ld_sent := ld_sent ?st @ [lb], ld_registry := upsert_right (ld_registry ?st) h,
          ld_watch := Some (info\<lparr>last_block := header_id h\<rparr>)\<rparr>" lb "b\<lparr>right := Some h\<rparr>" k _
        "info\<lparr>last_block := header_id h\<rparr>"] up h(2) b(2) k(1,2) assms(2) by simp
  then show ?thesis unfolding nxt k(3) by simp
qed

section \<open>Properties\<close>

text \<open>A server that holds the masterchain blocks whose number satisfies \<open>P\<close>.\<close>

definition example_server :: "(i32 \<Rightarrow> bool) \<Rightarrow> (unit, string, unit) server_ops" where
  "example_server P = \<lparr>
     ask_lookup = (\<lambda>c r. (if P (seqno (lookup_id r))
       then Ok \<lparr>workchain = workchain (lookup_id r), shard = shard (lookup_id r), seqno = seqno (lookup_id r),
                root_hash = [], file_hash = []\<rparr>
       else Err ''block not found'', c)),
     ask_shards = (\<lambda>c b. (Ok [], c)),
     ask_header = (\<lambda>c b. (Ok (plain_header b 0 0), c)),
     ask_masterchain_info = (\<lambda>c. (Ok \<lparr>last_block = example_block 7, info_rest = ()\<rparr>, c)),
     ask_sync = (\<lambda>c. (Ok (example_block 9), c))\<rparr>"

lemma available_example: "available_from (example_server (\<lambda>n. t \<le> n)) wc sh t"
  by (simp add: available_from_def check_block_available_def example_server_def lookup_seqno_def)

lemma honest_example: "honest (example_server (\<lambda>n. True))"
  by (auto simp: honest_def example_server_def lookup_seqno_def block_id_of_ext_def)

text \<open>
  C14. The binary search ends and returns exactly the first block of a server that holds the
  masterchain blocks from \<open>t\<close> on, from any interval that contains \<open>t\<close> and any first guess inside it,
  for chains of less than \<open>2 ^ 30\<close> blocks.
\<close>

theorem find_first_blocks_correct:
  assumes "available_from S (workchain start) (shard start) t"
    and "case_option 1 (\<lambda>l. l) lhs = l" and "case_option (wrap_i32 (seqno start - 200000)) (\<lambda>k. k) cur = k"
    and "1 \<le> l" and "l \<le> t" and "t \<le> seqno start" and "seqno start < 2 ^ 30" and "l \<le> k" and "k < seqno start"
  shows "\<exists>m w c'. find_first_blocks S c start lhs cur = Some (Ok (m, w), c') \<and> seqno (header_id m) = t"
  using assms by (intro find_first_blocks_finds)

theorem find_first_blocks_correct_witness:
  "\<exists>m w c'. find_first_blocks (example_server (\<lambda>n. 123456 \<le> n)) () (example_block 1000000) None None =
     Some (Ok (m, w), c') \<and> seqno (header_id m) = 123456"
  by (rule find_first_blocks_correct [OF available_example, where l = 1 and k = 800000])
    (simp_all add: example_block_def wrap_i32_id in_i32_def)

text \<open>
  The search misses the first block of a chain of 99999 or 100000 blocks: the first guess lies
  below block 1, the next midpoint is 0, and the loop stops there with the error of the first guess,
  although every block from \<open>t\<close> on is there.
\<close>

lemma find_first_blocks_misses:
  assumes "available_from S (workchain start) (shard start) t" and "1 \<le> t"
    and "seqno start = 99999 \<or> seqno start = 100000"
  shows "\<exists>e c'. find_first_blocks S c start None None = Some (Err e, c')"
proof -
  let ?k = "wrap_i32 (seqno start - 200000)"
  let ?r = "check_block_available S c \<lparr>workchain = workchain start, shard = shard start, seqno = ?k\<rparr>"
  have k: "?k = seqno start - 200000" using assms(3) by (intro wrap_i32_id) (auto simp: in_i32_def)
  obtain e where e: "fst ?r = Err e"
    using available_block_at [OF assms(1), of ?k c] assms(2,3) k by (auto simp: block_at_def)
  have "rust_div (wrap_i32 (wrap_i32 (?k + 1) + seqno start)) 2 = 0"
    using assms(3) unfolding k by (auto simp: wrap_i32_def rust_div_def)
  then have "find_loop S (workchain start) (shard start) 1 (seqno start) ?k (fst ?r) None (snd ?r) =
      Some (0, fst ?r, None, snd ?r)"
    using e assms(3) by (subst find_loop.simps) (auto simp: Let_def)
  with e show ?thesis by (simp add: find_first_blocks_def split_beta Let_def)
qed

lemma find_first_blocks_misses_witness:
  "\<exists>e c'. find_first_blocks (example_server (\<lambda>n. 1 \<le> n)) () (example_block 100000) None None = Some (Err e, c')"
  by (rule find_first_blocks_misses [OF available_example]) (simp_all add: example_block_def)

text \<open>
  C15. Against a server that answers lookups and headers with the block asked for, following the
  last block ends, and ends with the registry and the watch channel at the block the server is
  synchronised with; the task of the shards is told of that block once for every block caught up
  with, and never of the blocks between. This is for a turn at which that task still receives, the
  server's state differs from the one seen last, and the registry is behind the synchronised block.
\<close>

theorem last_next_catches_up:
  assumes "honest S" and "ld_receiver_alive st"
    and "ask_masterchain_info S (ld_client st) = (Ok info, c1)" and "current \<noteq> Some info"
    and "ask_sync S c1 = (Ok lb, c2)" and "in_i32 (seqno lb)"
    and "case get_last_seqno (ld_registry st) (shard_id_of lb) of
        None \<Rightarrow> n = 1 | Some q \<Rightarrow> in_i32 q \<and> q < seqno lb \<and> n = nat (seqno lb - q)"
  shows "\<exists>info' st'. last_next S current st = Some (Ok (Some info'), st') \<and>
      get_last_seqno (ld_registry st') (shard_id_of lb) = Some (seqno lb) \<and>
      seqno (last_block info') = seqno lb \<and> ld_watch st' = Some info' \<and>
      ld_sent st' = ld_sent st @ replicate n lb"
  using assms by (rule last_next_reaches)

theorem last_next_catches_up_witness:
  "\<exists>info' st'. last_next (example_server (\<lambda>n. True)) None
     \<lparr>ld_client = (), ld_registry = upsert_right registry_default (example_header 6), ld_watch = None,
      ld_sent = [], ld_receiver_alive = True\<rparr> = Some (Ok (Some info'), st') \<and>
     ld_sent st' = [example_block 9, example_block 9, example_block 9]"
proof -
  let ?st = "\<lparr>ld_client = (), ld_registry = upsert_right registry_default (example_header 6), ld_watch = None,
    ld_sent = [], ld_receiver_alive = True\<rparr>"
  have "get_last_seqno (ld_registry ?st) (shard_id_of (example_block 9)) = Some 6"
    by (simp add: get_last_seqno_def bounds_upsert registry_default_def bounds_right_def shard_id_of_def
        example_header_def example_block_def)
  moreover have "seqno (example_block 9) = 9" by (simp add: example_block_def)
  ultimately show ?thesis
    using last_next_catches_up [OF honest_example, of ?st "\<lparr>last_block = example_block 7, info_rest = ()\<rparr>" "()" None
        "example_block 9" "()" 3]
    by (auto simp: example_server_def in_i32_def numeral_3_eq_3)
qed

end
