(* ===== verification/Shard_Tasks.thy ===== *)
theory Shard_Tasks
  imports Cursor_Discover
begin

text \<open>
  The tasks of \<open>LastBlockDiscover\<close> in \<^verbatim>\<open>tonlibjson-client/src/cursor_client.rs\<close>, running together. The
  first follows the last block of the masterchain and hands the block the server is synchronised
  with to the second, which asks for its shards and hands every shard block to the task of its shard,
  spawned when the shard is new; a shard's task asks for the header and moves the shard's right bound.
  An unbounded channel is the list of the messages in it; a shard's task keeps its number after its
  sender is dropped, and then drains its channel. A step is one turn of the loop of one task: the
  only registry entry a task reads before it waits for the server and writes after is that of the
  masterchain, which no other task moves. The steps of the first task are those of \<open>last_next\<close> (lemma
  \<open>discover_turn_last_loop\<close>). The task that moves the left bounds is \<open>first_next\<close>.
\<close>

record ('c, 'x) ShardTasks =
  tk_client :: 'c
  tk_registry :: Registry
  tk_current :: "'x BlocksMasterchainInfo option"
  tk_watch :: "'x BlocksMasterchainInfo option"
  tk_follow :: "(TonBlockIdExt \<times> 'x BlocksMasterchainInfo) option" \<comment> \<open>inside the loop of \<open>next\<close>\<close>
  tk_inbox :: "TonBlockIdExt list"
  tk_channels :: "(ShardId \<times> nat) list"
  tk_queues :: "TonBlockIdExt list list"

definition tasks_new :: "'c \<Rightarrow> Registry \<Rightarrow> ('c, 'x) ShardTasks" where
  "tasks_new c reg = \<lparr>tk_client = c, tk_registry = reg, tk_current = None, tk_watch = None, tk_follow = None,
     tk_inbox = [], tk_channels = [], tk_queues = []\<rparr>"

text \<open>\<open>next\<close> up to its loop, as \<open>discover\<close> calls it at a tick.\<close>

definition discover_start :: "('c, 'e, 'x) server_ops \<Rightarrow> ('c, 'x) ShardTasks \<Rightarrow> ('c, 'x) ShardTasks" where
  "discover_start S st =
     (case ask_masterchain_info S (tk_client st) of
        (Err _, c) \<Rightarrow> st\<lparr>tk_client := c\<rparr>
      | (Ok info, c) \<Rightarrow>
          if tk_current st = Some info then st\<lparr>tk_client := c\<rparr>
          else
            (case ask_sync S c of
               (Err _, c) \<Rightarrow> st\<lparr>tk_client := c\<rparr>
             | (Ok lastb, c) \<Rightarrow>
                 st\<lparr>tk_client := c, tk_registry := upsert_right_end (tk_registry st) lastb,
                    tk_follow := Some (lastb, info)\<rparr>))"

text \<open>One turn of the loop of \<open>next\<close>, and what \<open>discover\<close> does when the loop returns.\<close>

definition discover_turn ::
    "('c, 'e, 'x) server_ops \<Rightarrow> ('c, 'x) ShardTasks \<Rightarrow> TonBlockIdExt \<Rightarrow> 'x BlocksMasterchainInfo \<Rightarrow> ('c, 'x) ShardTasks" where
  "discover_turn S st lastb info =
     (case registry_right_next (tk_registry st) (shard_id_of lastb) of
        None \<Rightarrow> st\<lparr>tk_current := Some info, tk_follow := None\<rparr>
      | Some q \<Rightarrow>
          (case ask_lookup S (tk_client st) (lookup_seqno \<lparr>workchain = workchain lastb, shard = shard lastb, seqno = q\<rparr>) of
             (Err _, c) \<Rightarrow> st\<lparr>tk_client := c, tk_follow := None\<rparr>
           | (Ok block_id, c) \<Rightarrow>
               (case wait_for_block_header S c block_id of
                  (Err _, c) \<Rightarrow> st\<lparr>tk_client := c, tk_follow := None\<rparr>
                | (Ok header, c) \<Rightarrow>
                    (let info = info\<lparr>last_block := header_id header\<rparr>
                     in st\<lparr>tk_client := c, tk_inbox := tk_inbox st @ [lastb],
                          tk_registry := upsert_right (tk_registry st) header,
                          tk_watch := Some info, tk_follow := Some (lastb, info)\<rparr>))))"

definition announce_shard :: "('c, 'x) ShardTasks \<Rightarrow> TonBlockIdExt \<Rightarrow> ('c, 'x) ShardTasks" where
  "announce_shard st bid =
     (let st = st\<lparr>tk_registry := upsert_right_end (tk_registry st) bid\<rparr>;
          sid = shard_id_of bid
      in case map_of (tk_channels st) sid of
           Some i \<Rightarrow> st\<lparr>tk_queues := (tk_queues st)[i := tk_queues st ! i @ [bid]]\<rparr>
         | None \<Rightarrow> st\<lparr>tk_channels := tk_channels st @ [(sid, length (tk_queues st))],
                     tk_queues := tk_queues st @ [[bid]]\<rparr>)"

definition master_received :: "('c, 'e, 'x) server_ops \<Rightarrow> ('c, 'x) ShardTasks \<Rightarrow> TonBlockIdExt \<Rightarrow> ('c, 'x) ShardTasks" where
  "master_received S st block_id =
     (let (r, c) = retry_spawn 8 (\<lambda>c. ask_shards S c block_id) (tk_client st);
          st = st\<lparr>tk_client := c\<rparr>
      in case r of
           Err _ \<Rightarrow> st
         | Ok shards \<Rightarrow>
             (let st = foldl announce_shard st shards
              in st\<lparr>tk_channels := filter (\<lambda>(sid, _). sid \<in> set (map shard_id_of shards)) (tk_channels st)\<rparr>))"

definition shard_received :: "('c, 'e, 'x) server_ops \<Rightarrow> ('c, 'x) ShardTasks \<Rightarrow> TonBlockIdExt \<Rightarrow> ('c, 'x) ShardTasks" where
  "shard_received S st block_id =
     (let (r, c) = retry_spawn 16 (\<lambda>c. ask_header S c block_id) (tk_client st);
          st = st\<lparr>tk_client := c\<rparr>
      in case r of
           Ok header \<Rightarrow> st\<lparr>tk_registry := upsert_right (tk_registry st) header\<rparr>
         | Err _ \<Rightarrow> st)"

inductive tk_step :: "('c, 'e, 'x) server_ops \<Rightarrow> ('c, 'x) ShardTasks \<Rightarrow> ('c, 'x) ShardTasks \<Rightarrow> bool" for S where
  start: "tk_follow st = None \<Longrightarrow> tk_step S st (discover_start S st)"
| turn: "tk_follow st = Some (lastb, info) \<Longrightarrow> tk_step S st (discover_turn S st lastb info)"
| master: "tk_inbox st = b # rest \<Longrightarrow> tk_step S st (master_received S (st\<lparr>tk_inbox := rest\<rparr>) b)"
| shard_task: "i < length (tk_queues st) \<Longrightarrow> tk_queues st ! i = b # rest \<Longrightarrow>
    tk_step S st (shard_received S (st\<lparr>tk_queues := (tk_queues st)[i := rest]\<rparr>) b)"

inductive_cases tk_stepE: "tk_step S st st'"

section \<open>Invariant\<close>

text \<open>The server names no shard 0, and answers a header request with the block asked for.\<close>

definition shards_named :: "('c, 'e, 'x) server_ops \<Rightarrow> bool" where
  "shards_named S \<longleftrightarrow>
     (\<forall>c b shards c'. ask_shards S c b = (Ok shards, c') \<longrightarrow> (\<forall>s\<in>set shards. shard_ok (shard_id_of s))) \<and>
     (\<forall>c b c'. ask_sync S c = (Ok b, c') \<longrightarrow> shard_ok (shard_id_of b)) \<and>
     (\<forall>c r b c'. ask_lookup S c r = (Ok b, c') \<longrightarrow> shard_ok (shard_id_of b)) \<and>
     (\<forall>c b h c'. ask_header S c b = (Ok h, c') \<longrightarrow> header_id h = b)"

lemma shards_namedD:
  assumes "shards_named S"
  shows "ask_shards S c b = (Ok shards, c') \<Longrightarrow> s \<in> set shards \<Longrightarrow> shard_ok (shard_id_of s)"
    and "ask_sync S c = (Ok b, c') \<Longrightarrow> shard_ok (shard_id_of b)"
    and "ask_lookup S c r = (Ok b, c') \<Longrightarrow> shard_ok (shard_id_of b)"
    and "ask_header S c b = (Ok h, c') \<Longrightarrow> header_id h = b"
  using assms unfolding shards_named_def by blast+

definition one_shard :: "ShardId \<Rightarrow> TonBlockIdExt list \<Rightarrow> bool" where
  "one_shard sid q \<longleftrightarrow> shard_ok sid \<and> (\<forall>b\<in>set q. shard_id_of b = sid)"

definition tk_inv :: "('c, 'x) ShardTasks \<Rightarrow> bool" where
  "tk_inv st \<longleftrightarrow> registry_inv (tk_registry st) \<and>
     distinct (map fst (tk_channels st)) \<and> distinct (map snd (tk_channels st)) \<and>
     (\<forall>(sid, i) \<in> set (tk_channels st). i < length (tk_queues st) \<and> one_shard sid (tk_queues st ! i)) \<and>
     (\<forall>q \<in> set (tk_queues st). \<exists>sid. one_shard sid q)"

lemma tk_invI:
  assumes "registry_inv (tk_registry st)"
    and "distinct (map fst (tk_channels st))" "distinct (map snd (tk_channels st))"
    and "\<And>sid i. (sid, i) \<in> set (tk_channels st) \<Longrightarrow> i < length (tk_queues st) \<and> one_shard sid (tk_queues st ! i)"
    and "\<And>q. q \<in> set (tk_queues st) \<Longrightarrow> \<exists>sid. one_shard sid q"
  shows "tk_inv st"
  using assms unfolding tk_inv_def by blast

lemma tk_invD:
  assumes "tk_inv st"
  shows "registry_inv (tk_registry st)"
    and "distinct (map fst (tk_channels st))" "distinct (map snd (tk_channels st))"
    and "(sid, i) \<in> set (tk_channels st) \<Longrightarrow> i < length (tk_queues st)"
    and "(sid, i) \<in> set (tk_channels st) \<Longrightarrow> one_shard sid (tk_queues st ! i)"
    and "q \<in> set (tk_queues st) \<Longrightarrow> \<exists>sid. one_shard sid q"
  using assms unfolding tk_inv_def by blast+

lemma retry_spawn_last:
  "retry_spawn n action c = (Ok a, c') \<Longrightarrow> \<exists>c0. action c0 = (Ok a, c')"
  by (induction n action c rule: retry_spawn.induct) (auto split: prod.splits res.splits)

lemma tk_inv_new: "registry_inv reg \<Longrightarrow> tk_inv (tasks_new c reg)"
  by (simp add: tk_inv_def tasks_new_def)

lemma announce_shard_inv:
  assumes inv: "tk_inv st" and ok: "shard_ok (shard_id_of b)"
  shows "tk_inv (announce_shard st b)"
proof (cases "map_of (tk_channels st) (shard_id_of b)")
  case None
  let ?st = "announce_shard st b"
  have st: "tk_registry ?st = upsert_right_end (tk_registry st) b"
    "tk_channels ?st = tk_channels st @ [(shard_id_of b, length (tk_queues st))]"
    "tk_queues ?st = tk_queues st @ [[b]]"
    using None by (simp_all add: announce_shard_def Let_def)
  have new: "one_shard (shard_id_of b) [b]" using ok by (simp add: one_shard_def)
  show ?thesis
  proof (rule tk_invI, unfold st)
    show "registry_inv (upsert_right_end (tk_registry st) b)"
      using inv ok by (intro upsert_right_end_inv tk_invD)
    show "distinct (map fst (tk_channels st @ [(shard_id_of b, length (tk_queues st))]))"
      using None tk_invD(2) [OF inv] by (auto simp: map_of_eq_None_iff)
    show "distinct (map snd (tk_channels st @ [(shard_id_of b, length (tk_queues st))]))"
      using tk_invD(3,4) [OF inv] by fastforce
    show "i < length (tk_queues st @ [[b]]) \<and> one_shard sid ((tk_queues st @ [[b]]) ! i)"
      if "(sid, i) \<in> set (tk_channels st @ [(shard_id_of b, length (tk_queues st))])" for sid i
      using that new tk_invD(4,5) [OF inv, of sid i] by (auto simp: nth_append)
    show "\<exists>sid. one_shard sid q" if "q \<in> set (tk_queues st @ [[b]])" for q
      using that new tk_invD(6) [OF inv] by (metis Un_iff empty_iff empty_set insert_iff list.simps(15) set_append)
  qed
next
  case (Some i)
  then have i: "(shard_id_of b, i) \<in> set (tk_channels st)" by (rule map_of_SomeD)
  then have q: "i < length (tk_queues st)" "one_shard (shard_id_of b) (tk_queues st ! i)"
    using inv unfolding tk_inv_def by blast+
  let ?qs = "(tk_queues st)[i := tk_queues st ! i @ [b]]"
  have new: "one_shard (shard_id_of b) (tk_queues st ! i @ [b])" using q(2) by (auto simp: one_shard_def)
  have ch: "j < length ?qs \<and> one_shard sid (?qs ! j)" if j: "(sid, j) \<in> set (tk_channels st)" for sid j
  proof (cases "j = i")
    case True
    with inv i j have "sid = shard_id_of b"
      unfolding tk_inv_def distinct_map inj_on_def by (metis prod.inject snd_conv)
    with True new q(1) show ?thesis by simp
  next
    case False
    with inv j show ?thesis unfolding tk_inv_def by auto
  qed
  have "\<exists>sid. one_shard sid q" if "q \<in> set ?qs" for q
    using set_update_subset_insert [of "tk_queues st" i] that new tk_invD(6) [OF inv] by blast
  moreover have "tk_registry (announce_shard st b) = upsert_right_end (tk_registry st) b"
    "tk_channels (announce_shard st b) = tk_channels st" "tk_queues (announce_shard st b) = ?qs"
    using Some by (simp_all add: announce_shard_def Let_def)
  ultimately show ?thesis
    using ch tk_invD(1-3) [OF inv] ok by (intro tk_invI) (simp_all add: upsert_right_end_inv)
qed

lemma announce_shards_inv:
  "tk_inv st \<Longrightarrow> \<forall>b\<in>set bs. shard_ok (shard_id_of b) \<Longrightarrow> tk_inv (foldl announce_shard st bs)"
  by (induction bs arbitrary: st) (auto simp: announce_shard_inv)

lemma tk_inv_client [simp]: "tk_inv (st\<lparr>tk_client := c\<rparr>) = tk_inv st" "tk_inv (st\<lparr>tk_inbox := q\<rparr>) = tk_inv st"
  "tk_inv (st\<lparr>tk_current := i\<rparr>) = tk_inv st" "tk_inv (st\<lparr>tk_watch := i\<rparr>) = tk_inv st" "tk_inv (st\<lparr>tk_follow := f\<rparr>) = tk_inv st"
  by (simp_all add: tk_inv_def)

lemma master_received_inv:
  assumes "shards_named S" and "tk_inv st"
  shows "tk_inv (master_received S st b)"
proof -
  obtain r c where r: "retry_spawn 8 (\<lambda>c. ask_shards S c b) (tk_client st) = (r, c)" by fastforce
  show ?thesis
  proof (cases r)
    case (Ok shards)
    with r have "\<forall>s\<in>set shards. shard_ok (shard_id_of s)"
      using retry_spawn_last shards_namedD(1) [OF assms(1)] by metis
    then have "tk_inv (foldl announce_shard (st\<lparr>tk_client := c\<rparr>) shards)" (is "tk_inv ?st")
      using assms(2) by (intro announce_shards_inv) simp_all
    then have "tk_inv (?st\<lparr>tk_channels := filter P (tk_channels ?st)\<rparr>)" for P
      by (auto simp: tk_inv_def distinct_map_filter)
    with r Ok show ?thesis by (simp add: master_received_def Let_def)
  qed (use r assms(2) in \<open>simp add: master_received_def\<close>)
qed

lemma shard_received_inv:
  assumes "shards_named S" and "tk_inv st" and "shard_ok (shard_id_of b)"
  shows "tk_inv (shard_received S st b)"
proof -
  obtain r c where r: "retry_spawn 16 (\<lambda>c. ask_header S c b) (tk_client st) = (r, c)" by fastforce
  show ?thesis
  proof (cases r)
    case (Ok h)
    with r have "header_id h = b"
      using retry_spawn_last shards_namedD(4) [OF assms(1)] by metis
    with r Ok assms(2,3) show ?thesis by (simp add: shard_received_def tk_inv_def upsert_right_inv)
  qed (use r assms(2) in \<open>simp add: shard_received_def\<close>)
qed

lemma pop_queue_inv:
  assumes "tk_inv st" and "i < length (tk_queues st)" and "tk_queues st ! i = b # rest"
  shows "tk_inv (st\<lparr>tk_queues := (tk_queues st)[i := rest]\<rparr>)" and "shard_ok (shard_id_of b)"
proof -
  have sub: "one_shard sid (b # rest) \<Longrightarrow> one_shard sid rest" for sid by (simp add: one_shard_def)
  obtain sid where sid: "one_shard sid (b # rest)"
    using assms nth_mem unfolding tk_inv_def by metis
  then show "shard_ok (shard_id_of b)" by (simp add: one_shard_def)
  have "one_shard s ((tk_queues st)[i := rest] ! j)" if "(s, j) \<in> set (tk_channels st)" for s j
    using tk_invD(4,5) [OF assms(1) that] assms(2,3) sub by (cases "j = i") simp_all
  moreover have "\<exists>s. one_shard s q" if "q \<in> set ((tk_queues st)[i := rest])" for q
    using set_update_subset_insert [of "tk_queues st" i rest] that sub [OF sid] tk_invD(6) [OF assms(1)] by blast
  ultimately show "tk_inv (st\<lparr>tk_queues := (tk_queues st)[i := rest]\<rparr>)"
    using tk_invD [OF assms(1)] by (intro tk_invI) simp_all
qed

lemma tk_inv_registry:
  "tk_inv st \<Longrightarrow> registry_inv reg \<Longrightarrow> tk_inv (st\<lparr>tk_registry := reg\<rparr>)"
  by (simp add: tk_inv_def)

lemma discover_start_inv:
  assumes "shards_named S" and "tk_inv st"
  shows "tk_inv (discover_start S st)"
proof -
  have "registry_inv (upsert_right_end (tk_registry st) b)" if "ask_sync S c = (Ok b, c')" for b c c'
    using that shards_namedD(2) [OF assms(1)] tk_invD(1) [OF assms(2)] by (blast intro: upsert_right_end_inv)
  with assms(2) show ?thesis
    by (auto simp: discover_start_def tk_inv_registry split: prod.split res.split)
qed

lemma discover_turn_inv:
  assumes "shards_named S" and "tk_inv st"
  shows "tk_inv (discover_turn S st lastb info)"
proof -
  have "registry_inv (upsert_right (tk_registry st) h)"
    if "ask_lookup S c r = (Ok b, c')" "wait_for_block_header S c' b = (Ok h, c'')" for c r b c' h c''
  proof (rule upsert_right_inv [OF tk_invD(1) [OF assms(2)]])
    have "header_id h = b"
      using retry_spawn_last [OF that(2) [unfolded wait_for_block_header_def]] shards_namedD(4) [OF assms(1)] by blast
    with shards_namedD(3) [OF assms(1) that(1)] show "shard_ok (shard_id_of (header_id h))" by simp
  qed
  with assms(2) show ?thesis
    by (auto simp: discover_turn_def tk_inv_registry Let_def split: option.split prod.split res.split)
qed

lemma tk_step_inv: "shards_named S \<Longrightarrow> tk_step S st st' \<Longrightarrow> tk_inv st \<Longrightarrow> tk_inv st'"
proof (erule tk_stepE)
  fix i b rest
  assume "shards_named S" "tk_inv st" "i < length (tk_queues st)" "tk_queues st ! i = b # rest"
    and st': "st' = shard_received S (st\<lparr>tk_queues := (tk_queues st)[i := rest]\<rparr>) b"
  then show "tk_inv st'" unfolding st' by (intro shard_received_inv pop_queue_inv)
qed (simp_all add: master_received_inv discover_start_inv discover_turn_inv)

section \<open>The first task is the one of the loop\<close>

text \<open>The state of the task alone; the channel to the second task is never closed.\<close>

definition discover_view :: "('c, 'x) ShardTasks \<Rightarrow> ('c, 'x) LastBlockDiscover" where
  "discover_view st = \<lparr>ld_client = tk_client st, ld_registry = tk_registry st, ld_watch = tk_watch st,
     ld_sent = tk_inbox st, ld_receiver_alive = True\<rparr>"

text \<open>
  A turn after which the task is still in its loop is a turn of \<open>last_loop\<close>; a turn that leaves the
  loop ends it with what \<open>discover\<close> keeps.
\<close>

lemma discover_turn_last_loop:
  assumes "tk_follow st = Some (lastb, info)" and "st' = discover_turn S st lastb info"
  shows "case tk_follow st' of
      Some (lastb', info') \<Rightarrow>
        lastb' = lastb \<and> last_loop S lastb info (discover_view st) = last_loop S lastb info' (discover_view st')
    | None \<Rightarrow>
        \<exists>r. last_loop S lastb info (discover_view st) = Some (r, discover_view st') \<and>
          tk_current st' = (case r of Ok (Some info') \<Rightarrow> Some info' | _ \<Rightarrow> tk_current st)"
  unfolding assms(2)
  by (subst (1 2) last_loop.simps)
    (auto simp: discover_turn_def discover_view_def Let_def split: option.split prod.split res.split)

section \<open>Properties\<close>

text \<open>
  C22. However the turns of the task of the last block, of the task of the shards and of the tasks of
  the single shards interleave, no channel mixes two shards, no two shards share a channel, no
  shard has two open channels, and the registry keeps its invariant, so that a lookup in it, by
  sequence number or by logical time and a 32-byte address, never panics. This is for a server that
  names no shard 0 and answers a request for a header with the header of the block asked for.
\<close>

theorem shard_tasks_safe:
  assumes "bitvec_crate V" and "shards_named S" and "registry_inv reg" and "(tk_step S)\<^sup>*\<^sup>* (tasks_new c reg) st"
  shows "registry_inv (tk_registry st) \<and> distinct (map fst (tk_channels st)) \<and> distinct (map snd (tk_channels st)) \<and>
    (\<forall>(sid, i) \<in> set (tk_channels st). \<forall>b \<in> set (tk_queues st ! i). shard_id_of b = sid) \<and>
    (\<forall>q \<in> set (tk_queues st). \<exists>sid. \<forall>b \<in> set q. shard_id_of b = sid) \<and>
    (\<forall>chain sh q na. registry_contains V (tk_registry st) chain (Seqno sh q) na \<noteq> None) \<and>
    (\<forall>chain address lt na. length address = 32 \<longrightarrow>
       registry_contains V (tk_registry st) chain (LogicalTime address lt) na \<noteq> None)"
proof -
  from assms(4) have inv: "tk_inv st"
  proof (induction rule: rtranclp_induct)
    case base
    show ?case by (rule tk_inv_new) (rule assms(3))
  next
    case (step y z)
    then show ?case using tk_step_inv [OF assms(2)] by blast
  qed
  then have "registry_inv (tk_registry st)" by (rule tk_invD)
  then have "registry_contains V (tk_registry st) chain (Seqno sh q) na \<noteq> None"
    and "length address = 32 \<Longrightarrow> registry_contains V (tk_registry st) chain (LogicalTime address lt) na \<noteq> None"
    for chain sh q na address lt
    by (simp_all add: bitvec_crate.registry_contains_seqno [OF assms(1)] bitvec_crate.registry_contains_lt [OF assms(1)])
  with inv show ?thesis unfolding tk_inv_def one_shard_def by blast
qed

section \<open>A shard that leaves and comes back\<close>

text \<open>
  A server whose masterchain grows by one block at every request for its state; a shard of the
  basic workchain is absent from block 2 and back in block 3.
\<close>

definition basic_block :: "i32 \<Rightarrow> TonBlockIdExt" where
  "basic_block q = (example_block q)\<lparr>workchain := 0\<rparr>"

definition basic_shard :: ShardId where
  "basic_shard = (0, - (2 ^ 63))"

lemma basic_block_simps [simp]: "shard_id_of (basic_block q) = basic_shard" "seqno (basic_block q) = q"
  by (simp_all add: basic_block_def basic_shard_def shard_id_of_def example_block_def)

definition flicker_server :: "(i32, string, unit) server_ops" where
  "flicker_server = \<lparr>
     ask_lookup = (\<lambda>c r. (Ok \<lparr>workchain = workchain (lookup_id r), shard = - (2 ^ 63), seqno = seqno (lookup_id r),
       root_hash = [], file_hash = []\<rparr>, c)),
     ask_shards = (\<lambda>c b. (Ok (if seqno b = 2 then [] else [basic_block (10 + seqno b)]), c)),
     ask_header = (\<lambda>c b. (Ok (plain_header b 0 0), c)),
     ask_masterchain_info = (\<lambda>c. (Ok \<lparr>last_block = example_block (c + 1), info_rest = ()\<rparr>, c + 1)),
     ask_sync = (\<lambda>c. (Ok (example_block c), c))\<rparr>"

lemma shards_named_flicker: "shards_named flicker_server"
  by (auto simp: shards_named_def flicker_server_def shard_ok_def basic_shard_def) (simp_all add: example_block_def shard_id_of_def)

definition flicker_info :: "i32 \<Rightarrow> unit BlocksMasterchainInfo" where
  "flicker_info n = \<lparr>last_block = example_block n, info_rest = ()\<rparr>"

text \<open>The state after the task of the last block has caught up with block \<open>n + 1\<close>.\<close>

definition caught_up :: "i32 \<Rightarrow> (i32, unit) ShardTasks \<Rightarrow> (i32, unit) ShardTasks" where
  "caught_up n st = st\<lparr>tk_client := n,
     tk_registry := upsert_right (upsert_right_end (tk_registry st) (example_block n)) (plain_header (example_block n) 0 0),
     tk_current := Some (flicker_info n), tk_watch := Some (flicker_info n), tk_follow := None,
     tk_inbox := tk_inbox st @ [example_block n]\<rparr>"

definition at_block :: "i32 \<Rightarrow> (i32, unit) ShardTasks \<Rightarrow> bool" where
  "at_block n st \<longleftrightarrow> tk_client st = n \<and> tk_follow st = None \<and> in_i32 (n + 1) \<and> tk_current st \<noteq> Some (flicker_info (n + 1)) \<and>
     (\<forall>q. get_last_seqno (tk_registry st) (shard_id_of (example_block n)) = Some q \<longrightarrow> q = n)"

lemma shard_id_example: "shard_id_of (example_block n) = (- 1, - (2 ^ 63))"
  by (simp add: shard_id_of_def example_block_def)

lemma flicker_follows:
  assumes "at_block n st"
  shows "(tk_step flicker_server)\<^sup>*\<^sup>* st (caught_up (n + 1) st)"
proof -
  let ?lb = "example_block (n + 1)" and ?i = "flicker_info (n + 1)"
  let ?s1 = "st\<lparr>tk_client := n + 1, tk_registry := upsert_right_end (tk_registry st) ?lb, tk_follow := Some (?lb, ?i)\<rparr>"
  let ?s2 = "?s1\<lparr>tk_registry := upsert_right (tk_registry ?s1) (plain_header ?lb 0 0), tk_watch := Some ?i,
    tk_inbox := tk_inbox st @ [?lb]\<rparr>"
  have "discover_start flicker_server st = ?s1"
    using assms by (simp add: discover_start_def flicker_server_def at_block_def flicker_info_def)
  then have "tk_step flicker_server st ?s1"
    using tk_step.start [of st flicker_server] assms by (simp add: at_block_def)
  moreover have "registry_right_next (tk_registry ?s1) (shard_id_of ?lb) = Some (n + 1)"
    using assms wrap_i32_id [of "n + 1"]
    by (auto simp: registry_right_next_def bounds_upsert bounds_right_next_def bounds_right_end_def at_block_def
        get_last_seqno_def shard_id_example split: option.splits) (simp_all add: example_block_def)
  then have "discover_turn flicker_server ?s1 ?lb ?i = ?s2"
    by (simp add: discover_turn_def flicker_server_def wait_for_block_header_def retry_spawn_Ok lookup_seqno_def
        example_block_def flicker_info_def Let_def)
  then have "tk_step flicker_server ?s1 ?s2"
    using tk_step.turn [of ?s1 ?lb ?i flicker_server] by simp
  moreover have "registry_right_next (tk_registry ?s2) (shard_id_of ?lb) = None"
    by (auto simp: registry_right_next_def bounds_upsert bounds_right_next_def bounds_right_end_def split: option.split)
  then have "discover_turn flicker_server ?s2 ?lb ?i = caught_up (n + 1) st"
    by (simp add: discover_turn_def caught_up_def)
  then have "tk_step flicker_server ?s2 (caught_up (n + 1) st)"
    using tk_step.turn [of ?s2 ?lb ?i flicker_server] by simp
  ultimately show ?thesis by (meson converse_rtranclp_into_rtranclp rtranclp.rtrancl_refl)
qed

lemma caught_up_at:
  "in_i32 (n + 1) \<Longrightarrow> at_block n (caught_up n st)"
  by (auto simp: at_block_def caught_up_def flicker_info_def get_last_seqno_def bounds_upsert)
    (simp_all add: example_block_def)

definition flicker_start :: "(i32, unit) ShardTasks" where
  "flicker_start = tasks_new 0 registry_default"

definition flicker_three :: "(i32, unit) ShardTasks" where
  "flicker_three = caught_up 3 (caught_up 2 (caught_up 1 flicker_start))"

lemma flicker_reaches_three: "(tk_step flicker_server)\<^sup>*\<^sup>* flicker_start flicker_three"
proof -
  have "at_block 0 flicker_start"
    by (simp add: at_block_def flicker_start_def tasks_new_def in_i32_def get_last_seqno_def registry_default_def)
  from flicker_follows [OF this] have "(tk_step flicker_server)\<^sup>*\<^sup>* flicker_start (caught_up 1 flicker_start)" by simp
  moreover have "(tk_step flicker_server)\<^sup>*\<^sup>* (caught_up 1 flicker_start) (caught_up 2 (caught_up 1 flicker_start))"
    using flicker_follows [OF caught_up_at, of 1] by (simp add: in_i32_def)
  moreover have "(tk_step flicker_server)\<^sup>*\<^sup>* (caught_up 2 (caught_up 1 flicker_start)) flicker_three"
    using flicker_follows [OF caught_up_at, of 2] by (simp add: in_i32_def flicker_three_def)
  ultimately show ?thesis by (meson rtranclp_trans)
qed

text \<open>The task of the shards has then handed on the shards of the three blocks.\<close>

definition flicker_registry :: Registry where
  "flicker_registry = upsert_right_end (upsert_right_end (tk_registry flicker_three) (basic_block 11)) (basic_block 13)"

definition flicker_queues :: "TonBlockIdExt list list \<Rightarrow> Registry \<Rightarrow> (i32, unit) ShardTasks" where
  "flicker_queues qs reg = flicker_three\<lparr>tk_registry := reg, tk_inbox := [],
     tk_channels := [(basic_shard, 1)], tk_queues := qs\<rparr>"

lemma flicker_master:
  "(tk_step flicker_server)\<^sup>*\<^sup>* flicker_three (flicker_queues [[basic_block 11], [basic_block 13]] flicker_registry)"
proof -
  let ?sid = basic_shard
  define s where "s reg inbox ch qs = flicker_three\<lparr>tk_registry := reg, tk_inbox := inbox, tk_channels := ch, tk_queues := qs\<rparr>"
    for reg inbox ch qs
  let ?r0 = "tk_registry flicker_three" and ?r1 = "upsert_right_end (tk_registry flicker_three) (basic_block 11)"
  have s0: "flicker_three = s ?r0 [example_block 1, example_block 2, example_block 3] [] []"
    by (simp add: s_def flicker_three_def caught_up_def flicker_start_def tasks_new_def)
  have m: "tk_step flicker_server (s reg (b # rest) ch qs) (master_received flicker_server (s reg rest ch qs) b)"
    for reg b rest ch qs
  proof -
    have "(s reg (b # rest) ch qs)\<lparr>tk_inbox := rest\<rparr> = s reg rest ch qs"
      unfolding s_def by (rule ShardTasks.equality) simp_all
    moreover have "tk_inbox (s reg (b # rest) ch qs) = b # rest" by (simp add: s_def)
    ultimately show ?thesis using tk_step.master [of "s reg (b # rest) ch qs" b rest flicker_server] by simp
  qed
  have "master_received flicker_server (s ?r0 [example_block 2, example_block 3] [] []) (example_block 1) =
      s ?r1 [example_block 2, example_block 3] [(?sid, 0)] [[basic_block 11]]"
    by (simp add: master_received_def flicker_server_def retry_spawn_Ok Let_def announce_shard_def s_def)
      (simp add: example_block_def)
  moreover have "master_received flicker_server (s ?r1 [example_block 3] [(?sid, 0)] [[basic_block 11]]) (example_block 2) =
      s ?r1 [example_block 3] [] [[basic_block 11]]"
    by (simp add: master_received_def flicker_server_def retry_spawn_Ok Let_def s_def) (simp add: example_block_def)
  moreover have "master_received flicker_server (s ?r1 [] [] [[basic_block 11]]) (example_block 3) =
      flicker_queues [[basic_block 11], [basic_block 13]] flicker_registry"
    by (simp add: master_received_def flicker_server_def retry_spawn_Ok Let_def announce_shard_def s_def
        flicker_queues_def flicker_registry_def) (simp add: example_block_def)
  ultimately show ?thesis
    using m [of ?r0 "example_block 1" "[example_block 2, example_block 3]" "[]" "[]"]
      m [of ?r1 "example_block 2" "[example_block 3]" "[(?sid, 0)]" "[[basic_block 11]]"]
      m [of ?r1 "example_block 3" "[]" "[]" "[[basic_block 11]]"]
    unfolding s0 [symmetric] by (simp add: converse_rtranclp_into_rtranclp)
qed

lemma flicker_second_task:
  "tk_step flicker_server (flicker_queues [[basic_block 11], [basic_block 13]] flicker_registry)
     (flicker_queues [[basic_block 11], []] (upsert_right flicker_registry (plain_header (basic_block 13) 0 0)))"
proof -
  let ?s = "flicker_queues [[basic_block 11], [basic_block 13]] flicker_registry"
  have "tk_step flicker_server ?s (shard_received flicker_server (?s\<lparr>tk_queues := (tk_queues ?s)[1 := []]\<rparr>) (basic_block 13))"
    by (rule tk_step.shard_task) (simp_all add: flicker_queues_def)
  moreover have "shard_received flicker_server (?s\<lparr>tk_queues := (tk_queues ?s)[1 := []]\<rparr>) (basic_block 13) =
      flicker_queues [[basic_block 11], []] (upsert_right flicker_registry (plain_header (basic_block 13) 0 0))"
    unfolding shard_received_def flicker_queues_def
    by (rule ShardTasks.equality) (simp_all add: flicker_server_def retry_spawn_Ok)
  ultimately show ?thesis by simp
qed

text \<open>
  C32. A shard that leaves the masterchain's list and comes back has two tasks while the first still
  drains its channel, and the older header can be stored last: the right bound of a shard can move
  back. This is a run on one server, whose masterchain blocks 1, 2 and 3 are reached in order and
  whose shard is absent from block 2: it reaches a state with two tasks of the shard, the closed one
  with block 11 still in its channel and the open one done with block 13, and then the turn of the
  closed task moves the bound from block 13 to block 11, the last block announced being 13 throughout.
\<close>

theorem right_bound_may_regress:
  "\<exists>st st'. (tk_step flicker_server)\<^sup>*\<^sup>* (tasks_new 0 registry_default) st \<and> tk_step flicker_server st st' \<and>
     tk_channels st = [(basic_shard, 1)] \<and> tk_queues st = [[basic_block 11], []] \<and>
     st' = shard_received flicker_server (st\<lparr>tk_queues := [[], []]\<rparr>) (basic_block 11) \<and>
     map_option right_end (shard_bounds_registry (tk_registry st) (basic_shard)) = Some (Some 13) \<and>
     map_option right_end (shard_bounds_registry (tk_registry st') (basic_shard)) = Some (Some 13) \<and>
     get_last_seqno (tk_registry st) (basic_shard) = Some 13 \<and>
     get_last_seqno (tk_registry st') (basic_shard) = Some 11"
proof -
  let ?st = "flicker_queues [[basic_block 11], []] (upsert_right flicker_registry (plain_header (basic_block 13) 0 0))"
  let ?st' = "shard_received flicker_server (?st\<lparr>tk_queues := [[], []]\<rparr>) (basic_block 11)"
  have run: "(tk_step flicker_server)\<^sup>*\<^sup>* (tasks_new 0 registry_default) ?st"
    using flicker_reaches_three flicker_master flicker_second_task
    unfolding flicker_start_def by (meson rtranclp.rtrancl_into_rtrancl rtranclp_trans)
  have step: "tk_step flicker_server ?st ?st'"
    using tk_step.shard_task [of 0 ?st "basic_block 11" "[]" flicker_server] by (simp add: flicker_queues_def)
  have reg: "tk_registry ?st = upsert_right flicker_registry (plain_header (basic_block 13) 0 0)"
    "tk_registry ?st' = upsert_right (tk_registry ?st) (plain_header (basic_block 11) 0 0)"
    by (simp_all add: flicker_queues_def shard_received_def flicker_server_def retry_spawn_Ok)
  have none: "shard_bounds_registry (tk_registry flicker_three) basic_shard = None"
    by (simp add: flicker_three_def caught_up_def flicker_start_def tasks_new_def bounds_upsert shard_id_example registry_default_def
        basic_shard_def)
  have b: "shard_bounds_registry flicker_registry basic_shard = Some (bounds_right_end 13)"
    using none by (simp add: flicker_registry_def bounds_upsert bounds_right_end_def)
  have bs: "shard_bounds_registry (tk_registry ?st) basic_shard =
      Some ((bounds_right_end 13)\<lparr>right := Some (plain_header (basic_block 13) 0 0)\<rparr>)"
    "shard_bounds_registry (tk_registry ?st') basic_shard =
      Some ((bounds_right_end 13)\<lparr>right := Some (plain_header (basic_block 11) 0 0)\<rparr>)"
    unfolding reg by (simp_all add: bounds_upsert b)
  show ?thesis
    using run step by (intro exI [of _ ?st] exI [of _ ?st'])
      (simp add: bs get_last_seqno_def bounds_right_end_def, simp add: flicker_queues_def)
qed

theorem shard_tasks_safe_witness:
  "registry_inv (tk_registry flicker_three) \<and>
   registry_contains std_bitvec (tk_registry flicker_three) (- 1) (LogicalTime (replicate 32 0) 5) False \<noteq> None"
  using shard_tasks_safe [OF std_bits.bitvec_crate_axioms shards_named_flicker registry_inv_default
      flicker_reaches_three [unfolded flicker_start_def]] by simp

end
