(* ===== verification/Tonlib_Client.thy ===== *)
theory Tonlib_Client
  imports Prelude
begin

text \<open>
  The client over the C library, \<^verbatim>\<open>tonlibjson-client/src/client.rs\<close>: every request carries a fresh
  identifier, the sender of a one-shot channel is stored under it, one thread receives the packets
  and hands each response to the sender stored under its identifier, and a future waits on the
  receiver. The library's functions (\<open>send\<close>, the packets it delivers) and \<^verbatim>\<open>serde_json\<close> are
  parameters. A one-shot channel lives in the future that holds its receiver; the stored sender is
  the number of that future. The thread ends when the last client and future are gone, which is
  not modelled. \<open>make.rs\<close> builds such a client; its two requests are modelled on their answers.
\<close>

section \<open>State\<close>

record ('i, 'v) Response =
  response_id :: 'i
  response_data :: 'v

datatype ('i, 'v) channel = Waiting | Delivered "('i, 'v) Response" | Closed | Taken

datatype ('i, 'v, 'e) ResponseState =
    Failed "'e option"
  | Rx "('i, 'v) channel" 'i

record ('i, 'v, 'e) Client =
  responses :: "'i \<rightharpoonup> nat"
  futures :: "nat \<rightharpoonup> ('i, 'v, 'e) ResponseState"
  next_future :: nat

definition client_new :: "('i, 'v, 'e) Client" where
  "client_new = \<lparr>responses = Map.empty, futures = Map.empty, next_future = 0\<rparr>"

text \<open>Dropping a sender closes the channel of a future that still waits.\<close>

definition drop_sender :: "('i, 'v, 'e) Client \<Rightarrow> nat \<Rightarrow> ('i, 'v, 'e) Client" where
  "drop_sender st n =
     (case futures st n of
        Some (Rx Waiting rid) \<Rightarrow> st\<lparr>futures := (futures st)(n \<mapsto> Rx Closed rid)\<rparr>
      | _ \<Rightarrow> st)"

section \<open>Operations\<close>

definition add_future ::
    "('i, 'v, 'e) Client \<Rightarrow> ('i, 'v, 'e) ResponseState \<Rightarrow> nat \<times> ('i, 'v, 'e) Client" where
  "add_future st f =
     (next_future st, st\<lparr>futures := (futures st)(next_future st \<mapsto> f), next_future := Suc (next_future st)\<rparr>)"

text \<open>\<open>Client::call\<close> with the identifier \<open>rid\<close> drawn for the request.\<close>

definition client_call ::
    "('i \<Rightarrow> 'r \<Rightarrow> ('e, 'j) res) \<Rightarrow> ('j \<Rightarrow> ('e, unit) res) \<Rightarrow> ('i, 'v, 'e) Client \<Rightarrow> 'i \<Rightarrow> 'r \<Rightarrow>
     nat \<times> ('i, 'v, 'e) Client" where
  "client_call to_json send st rid req =
     (case to_json rid req of
        Err e \<Rightarrow> add_future st (Failed (Some e))
      | Ok json \<Rightarrow>
          (let st = (case responses st rid of Some n \<Rightarrow> drop_sender st n | None \<Rightarrow> st);
               st = st\<lparr>responses := (responses st)(rid \<mapsto> next_future st)\<rparr>
           in case send json of
                Ok _ \<Rightarrow> add_future st (Rx Waiting rid)
              | Err e \<Rightarrow> add_future st (Failed (Some e))))"

text \<open>The body of the receiving thread's loop, on the outcome of \<open>receive\<close>.\<close>

definition client_receive ::
    "('p \<Rightarrow> ('i, 'v) Response option) \<Rightarrow> ('i, 'v, 'e) Client \<Rightarrow> ('e, 'p) res \<Rightarrow> ('i, 'v, 'e) Client" where
  "client_receive from_json st packet =
     (case packet of
        Err _ \<Rightarrow> st
      | Ok p \<Rightarrow>
          (case from_json p of
             None \<Rightarrow> st
           | Some response \<Rightarrow>
               (case responses st (response_id response) of
                  None \<Rightarrow> st
                | Some n \<Rightarrow>
                    (let st = st\<lparr>responses := (responses st)(response_id response := None)\<rparr>
                     in case futures st n of
                          Some (Rx Waiting rid) \<Rightarrow> st\<lparr>futures := (futures st)(n \<mapsto> Rx (Delivered response) rid)\<rparr>
                        | _ \<Rightarrow> st))))"

datatype ('e, 'v) poll_error = RequestFailed 'e | TonErrorAnswer 'e | DeserializationError 'v | OneshotClosed

record ('v, 'a, 'e) value_ops =
  is_error_value :: "'v \<Rightarrow> bool"
  ton_error_of :: "'v \<Rightarrow> 'e option"
  value_of :: "'v \<Rightarrow> 'a option"

text \<open>\<open>ResponseFuture::poll\<close>; \<open>None\<close> when it panics.\<close>

definition future_poll ::
    "('v, 'a, 'e) value_ops \<Rightarrow> ('i, 'v, 'e) Client \<Rightarrow> nat \<Rightarrow>
     ((('e, 'v) poll_error, 'a) res poll \<times> ('i, 'v, 'e) Client) may_panic" where
  "future_poll J st n =
     (case futures st n of
        Some (Failed (Some e)) \<Rightarrow>
          Some (Ready (Err (RequestFailed e)), st\<lparr>futures := (futures st)(n \<mapsto> Failed None)\<rparr>)
      | Some (Rx Waiting rid) \<Rightarrow> Some (Pending, st)
      | Some (Rx (Delivered response) rid) \<Rightarrow>
          (let data = response_data response;
               st = st\<lparr>futures := (futures st)(n \<mapsto> Rx Taken rid)\<rparr>
           in if is_error_value J data
              then (case ton_error_of J data of
                      Some e \<Rightarrow> Some (Ready (Err (TonErrorAnswer e)), st)
                    | None \<Rightarrow> Some (Ready (Err (DeserializationError data)), st))
              else (case value_of J data of
                      Some a \<Rightarrow> Some (Ready (Ok a), st)
                    | None \<Rightarrow> Some (Ready (Err (DeserializationError data)), st)))
      | Some (Rx Closed rid) \<Rightarrow>
          Some (Ready (Err OneshotClosed), st\<lparr>futures := (futures st)(n \<mapsto> Rx Taken rid)\<rparr>)
      | _ \<Rightarrow> None)"

definition future_drop :: "('i, 'v, 'e) Client \<Rightarrow> nat \<Rightarrow> ('i, 'v, 'e) Client" where
  "future_drop st n =
     (let st' = st\<lparr>futures := (futures st)(n := None)\<rparr>
      in case futures st n of
           Some (Rx _ rid) \<Rightarrow>
             (case responses st rid of
                Some m \<Rightarrow> (if m = n then st'\<lparr>responses := (responses st)(rid := None)\<rparr>
                          else drop_sender (st'\<lparr>responses := (responses st)(rid := None)\<rparr>) m)
              | None \<Rightarrow> st')
         | _ \<Rightarrow> st')"

section \<open>Runs\<close>

text \<open>
  A call draws an identifier that no stored sender and no future has (\<open>Uuid::new_v4\<close>); polling
  happens only where it does not panic.
\<close>

definition fresh_id :: "('i, 'v, 'e) Client \<Rightarrow> 'i \<Rightarrow> bool" where
  "fresh_id st rid \<longleftrightarrow> responses st rid = None \<and> (\<forall>n c. futures st n \<noteq> Some (Rx c rid))"

inductive client_step ::
    "('i \<Rightarrow> 'r \<Rightarrow> ('e, 'j) res) \<Rightarrow> ('p \<Rightarrow> ('i, 'v) Response option) \<Rightarrow> ('v, 'a, 'e) value_ops \<Rightarrow>
     ('i, 'v, 'e) Client \<Rightarrow> ('i, 'v, 'e) Client \<Rightarrow> bool"
  for to_json from_json J where
  call: "fresh_id st rid \<Longrightarrow> client_step to_json from_json J st (snd (client_call to_json send st rid req))"
| receive: "client_step to_json from_json J st (client_receive from_json st packet)"
| poll: "future_poll J st n = Some (p, st') \<Longrightarrow> client_step to_json from_json J st st'"
| drop: "client_step to_json from_json J st (future_drop st n)"

inductive_cases client_stepE: "client_step to_json from_json J st st'"

text \<open>
  A stored sender belongs to the waiting future of its identifier, or to a future that is not
  waiting; a waiting future's sender is stored; a response is only ever in the future of the request
  it answers.
\<close>

definition client_inv :: "('i, 'v, 'e) Client \<Rightarrow> bool" where
  "client_inv st \<longleftrightarrow>
     (\<forall>n. next_future st \<le> n \<longrightarrow> futures st n = None) \<and>
     (\<forall>rid n. responses st rid = Some n \<longrightarrow> n < next_future st \<and>
        (\<forall>c rid'. futures st n = Some (Rx c rid') \<longrightarrow> c = Waiting \<and> rid' = rid)) \<and>
     (\<forall>n c rid. futures st n = Some (Rx c rid) \<longrightarrow> responses st rid = (if c = Waiting then Some n else None)) \<and>
     (\<forall>n r rid. futures st n = Some (Rx (Delivered r) rid) \<longrightarrow> response_id r = rid) \<and>
     (\<forall>m n c d rid. futures st m = Some (Rx c rid) \<longrightarrow> futures st n = Some (Rx d rid) \<longrightarrow> m = n) \<and>
     (\<forall>n rid. futures st n \<noteq> Some (Rx Closed rid))"

lemma client_inv_new: "client_inv client_new"
  by (simp add: client_inv_def client_new_def)

lemma client_invD:
  assumes "client_inv st"
  shows "next_future st \<le> n \<Longrightarrow> futures st n = None"
    and "responses st rid = Some n \<Longrightarrow> n < next_future st"
    and "responses st rid = Some n \<Longrightarrow> futures st n = Some (Rx c rid') \<Longrightarrow> c = Waiting \<and> rid' = rid"
    and "futures st n = Some (Rx c rid) \<Longrightarrow> responses st rid = (if c = Waiting then Some n else None)"
    and "futures st n = Some (Rx (Delivered r) rid) \<Longrightarrow> response_id r = rid"
    and "futures st m = Some (Rx c rid) \<Longrightarrow> futures st n = Some (Rx d rid) \<Longrightarrow> m = n"
    and "futures st n \<noteq> Some (Rx Closed rid)"
  using assms unfolding client_inv_def by blast+

lemma client_invI:
  assumes "\<And>n. next_future st \<le> n \<Longrightarrow> futures st n = None"
    and "\<And>rid n. responses st rid = Some n \<Longrightarrow> n < next_future st"
    and "\<And>rid n c rid'. responses st rid = Some n \<Longrightarrow> futures st n = Some (Rx c rid') \<Longrightarrow> c = Waiting \<and> rid' = rid"
    and "\<And>n c rid. futures st n = Some (Rx c rid) \<Longrightarrow> responses st rid = (if c = Waiting then Some n else None)"
    and "\<And>n r rid. futures st n = Some (Rx (Delivered r) rid) \<Longrightarrow> response_id r = rid"
    and "\<And>m n c d rid. futures st m = Some (Rx c rid) \<Longrightarrow> futures st n = Some (Rx d rid) \<Longrightarrow> m = n"
    and "\<And>n rid. futures st n \<noteq> Some (Rx Closed rid)"
  shows "client_inv st"
  using assms unfolding client_inv_def by blast

lemma client_call_cases:
  assumes "fresh_id st rid"
  obtains (not_sent) e where "to_json rid req = Err e"
      "client_call to_json send st rid req = add_future st (Failed (Some e))"
    | (send_failed) json e where "to_json rid req = Ok json" "send json = Err e"
      "client_call to_json send st rid req =
         add_future (st\<lparr>responses := (responses st)(rid \<mapsto> next_future st)\<rparr>) (Failed (Some e))"
    | (sent) json u where "to_json rid req = Ok json" "send json = Ok u"
      "client_call to_json send st rid req =
         add_future (st\<lparr>responses := (responses st)(rid \<mapsto> next_future st)\<rparr>) (Rx Waiting rid)"
  using assms by (cases "to_json rid req"; cases "send (the (ok_of (to_json rid req)))")
    (auto simp: client_call_def fresh_id_def Let_def)

lemma client_call_inv:
  assumes inv: "client_inv st" and fresh: "fresh_id st rid"
  shows "client_inv (snd (client_call to_json send st rid req))"
proof -
  note [simp] = add_future_def
  have none: "futures st (next_future st) = None" using client_invD(1) [OF inv] by simp
  have resp: "responses st rid' \<noteq> Some (next_future st)" for rid' using client_invD(2) [OF inv] by fastforce
  have free: "responses st rid = None" "futures st n \<noteq> Some (Rx c rid)" for n c
    using fresh by (auto simp: fresh_id_def)
  note D = client_invD [OF inv]
  show ?thesis
    using fresh
  proof (cases rule: client_call_cases [where to_json = to_json and send = send and req = req])
    case (not_sent e)
    then show ?thesis
      using D resp by (intro client_invI) (auto split: if_splits dest: less_SucI)
  next
    case (send_failed json e)
    then show ?thesis
      using resp free by (intro client_invI) (auto split: if_splits intro: D(1) dest: D(2-6) less_SucI simp: D(7))
  next
    case (sent json u)
    then show ?thesis
      using resp free by (intro client_invI) (auto split: if_splits intro: D(1) dest: D(2-6) less_SucI simp: D(7))
  qed
qed

lemma client_receive_inv:
  assumes inv: "client_inv st"
  shows "client_inv (client_receive from_json st packet)"
proof (cases "\<exists>p r n. packet = Ok p \<and> from_json p = Some r \<and> responses st (response_id r) = Some n")
  case False
  then have "client_receive from_json st packet = st"
    by (auto simp: client_receive_def split: res.splits option.splits)
  with inv show ?thesis by simp
next
  case True
  then obtain p r n where r: "packet = Ok p" "from_json p = Some r" "responses st (response_id r) = Some n"
    by blast
  note D = client_invD [OF inv]
  show ?thesis
  proof (cases "\<exists>rid. futures st n = Some (Rx Waiting rid)")
    case True
    then have f: "futures st n = Some (Rx Waiting (response_id r))" using D(3) [OF r(3)] by auto
    then have eq: "client_receive from_json st packet =
        st\<lparr>responses := (responses st)(response_id r := None),
           futures := (futures st)(n \<mapsto> Rx (Delivered r) (response_id r))\<rparr>"
      using r by (simp add: client_receive_def Let_def)
    have other: "responses st rid = Some n \<Longrightarrow> rid = response_id r" for rid
      using D(3) [of rid n, OF _ f] by simp
    show ?thesis
      unfolding eq
      by (rule client_invI) (use f in \<open>auto split: if_splits dest: D(1-6) other simp: D(7)\<close>)
  next
    case False
    then have eq: "client_receive from_json st packet = st\<lparr>responses := (responses st)(response_id r := None)\<rparr>"
      using r by (auto simp: client_receive_def Let_def split: option.splits ResponseState.splits channel.splits)
    have "futures st m = Some (Rx c rid) \<Longrightarrow> rid \<noteq> response_id r" for m c rid
      using False D(4) [of m c rid] r(3) by (auto split: if_splits)
    then show ?thesis
      unfolding eq by (intro client_invI) (use D in \<open>auto split: if_splits\<close>)
  qed
qed

lemma set_future_inv:
  assumes inv: "client_inv st"
  shows "futures st n = Some (Failed e) \<Longrightarrow> client_inv (st\<lparr>futures := (futures st)(n \<mapsto> Failed None)\<rparr>)"
    and "futures st n = Some (Rx c rid) \<Longrightarrow> c \<noteq> Waiting \<Longrightarrow>
      client_inv (st\<lparr>futures := (futures st)(n \<mapsto> Rx Taken rid)\<rparr>)"
proof -
  note D = client_invD [OF inv]
  have small: "futures st n = Some f \<Longrightarrow> n < next_future st" for f
    using D(1) [of n] by (cases "n < next_future st") auto
  show "futures st n = Some (Failed e) \<Longrightarrow> client_inv (st\<lparr>futures := (futures st)(n \<mapsto> Failed None)\<rparr>)"
    by (intro client_invI) (use D small in \<open>auto split: if_splits\<close>)
  assume f: "futures st n = Some (Rx c rid)" and "c \<noteq> Waiting"
  then have "responses st rid = None" "responses st rid' \<noteq> Some n" for rid'
    using D(3) [of rid' n c rid] D(4) [of n c rid] by auto
  then show "client_inv (st\<lparr>futures := (futures st)(n \<mapsto> Rx Taken rid)\<rparr>)"
    by (intro client_invI) (use D small [OF f] f in \<open>auto split: if_splits\<close>)
qed

lemma future_poll_inv:
  assumes inv: "client_inv st" and "future_poll J st n = Some (p, st')"
  shows "client_inv st'"
proof -
  have "st' = st \<or> (\<exists>e. futures st n = Some (Failed e) \<and> st' = st\<lparr>futures := (futures st)(n \<mapsto> Failed None)\<rparr>) \<or>
      (\<exists>c rid. futures st n = Some (Rx c rid) \<and> c \<noteq> Waiting \<and> st' = st\<lparr>futures := (futures st)(n \<mapsto> Rx Taken rid)\<rparr>)"
    using assms(2)
    by (auto simp: future_poll_def Let_def split: option.splits ResponseState.splits channel.splits if_splits)
  then show ?thesis using inv set_future_inv [OF inv] by blast
qed

lemma future_drop_inv:
  assumes inv: "client_inv st"
  shows "client_inv (future_drop st n)"
proof -
  note D = client_invD [OF inv]
  have gone: "client_inv (st\<lparr>futures := (futures st)(n := None)\<rparr>)" if "\<And>rid. futures st n \<noteq> Some (Rx Waiting rid)"
    by (intro client_invI) (use D that in \<open>auto split: if_splits\<close>)
  show ?thesis
  proof (cases "futures st n")
    case None
    then show ?thesis using gone by (simp add: future_drop_def)
  next
    case (Some f)
    show ?thesis
    proof (cases f)
      case (Failed e)
      with Some gone show ?thesis by (simp add: future_drop_def)
    next
      case (Rx c rid)
      show ?thesis
      proof (cases "c = Waiting")
        case True
        with Some Rx D(4) [of n c rid] have "responses st rid = Some n" by simp
        with Some Rx have eq: "future_drop st n =
            st\<lparr>futures := (futures st)(n := None), responses := (responses st)(rid := None)\<rparr>"
          by (simp add: future_drop_def Let_def)
        have "futures st m = Some (Rx d rid) \<Longrightarrow> m = n" for m d
          using D(6) [of m d rid n c] Some Rx by simp
        then show ?thesis
          unfolding eq by (intro client_invI) (auto split: if_splits dest: D(1-6) simp: D(7))
      next
        case False
        with Some Rx D(4) [of n c rid] have "future_drop st n = st\<lparr>futures := (futures st)(n := None)\<rparr>"
          by (simp add: future_drop_def Let_def)
        with False Some Rx gone show ?thesis by simp
      qed
    qed
  qed
qed

lemma client_step_inv: "client_step to_json from_json J st st' \<Longrightarrow> client_inv st \<Longrightarrow> client_inv st'"
  by (erule client_stepE) (auto intro: client_call_inv client_receive_inv future_poll_inv future_drop_inv)

lemma client_run_inv: "(client_step to_json from_json J)\<^sup>*\<^sup>* client_new st \<Longrightarrow> client_inv st"
  by (induction rule: rtranclp_induct) (auto intro: client_inv_new client_step_inv)

section \<open>Building a client\<close>

text \<open>
  \<open>ClientBuilder::build\<close> and \<open>ClientFactory::call\<close>, on the answers to the two requests: the
  initialisation and the masterchain info.
\<close>

definition builder_build :: "('e, 'a) res \<Rightarrow> 'c \<Rightarrow> ('e, 'c) res" where
  "builder_build init_answer client = res_bind init_answer (\<lambda>_. Ok client)"

definition factory_call :: "('e, 'a) res \<Rightarrow> ('e, 'b) res \<Rightarrow> 'c \<Rightarrow> ('e, 'c) res" where
  "factory_call init_answer info_answer client =
     res_bind (builder_build init_answer client) (\<lambda>client. res_bind info_answer (\<lambda>_. Ok client))"

text \<open>
  \<open>CursorClientFactory::create\<close>: the layers around a client, the first one outermost, each layer a
  parameter; at most 256 requests at a time, and five seconds for each.
\<close>

definition cursor_client_create ::
    "('id \<Rightarrow> string) \<Rightarrow> (string \<Rightarrow> 's \<Rightarrow> 'c) \<Rightarrow> (nat \<Rightarrow> 's \<Rightarrow> 's) \<Rightarrow> ('s \<Rightarrow> 's) \<Rightarrow> ('s \<Rightarrow> 's) \<Rightarrow> (nat \<Rightarrow> 's \<Rightarrow> 's) \<Rightarrow>
     'id \<Rightarrow> 's \<Rightarrow> 'c" where
  "cursor_client_create to_string cursor_client_new concurrency_limit shared err timeout lite_server client =
     cursor_client_new (to_string lite_server) (concurrency_limit 256 (shared (err (timeout 5000 client))))"

section \<open>Properties\<close>

text \<open>
  C19. In every run, whatever packets arrive, a future only ever holds a response to its own
  request; a waiting future, and no other future that has a channel, has its sender stored, under its
  identifier; and a channel is never closed under a waiting future.
\<close>

theorem responses_reach_their_requests:
  assumes "(client_step to_json from_json J)\<^sup>*\<^sup>* client_new st" and "futures st n = Some (Rx c rid)"
  shows "(\<forall>r. c = Delivered r \<longrightarrow> response_id r = rid) \<and>
    responses st rid = (if c = Waiting then Some n else None) \<and> c \<noteq> Closed"
  using client_invD [OF client_run_inv [OF assms(1)]] assms(2) by blast

definition example_values :: "(string, string, string) value_ops" where
  "example_values = \<lparr>is_error_value = (\<lambda>v. v = ''error''), ton_error_of = Some, value_of = Some\<rparr>"

definition example_json :: "nat \<Rightarrow> string \<Rightarrow> (string, nat \<times> string) res" where
  "example_json i r = Ok (i, r)"

definition example_client :: "(nat, string, string) Client" where
  "example_client = snd (client_call example_json (\<lambda>_. Ok ()) client_new 7 ''getMasterchainInfo'')"

lemma example_client_run:
  "(client_step example_json (\<lambda>p. Some p) example_values)\<^sup>*\<^sup>* client_new
     (example_client :: (nat, string, string) Client)"
  unfolding example_client_def
  by (rule r_into_rtranclp, rule client_step.call) (simp add: fresh_id_def client_new_def)

lemma example_client_future: "futures example_client 0 = Some (Rx Waiting 7)"
  by (simp add: example_client_def client_call_def client_new_def add_future_def example_json_def)

theorem responses_reach_their_requests_witness: "responses example_client 7 = Some 0"
  using responses_reach_their_requests [OF example_client_run example_client_future] by simp

text \<open>
  A response to a waiting request is delivered to its future and to no other, its sender is
  forgotten, and polling the future then gives the value read from the response, or the error it
  carries.
\<close>

lemma response_delivered:
  assumes "(client_step to_json from_json J)\<^sup>*\<^sup>* client_new st" and "futures st n = Some (Rx Waiting rid)"
    and "from_json p = Some r" and "response_id r = rid"
  shows "client_receive from_json st (Ok p) =
      st\<lparr>responses := (responses st)(rid := None), futures := (futures st)(n \<mapsto> Rx (Delivered r) rid)\<rparr> \<and>
    map_option fst (future_poll J (client_receive from_json st (Ok p)) n) = Some (Ready
      (if is_error_value J (response_data r)
       then (case ton_error_of J (response_data r) of
               Some e \<Rightarrow> Err (TonErrorAnswer e) | None \<Rightarrow> Err (DeserializationError (response_data r)))
       else (case value_of J (response_data r) of
               Some a \<Rightarrow> Ok a | None \<Rightarrow> Err (DeserializationError (response_data r)))))"
proof -
  have "responses st rid = Some n"
    using client_invD(4) [OF client_run_inv [OF assms(1)] assms(2)] by simp
  with assms(2-4) have "client_receive from_json st (Ok p) =
      st\<lparr>responses := (responses st)(rid := None), futures := (futures st)(n \<mapsto> Rx (Delivered r) rid)\<rparr>"
    by (simp add: client_receive_def Let_def)
  then show ?thesis by (simp add: future_poll_def Let_def split: option.split)
qed

lemma response_delivered_witness:
  "map_option fst (future_poll example_values
     (client_receive (\<lambda>p. Some p) example_client (Ok \<lparr>response_id = 7, response_data = ''info''\<rparr>)) 0) =
   Some (Ready (Ok ''info''))"
  using response_delivered [OF example_client_run example_client_future,
      of "\<lparr>response_id = 7, response_data = ''info''\<rparr>" "\<lparr>response_id = 7, response_data = ''info''\<rparr>"]
  by (auto simp: example_values_def)

text \<open>
  Dropping a future forgets its request: no sender stays under its identifier, and a late
  response to it changes nothing.
\<close>

lemma dropped_request_forgotten:
  assumes "(client_step to_json from_json J)\<^sup>*\<^sup>* client_new st" and "futures st n = Some (Rx c rid)"
    and "from_json p = Some r" and "response_id r = rid"
  shows "responses (future_drop st n) rid = None \<and>
    client_receive from_json (future_drop st n) (Ok p) = future_drop st n"
proof -
  have "responses st rid = (if c = Waiting then Some n else None)"
    using client_invD(4) [OF client_run_inv [OF assms(1)] assms(2)] .
  with assms(2) have "responses (future_drop st n) rid = None"
    by (auto simp: future_drop_def Let_def)
  with assms(3,4) show ?thesis by (simp add: client_receive_def)
qed

lemma dropped_request_forgotten_witness:
  "client_receive (\<lambda>p. Some p) (future_drop example_client 0) (Ok \<lparr>response_id = 7, response_data = ''info''\<rparr>) =
   future_drop example_client 0"
  using dropped_request_forgotten [OF example_client_run example_client_future,
      of "\<lparr>response_id = 7, response_data = ''info''\<rparr>" "\<lparr>response_id = 7, response_data = ''info''\<rparr>"]
  by simp

text \<open>
  When the library refuses a request, the sender stored for it stays: reporting the error and
  dropping the future leave the entry in the table, where only a response to a request that was
  never sent could remove it.
\<close>

lemma refused_request_leaks:
  assumes "(client_step to_json from_json J)\<^sup>*\<^sup>* client_new st" and "fresh_id st rid"
    and "to_json rid req = Ok json" and "send json = Err e"
    and "client_call to_json send st rid req = (n, st1)" and "future_poll J st1 n = Some (p, st2)"
  shows "p = Ready (Err (RequestFailed e)) \<and> responses (future_drop st2 n) rid = Some n"
  using assms(2-6) by (auto simp: client_call_def fresh_id_def add_future_def future_poll_def future_drop_def)

lemma refused_request_leaks_witness:
  "responses (future_drop (snd (the (future_poll example_values
     (snd (client_call example_json (\<lambda>_. Err ''down'') (client_new :: (nat, string, string) Client) 7 ''req'')) 0))) 0) 7 = Some 0"
  (is "responses (future_drop (snd (the (future_poll _ ?st1 0))) 0) 7 = _")
proof -
  have "client_call example_json (\<lambda>_. Err ''down'') client_new 7 ''req'' = (0, ?st1)"
    by (simp add: client_call_def add_future_def example_json_def client_new_def)
  moreover have "future_poll example_values ?st1 0 =
      Some (Ready (Err (RequestFailed ''down'')), snd (the (future_poll example_values ?st1 0)))"
    by (simp add: client_call_def add_future_def example_json_def client_new_def future_poll_def)
  moreover have "fresh_id (client_new :: (nat, string, string) Client) 7"
    by (simp add: fresh_id_def client_new_def)
  ultimately show ?thesis
    using refused_request_leaks [of example_json "\<lambda>p. Some p" example_values client_new 7 "''req''" "(7, ''req'')"
        "\<lambda>_. Err ''down''" "''down''" 0 ?st1]
    by (simp add: example_json_def)
qed

end
