(* ===== verification/Services.thy ===== *)
theory Services
  imports Router "HOL-Library.Multiset"
begin

text \<open>
  The service layers between the router and the clients: \<^verbatim>\<open>ton-client-util/src/service/timeout.rs\<close>
  and \<^verbatim>\<open>shared.rs\<close>, and \<^verbatim>\<open>metric.rs\<close>, \<^verbatim>\<open>error.rs\<close> and \<^verbatim>\<open>retry.rs\<close> of \<^verbatim>\<open>tonlibjson-client/src\<close>. An inner
  service is the record of its operations \<open>svc_ops\<close>: readiness, the call and the polling of the
  future it returns. Time is a number the polls are given. The budget of \<^verbatim>\<open>tower\<close> is a parameter.
\<close>

record ('s, 'r, 'f, 'e, 'a) svc_ops =
  svc_ready :: "'s \<Rightarrow> ('e, unit) res poll \<times> 's"
  svc_call :: "'s \<Rightarrow> 'r \<Rightarrow> 'f \<times> 's"
  fut_poll :: "'f \<Rightarrow> ('e, 'a) res poll \<times> 'f"

fun map_err :: "('e \<Rightarrow> 'd) \<Rightarrow> ('e, 'a) res \<Rightarrow> ('d, 'a) res" where
  "map_err f (Err e) = Err (f e)"
| "map_err f (Ok a) = Ok a"

lemma map_err_not_other [simp]: "map_err f v = Err d \<longleftrightarrow> (\<exists>e. v = Err e \<and> d = f e)"
  by (cases v) auto

fun map_poll :: "('a \<Rightarrow> 'b) \<Rightarrow> 'a poll \<Rightarrow> 'b poll" where
  "map_poll f Pending = Pending"
| "map_poll f (Ready a) = Ready (f a)"

section \<open>Timeout\<close>

datatype 'e boxed = Boxed 'e | Elapsed

record 's Timeout =
  timeout_inner :: 's
  default_timeout :: nat

record 'f TimeoutFuture =
  timeout_response :: 'f
  timeout_deadline :: nat

definition timeout_new :: "'s \<Rightarrow> nat \<Rightarrow> 's Timeout" where
  "timeout_new inner d = \<lparr>timeout_inner = inner, default_timeout = d\<rparr>"

definition timeout_poll_ready ::
    "('s, 'r, 'f, 'e, 'a) svc_ops \<Rightarrow> 's Timeout \<Rightarrow> ('e boxed, unit) res poll \<times> 's Timeout" where
  "timeout_poll_ready P t =
     (case svc_ready P (timeout_inner t) of
        (Pending, s) \<Rightarrow> (Pending, t\<lparr>timeout_inner := s\<rparr>)
      | (Ready r, s) \<Rightarrow> (Ready (map_err Boxed r), t\<lparr>timeout_inner := s\<rparr>))"

definition timeout_call ::
    "('s, 'r, 'f, 'e, 'a) svc_ops \<Rightarrow> ('r \<Rightarrow> nat option) \<Rightarrow> nat \<Rightarrow> 's Timeout \<Rightarrow> 'r \<Rightarrow>
     'f TimeoutFuture \<times> 's Timeout" where
  "timeout_call P to_timeout now t request =
     (let timeout = case_option (default_timeout t) (\<lambda>d. d) (to_timeout request);
          (response, s) = svc_call P (timeout_inner t) request
      in (\<lparr>timeout_response = response, timeout_deadline = now + timeout\<rparr>, t\<lparr>timeout_inner := s\<rparr>))"

definition timeout_poll ::
    "('s, 'r, 'f, 'e, 'a) svc_ops \<Rightarrow> nat \<Rightarrow> 'f TimeoutFuture \<Rightarrow> ('e boxed, 'a) res poll \<times> 'f TimeoutFuture" where
  "timeout_poll P now fut =
     (case fut_poll P (timeout_response fut) of
        (Ready v, f) \<Rightarrow> (Ready (map_err Boxed v), fut\<lparr>timeout_response := f\<rparr>)
      | (Pending, f) \<Rightarrow>
          (if timeout_deadline fut \<le> now then Ready (Err Elapsed) else Pending, fut\<lparr>timeout_response := f\<rparr>))"

section \<open>Shared service\<close>

datatype 'f ResponseState = Locking | WaitingFor 'f

record ('r, 'f) SharedFuture =
  shared_request :: "'r option"
  shared_state :: "'f ResponseState"

text \<open>\<open>locked\<close> says that another holder has the mutex, so that \<open>try_lock\<close> fails.\<close>

definition shared_poll_ready ::
    "('s, 'r, 'f, 'e, 'a) svc_ops \<Rightarrow> bool \<Rightarrow> 's \<Rightarrow> ('e, unit) res poll \<times> 's" where
  "shared_poll_ready P locked s = (if locked then (Pending, s) else svc_ready P s)"

definition shared_call :: "'r \<Rightarrow> ('r, 'f) SharedFuture" where
  "shared_call req = \<lparr>shared_request = Some req, shared_state = Locking\<rparr>"

definition shared_poll ::
    "('s, 'r, 'f, 'e, 'a) svc_ops \<Rightarrow> bool \<Rightarrow> 's \<Rightarrow> ('r, 'f) SharedFuture \<Rightarrow>
     (('e, 'a) res poll \<times> 's \<times> ('r, 'f) SharedFuture) may_panic" where
  "shared_poll P locked s fut =
     (case shared_state fut of
        Locking \<Rightarrow>
          if locked then Some (Pending, s, fut)
          else
            (case svc_ready P s of
               (Pending, s) \<Rightarrow> Some (Pending, s, fut)
             | (Ready (Err e), s) \<Rightarrow> Some (Ready (Err e), s, fut)
             | (Ready (Ok _), s) \<Rightarrow>
                 (case shared_request fut of
                    None \<Rightarrow> None
                  | Some req \<Rightarrow>
                      (let (f, s) = svc_call P s req;
                           (p, f) = fut_poll P f
                       in Some (p, s, \<lparr>shared_request = None, shared_state = WaitingFor f\<rparr>))))
      | WaitingFor f \<Rightarrow>
          (let (p, f) = fut_poll P f in Some (p, s, fut\<lparr>shared_state := WaitingFor f\<rparr>)))"

section \<open>Concurrency metric\<close>

text \<open>The counter \<open>inflight\<close> is an atomic 32-bit integer; a future adds one when it is made and takes it back when dropped.\<close>

record 's ConcurrencyMetric =
  metric_inner :: 's
  inflight :: i32

definition metric_new :: "'s \<Rightarrow> 's ConcurrencyMetric" where
  "metric_new inner = \<lparr>metric_inner = inner, inflight = 0\<rparr>"

definition metric_future_new :: "'s ConcurrencyMetric \<Rightarrow> 's ConcurrencyMetric" where
  "metric_future_new m = m\<lparr>inflight := wrap_i32 (inflight m + 1)\<rparr>"

definition metric_future_drop :: "'s ConcurrencyMetric \<Rightarrow> 's ConcurrencyMetric" where
  "metric_future_drop m = m\<lparr>inflight := wrap_i32 (inflight m - 1)\<rparr>"

definition metric_call ::
    "('s, 'r, 'f, 'e, 'a) svc_ops \<Rightarrow> 's ConcurrencyMetric \<Rightarrow> 'r \<Rightarrow> 'f \<times> 's ConcurrencyMetric" where
  "metric_call P m req =
     (let (f, s) = svc_call P (metric_inner m) req in (f, metric_future_new (m\<lparr>metric_inner := s\<rparr>)))"

definition metric_load :: "'s ConcurrencyMetric \<Rightarrow> i32" where
  "metric_load m = inflight m"

text \<open>A metric with the futures it handed out that are not dropped yet.\<close>

inductive metric_step ::
    "('s, 'r, 'f, 'e, 'a) svc_ops \<Rightarrow> 's ConcurrencyMetric \<times> 'f multiset \<Rightarrow> 's ConcurrencyMetric \<times> 'f multiset \<Rightarrow> bool"
  for P where
  called: "metric_call P m req = (f, m') \<Longrightarrow> metric_step P (m, live) (m', add_mset f live)"
| polled: "fut_poll P f = (p, f') \<Longrightarrow> metric_step P (m, add_mset f live) (m, add_mset f' live)"
| dropped: "metric_step P (m, add_mset f live) (metric_future_drop m, live)"

section \<open>Error service\<close>

datatype ('a, 't) Error = Route route_error | Custom 'a | Tower 't

definition error_poll_ready ::
    "('s, 'r, 'f, 'e, 'a) svc_ops \<Rightarrow> ('e \<Rightarrow> ('c, 't) Error) \<Rightarrow> 's \<Rightarrow> (('c, 't) Error, unit) res poll \<times> 's" where
  "error_poll_ready P into s = (let (p, s) = svc_ready P s in (map_poll (map_err into) p, s))"

definition error_poll ::
    "('s, 'r, 'f, 'e, 'a) svc_ops \<Rightarrow> ('e \<Rightarrow> ('c, 't) Error) \<Rightarrow> 'f \<Rightarrow> (('c, 't) Error, 'a) res poll \<times> 'f" where
  "error_poll P into f = (let (p, f) = fut_poll P f in (map_poll (map_err into) p, f))"

section \<open>Retry policy\<close>

text \<open>
  The errors below the retry layer are boxed: the router boxes its own error type, a client's error
  arrives boxed as this crate's type or as another.
\<close>

datatype ('a, 't, 'o) BoxError = BoxRoute route_error | BoxError "('a, 't) Error" | BoxOther 'o

record 'b budget_ops =
  deposit :: "'b \<Rightarrow> 'b"
  withdraw :: "'b \<Rightarrow> bool \<times> 'b"

datatype ('m, 'q) retried_request = SendMessage 'm | SendMessageReturnHash 'm | OtherRequest 'q

definition retry_send_message :: "'b \<Rightarrow> bool \<times> 'b" where
  "retry_send_message budget = (False, budget)"

definition clone_send_message :: "'m \<Rightarrow> 'm option" where
  "clone_send_message m = None"

definition retry_other ::
    "'b budget_ops \<Rightarrow> (('a, 't, 'o) BoxError, 'v) res \<Rightarrow> 'b \<Rightarrow> bool \<times> 'b" where
  "retry_other B result budget =
     (case result of
        Ok _ \<Rightarrow> (False, deposit B budget)
      | Err (BoxError (Route RouteUnknown)) \<Rightarrow> (False, budget)
      | Err _ \<Rightarrow> withdraw B budget)"

definition clone_request :: "'q \<Rightarrow> 'q option" where
  "clone_request q = Some q"

fun policy_retry ::
    "'b budget_ops \<Rightarrow> ('m, 'q) retried_request \<Rightarrow> (('a, 't, 'o) BoxError, 'v) res \<Rightarrow> 'b \<Rightarrow> bool \<times> 'b" where
  "policy_retry B (SendMessage m) result budget = retry_send_message budget"
| "policy_retry B (SendMessageReturnHash m) result budget = retry_send_message budget"
| "policy_retry B (OtherRequest q) result budget = retry_other B result budget"

text \<open>
  The retry loop of \<^verbatim>\<open>tower\<close> under this policy, against the outcomes \<open>results\<close> of the attempts: the
  number of attempts made and the last outcome. A request that cannot be cloned is tried once.
\<close>

fun attempts ::
    "'b budget_ops \<Rightarrow> ('m, 'q) retried_request \<Rightarrow> (('a, 't, 'o) BoxError, 'v) res list \<Rightarrow> 'b \<Rightarrow>
     nat \<times> (('a, 't, 'o) BoxError, 'v) res option" where
  "attempts B req [] budget = (0, None)"
| "attempts B req (r # rs) budget =
     (case policy_retry B req r budget of
        (True, budget) \<Rightarrow>
          (if rs = [] then (1, Some r) else let (n, out) = attempts B req rs budget in (Suc n, out))
      | (False, _) \<Rightarrow> (1, Some r))"

section \<open>Properties\<close>

text \<open>
  A request under the timeout layer waits for its own limit, or the default one when it has
  none; its future is never pending once the limit has passed, fails with \<open>Elapsed\<close> only when the
  answer is not there at that moment, and passes on an answer that is there, even a late one.
\<close>

lemma timeout_spec:
  assumes "timeout_call P to_timeout start t request = (fut, t')"
    and "timeout_poll P now (fut\<lparr>timeout_response := f\<rparr>) = (p, fut')"
  shows "timeout_deadline fut = start + (case to_timeout request of Some d \<Rightarrow> d | None \<Rightarrow> default_timeout t) \<and>
    (start + (case to_timeout request of Some d \<Rightarrow> d | None \<Rightarrow> default_timeout t) \<le> now \<longrightarrow> p \<noteq> Pending) \<and>
    (p = Ready (Err Elapsed) \<longleftrightarrow> fst (fut_poll P f) = Pending \<and> timeout_deadline fut \<le> now) \<and>
    (\<forall>v. fst (fut_poll P f) = Ready v \<longrightarrow> p = Ready (map_err Boxed v))"
  using assms
  by (auto simp: timeout_call_def timeout_poll_def Let_def split: prod.splits poll.splits if_splits option.splits)

definition demo_svc :: "(nat, nat, nat, string, nat) svc_ops" where
  "demo_svc = \<lparr>svc_ready = (\<lambda>s. (Ready (Ok ()), s)), svc_call = (\<lambda>s r. (r, Suc s)),
     fut_poll = (\<lambda>f. if f = 0 then (Pending, f) else (Ready (Ok f), f))\<rparr>"

lemma timeout_spec_witness:
  "fst (timeout_poll demo_svc 105 ((fst (timeout_call demo_svc (\<lambda>_. Some 5) 100 (timeout_new 0 10) 0))\<lparr>timeout_response := 0\<rparr>))
   = Ready (Err Elapsed)"
  using timeout_spec [of demo_svc "\<lambda>_. Some 5" 100 "timeout_new 0 10" 0, OF prod.collapse [symmetric] prod.collapse [symmetric],
      of 105 0]
  by (simp add: demo_svc_def)

definition shared_ok :: "('r, 'f) SharedFuture \<Rightarrow> bool" where
  "shared_ok fut \<longleftrightarrow> (shared_state fut = Locking \<longleftrightarrow> shared_request fut \<noteq> None)"

text \<open>
  The future of a shared service hands its request to the service once, and only when the
  service has just said under the same lock that it is ready; until then it keeps the request, and
  no poll of it panics, not even after an error.
\<close>

lemma shared_poll_safe:
  assumes "shared_ok fut"
  shows "\<exists>p s' fut'. shared_poll P locked s fut = Some (p, s', fut') \<and> shared_ok fut' \<and>
    (shared_request fut' = shared_request fut \<and> (s' = s \<or> \<not> locked \<and> s' = snd (svc_ready P s)) \<or>
     (\<exists>req. shared_request fut = Some req \<and> shared_request fut' = None \<and> \<not> locked \<and>
        fst (svc_ready P s) = Ready (Ok ()) \<and> s' = snd (svc_call P (snd (svc_ready P s)) req)))"
  using assms
  by (auto simp: shared_poll_def shared_ok_def Let_def split: ResponseState.splits prod.splits poll.splits
      res.splits option.splits)

lemma shared_poll_safe_witness:
  "\<exists>p s' fut'. shared_poll demo_svc False 3 (shared_call 9) = Some (p, s', fut') \<and> shared_ok fut'"
  using shared_poll_safe [of "shared_call 9" demo_svc False 3] by (auto simp: shared_ok_def shared_call_def)

lemma wrap_i32_add: "wrap_i32 (wrap_i32 a + b) = wrap_i32 (a + b)"
proof -
  have "((a + 2 ^ 31) mod 2 ^ 32 - 2 ^ 31 + b + 2 ^ 31) mod 2 ^ 32 = ((a + 2 ^ 31) mod 2 ^ 32 + b) mod 2 ^ 32"
    by (simp add: algebra_simps)
  also have "\<dots> = (a + b + 2 ^ 31) mod 2 ^ 32" unfolding mod_add_left_eq by (simp add: algebra_simps)
  finally show ?thesis unfolding wrap_i32_def by simp
qed

lemma wrap_i32_add_right: "wrap_i32 (b + wrap_i32 a) = wrap_i32 (b + a)"
  using wrap_i32_add [of a b] by (simp add: add.commute)

text \<open>
  The load a client reports is the number of its requests whose future is alive, as long as
  there are fewer than \<open>2 ^ 31\<close> of them.
\<close>

lemma metric_counts_live_requests:
  assumes "(metric_step P)\<^sup>*\<^sup>* (metric_new s, {#}) (m, live)" and "size live < 2 ^ 31"
  shows "metric_load m = int (size live)"
proof -
  from assms(1) have "inflight m = wrap_i32 (int (size live))"
  proof (induction "(m, live)" arbitrary: m live rule: rtranclp_induct)
    case base
    show ?case by (simp add: metric_new_def wrap_i32_def)
  next
    case (step x)
    obtain m0 live0 where x: "x = (m0, live0)" by (cases x)
    have "inflight m0 = wrap_i32 (int (size live0))" using step.hyps(3) x by simp
    with step.hyps(2) x show ?case
      by (auto elim!: metric_step.cases simp: metric_call_def metric_future_new_def metric_future_drop_def
          wrap_i32_add wrap_i32_add [of _ "- 1", simplified] wrap_i32_add_right add.commute split: prod.splits)
  qed
  with assms(2) show ?thesis by (simp add: metric_load_def wrap_simps in_i32_def)
qed

lemma metric_counts_live_requests_witness:
  "metric_load (snd (metric_call demo_svc (metric_new 0) 5)) = 1"
proof -
  have "metric_step demo_svc (metric_new 0, {#}) (snd (metric_call demo_svc (metric_new 0) 5), {#5#})"
    by (rule metric_step.called) (simp add: metric_call_def demo_svc_def)
  then have "(metric_step demo_svc)\<^sup>*\<^sup>* (metric_new 0, {#}) (snd (metric_call demo_svc (metric_new 0) 5), {#5#})"
    by (rule r_into_rtranclp)
  from metric_counts_live_requests [OF this] show ?thesis by simp
qed

text \<open>
  A message is sent at most once, whatever happens. Any other request is tried again only
  after an error and while the budget pays for it; and the rule that an unknown route is not tried
  again applies to this crate's error type only: the router's own \<open>RouteUnknown\<close>, boxed as the
  router boxes it, is retried while the budget lasts.
\<close>

lemma retry_policy_spec:
  "fst (attempts B (SendMessage m) rs budget) \<le> 1 \<and> fst (attempts B (SendMessageReturnHash m) rs budget) \<le> 1 \<and>
   fst (policy_retry B (OtherRequest q) (Ok v) budget) = False \<and>
   policy_retry B (OtherRequest q) (Err (BoxError (Route RouteUnknown))) budget = (False, budget) \<and>
   policy_retry B (OtherRequest q) (Err (BoxRoute RouteUnknown)) budget = withdraw B budget"
proof -
  have "fst (attempts B (SendMessage m) rs budget) \<le> 1" "fst (attempts B (SendMessageReturnHash m) rs budget) \<le> 1"
    by (cases rs; simp add: retry_send_message_def)+
  then show ?thesis by (simp add: retry_other_def)
qed

end
