(* ===== verification/Discovery.thy ===== *)
theory Discovery
  imports Router
begin

text \<open>
  Discovery of lite servers, \<^verbatim>\<open>ton-client-util/src/discover/mod.rs\<close> and \<^verbatim>\<open>config.rs\<close>: every version of
  the global configuration is turned into the changes the router's set of services needs. DNS is a
  parameter; the configuration stream is the list of the items it yields; a \<open>HashSet\<close> is the list
  of its elements in iteration order. Reading and parsing the configuration is not modelled; its
  fields other than the lite servers are the parameter type of \<open>TonConfig\<close>.
\<close>

section \<open>Configuration\<close>

record LiteServerId =
  ls_type :: string
  ls_key :: string

record LiteServer =
  ls_id :: LiteServerId
  ls_ip :: "i32 option"
  ls_host :: "string option"
  ls_port :: u16

record 'v TonConfig =
  liteservers :: "LiteServer list"
  config_data :: 'v

definition with_liteserver :: "'v TonConfig \<Rightarrow> LiteServer \<Rightarrow> 'v TonConfig" where
  "with_liteserver c ls = \<lparr>liteservers = [ls], config_data = config_data c\<rparr>"

definition liteserver_id_string :: "LiteServerId \<Rightarrow> string" where
  "liteserver_id_string i = ls_type i @ '':'' @ ls_key i"

definition liteserver_name :: "LiteServer \<Rightarrow> string" where
  "liteserver_name ls = ls_type (ls_id ls) @ '':'' @ ls_key (ls_id ls)"

definition with_ip :: "LiteServer \<Rightarrow> i32 \<Rightarrow> LiteServer" where
  "with_ip ls ip = \<lparr>ls_id = ls_id ls, ls_ip = Some ip, ls_host = ls_host ls, ls_port = ls_port ls\<rparr>"

definition socket_addr :: "LiteServer \<Rightarrow> (u32 \<times> u16) may_panic" where
  "socket_addr ls = map_option (\<lambda>ip. (word_of_int ip, ls_port ls)) (ls_ip ls)"

section \<open>Discovery\<close>

datatype IpAddr = V4 u32 | V6 "8 word list"

fun first_v4 :: "LiteServer \<Rightarrow> IpAddr list \<Rightarrow> LiteServer option" where
  "first_v4 ls [] = None"
| "first_v4 ls (V4 ip # rest) = Some (with_ip ls (wrap_i32 (uint ip)))"
| "first_v4 ls (V6 _ # rest) = first_v4 ls rest"

definition apply_dns :: "(string \<Rightarrow> ('e, IpAddr list) res) \<Rightarrow> LiteServer \<Rightarrow> ('e, LiteServer) res" where
  "apply_dns lookup_ip ls =
     (case ls_host ls of
        None \<Rightarrow> Ok ls
      | Some host \<Rightarrow>
          (case lookup_ip host of
             Err e \<Rightarrow> Err e
           | Ok records \<Rightarrow> Ok (case_option ls (\<lambda>ls'. ls') (first_v4 ls records))))"

definition resolved :: "(string \<Rightarrow> ('e, IpAddr list) res) \<Rightarrow> LiteServer list \<Rightarrow> LiteServer list" where
  "resolved lookup_ip lss =
     foldl (\<lambda>acc ls. case apply_dns lookup_ip ls of
        Err _ \<Rightarrow> acc
      | Ok ls \<Rightarrow> if ls \<in> set acc then acc else acc @ [ls]) [] lss"

definition difference :: "LiteServer list \<Rightarrow> LiteServer list \<Rightarrow> LiteServer list" where
  "difference xs ys = filter (\<lambda>x. x \<notin> set ys) xs"

text \<open>One turn of \<open>LiteServerDiscoverActor::run\<close>: the new set of servers and the changes sent.\<close>

definition discover_tick ::
    "(string \<Rightarrow> ('e, IpAddr list) res) \<Rightarrow> LiteServer list \<Rightarrow> 'v TonConfig \<Rightarrow>
     LiteServer list \<times> (LiteServerId, 'v TonConfig) change list" where
  "discover_tick lookup_ip liteservers_old new_config =
     (let liteserver_new = resolved lookup_ip (liteservers new_config)
      in (liteserver_new,
          map (\<lambda>ls. Remove (ls_id ls)) (difference liteservers_old liteserver_new) @
          map (\<lambda>ls. Insert (ls_id ls) (with_liteserver new_config ls)) (difference liteserver_new liteservers_old)))"

fun discover_run ::
    "(string \<Rightarrow> ('e, IpAddr list) res) \<Rightarrow> LiteServer list \<Rightarrow> ('d, 'v TonConfig) res list \<Rightarrow>
     LiteServer list \<times> (LiteServerId, 'v TonConfig) change list" where
  "discover_run lookup_ip lss (Ok c # rest) =
     (let (lss, changes) = discover_tick lookup_ip lss c;
          (lss, more) = discover_run lookup_ip lss rest
      in (lss, changes @ more))"
| "discover_run lookup_ip lss _ = (lss, [])"

section \<open>Changes and services\<close>

definition distinct_ids :: "LiteServer list \<Rightarrow> bool" where
  "distinct_ids lss \<longleftrightarrow> distinct (map ls_id lss)"

definition apply_changes :: "('k \<rightharpoonup> 's) \<Rightarrow> ('k, 's) change list \<Rightarrow> ('k \<rightharpoonup> 's)" where
  "apply_changes m cs = foldl apply_change m (map (Ok :: _ \<Rightarrow> (unit, _) res) cs)"

lemma apply_changes_simps [simp]:
  "apply_changes m [] = m"
  "apply_changes m (Insert k v # cs) = apply_changes (m(k \<mapsto> v)) cs"
  "apply_changes m (Remove k # cs) = apply_changes (m(k := None)) cs"
  "apply_changes m (cs @ ds) = apply_changes (apply_changes m cs) ds"
  by (simp_all add: apply_changes_def apply_change_def)

lemma apply_removes:
  "apply_changes m (map (\<lambda>ls. Remove (ls_id ls)) xs) = (\<lambda>i. if i \<in> ls_id ` set xs then None else m i)"
  by (induction xs arbitrary: m) (auto simp: fun_eq_iff)

lemma apply_inserts:
  assumes "distinct (map ls_id xs)"
  shows "apply_changes m (map (\<lambda>ls. Insert (ls_id ls) (f ls)) xs) =
    m ++ map_of (map (\<lambda>ls. (ls_id ls, f ls)) xs)"
  using assms
proof (induction xs arbitrary: m)
  case (Cons x xs)
  have "map_of (map (\<lambda>ls. (ls_id ls, f ls)) xs) (ls_id x) = None"
    using Cons.prems by (auto simp: map_of_eq_None_iff)
  then have "m(ls_id x \<mapsto> f x) ++ map_of (map (\<lambda>ls. (ls_id ls, f ls)) xs) =
      m ++ map_of (map (\<lambda>ls. (ls_id ls, f ls)) (x # xs))"
    by (auto simp: fun_eq_iff map_add_def split: option.splits)
  with Cons show ?case by (simp only: list.map apply_changes_simps distinct.simps)
qed simp

lemma resolved_distinct: "distinct (resolved lookup_ip lss)"
proof -
  have "distinct acc \<Longrightarrow> distinct (foldl (\<lambda>acc ls. case apply_dns lookup_ip ls of
      Err _ \<Rightarrow> acc | Ok ls \<Rightarrow> if ls \<in> set acc then acc else acc @ [ls]) acc lss)" for acc
    by (induction lss arbitrary: acc) (auto split: res.split)
  then show ?thesis by (simp add: resolved_def)
qed

text \<open>The identifiers and, for each, what the changes leave under it.\<close>

lemma discover_tick_services:
  assumes tick: "discover_tick lookup_ip old c = (new, changes)"
    and ids: "distinct_ids old" "distinct_ids new" and dom: "dom m = ls_id ` set old"
  shows "dom (apply_changes m changes) = ls_id ` set new"
    and "ls \<in> set new \<Longrightarrow> apply_changes m changes (ls_id ls) =
      (if ls \<in> set old then m (ls_id ls) else Some (with_liteserver c ls))"
proof -
  let ?rem = "difference old new" and ?ins = "difference new old"
  let ?m = "\<lambda>i. if i \<in> ls_id ` set ?rem then None else m i"
  let ?new = "map_of (map (\<lambda>ls. (ls_id ls, with_liteserver c ls)) ?ins)"
  have inj: "inj_on ls_id (set old)" "inj_on ls_id (set new)"
    using ids by (simp_all add: distinct_ids_def distinct_map)
  have "distinct (map ls_id ?ins)"
    using ids(2) by (simp add: difference_def distinct_ids_def distinct_map_filter)
  moreover have "changes = map (\<lambda>ls. Remove (ls_id ls)) ?rem @
      map (\<lambda>ls. Insert (ls_id ls) (with_liteserver c ls)) ?ins"
    using tick by (auto simp: discover_tick_def Let_def)
  ultimately have res: "apply_changes m changes = ?m ++ ?new"
    by (simp add: apply_removes apply_inserts)
  have new_Some: "?new (ls_id x) = Some (with_liteserver c x)" if "x \<in> set new" "x \<notin> set old" for x
    using that \<open>distinct (map ls_id ?ins)\<close>
    by (intro map_of_is_SomeI) (auto simp: difference_def comp_def)
  have new_None: "?new (ls_id x) = None" if "x \<in> set new" "x \<in> set old" for x
    using that inj(2) by (auto simp: map_of_eq_None_iff difference_def dest: inj_onD)
  have kept: "?m (ls_id x) = m (ls_id x)" if "x \<in> set old" "x \<in> set new" for x
    using that inj(1) by (auto simp: difference_def dest: inj_onD)
  show "apply_changes m changes (ls_id ls) =
      (if ls \<in> set old then m (ls_id ls) else Some (with_liteserver c ls))" if "ls \<in> set new" for ls
    using that new_Some [of ls] new_None [of ls] kept [of ls] unfolding res by (auto simp: map_add_def)
  have "dom ?new = ls_id ` (set new - set old)"
    by (auto simp: dom_map_of_conv_image_fst image_image difference_def)
  moreover have "dom ?m = ls_id ` (set old \<inter> set new)"
  proof -
    have "dom ?m = ls_id ` set old - ls_id ` (set old - set new)"
    proof -
      have "dom ?m = dom m - ls_id ` set ?rem" by (auto simp: dom_def)
      moreover have "set ?rem = set old - set new" by (auto simp: difference_def)
      ultimately show ?thesis by (simp only: dom)
    qed
    also have "\<dots> = ls_id ` (set old - (set old - set new))"
      by (rule inj_on_image_set_diff [OF inj(1), symmetric]) auto
    also have "set old - (set old - set new) = set old \<inter> set new" by auto
    finally show ?thesis .
  qed
  ultimately show "dom (apply_changes m changes) = ls_id ` set new"
    unfolding res by auto
qed

section \<open>Properties\<close>

text \<open>
  C30. Discovery and the router's services agree: when no configuration names a server twice, the
  changes sent for a new configuration leave exactly the resolved servers of that configuration
  as services, a changed server being removed and inserted again, and leave a server that did not
  change untouched.
\<close>

theorem discovery_follows_config:
  assumes "discover_tick lookup_ip old c = (new, changes)" and "distinct_ids old" and "distinct_ids new"
    and "dom m = ls_id ` set old"
  shows "dom (apply_changes m changes) = ls_id ` set new \<and>
    (\<forall>ls \<in> set new. apply_changes m changes (ls_id ls) =
       (if ls \<in> set old then m (ls_id ls) else Some (with_liteserver c ls)))"
  using discover_tick_services [OF assms] by blast

definition example_ls :: "string \<Rightarrow> i32 \<Rightarrow> LiteServer" where
  "example_ls key ip = \<lparr>ls_id = \<lparr>ls_type = ''pub.ed25519'', ls_key = key\<rparr>, ls_ip = Some ip, ls_host = None, ls_port = 4924\<rparr>"

theorem discovery_follows_config_witness:
  "dom (apply_changes [ls_id (example_ls ''a'' 1) \<mapsto> \<lparr>liteservers = [example_ls ''a'' 1], config_data = ()\<rparr>]
     (snd (discover_tick (\<lambda>_. Err ''dns'') [example_ls ''a'' 1]
       \<lparr>liteservers = [example_ls ''a'' 2, example_ls ''b'' 3], config_data = ()\<rparr>))) =
   {ls_id (example_ls ''a'' 2), ls_id (example_ls ''b'' 3)}"
proof -
  have "fst (discover_tick (\<lambda>_. Err ''dns'') [example_ls ''a'' 1]
      \<lparr>liteservers = [example_ls ''a'' 2, example_ls ''b'' 3], config_data = ()\<rparr>) = [example_ls ''a'' 2, example_ls ''b'' 3]"
    by (simp add: discover_tick_def resolved_def apply_dns_def example_ls_def Let_def)
  then show ?thesis
    using discovery_follows_config [of "\<lambda>_. Err ''dns''" "[example_ls ''a'' 1]"
        "\<lparr>liteservers = [example_ls ''a'' 2, example_ls ''b'' 3], config_data = ()\<rparr>", OF prod.collapse [symmetric],
        of "[ls_id (example_ls ''a'' 1) \<mapsto> \<lparr>liteservers = [example_ls ''a'' 1], config_data = ()\<rparr>]"]
    by (simp add: distinct_ids_def example_ls_def)
qed

text \<open>
  The first configuration that cannot be loaded ends discovery: nothing is sent for it, and
  nothing for any later configuration.
\<close>

lemma discovery_stops_at_error:
  "discover_run lookup_ip lss (map Ok configs @ Err e # later) = discover_run lookup_ip lss (map Ok configs)"
  by (induction configs arbitrary: lss) (auto split: prod.split)

end
