(* ===== verification/Ton_Client.thy ===== *)
theory Ton_Client
  imports Ton_Block
begin

text \<open>
  The public client, \<^verbatim>\<open>tonlibjson-client/src/ton.rs\<close>: its builder, the requests it sends, the streams
  of transactions it assembles from pages, and the two searches over an account's history. What
  the stack of services answers is the parameter \<open>ton_ops\<close>, an answer for each kind of request that
  may change the state of the client. An action maps a state to a result and a state. A stream is
  the list of its items with the error that ends it, if one does; \<open>None\<close> is a stream that never ends.
\<close>

section \<open>Builder\<close>

datatype ('p, 'u) ConfigSource = FromFile 'p | FromUrl 'u nat

text \<open>Durations are milliseconds; the percentage is a floating point number the code only stores.\<close>

record ('p, 'u, 'f) TonClientBuilder =
  config_source :: "('p, 'u) ConfigSource"
  timeout :: nat
  ewma_default_rtt :: nat
  ewma_decay :: nat
  retry_enabled :: bool
  retry_budget_ttl :: nat
  retry_min_per_sec :: u32
  retry_percent :: 'f
  retry_first_delay :: nat
  retry_max_delay :: nat

definition builder_default :: "'u \<Rightarrow> 'f \<Rightarrow> ('p, 'u, 'f) TonClientBuilder" where
  "builder_default default_ton_config_url tenth = \<lparr>
     config_source = FromUrl default_ton_config_url 60000,
     timeout = 10000, ewma_default_rtt = 70, ewma_decay = 1,
     retry_enabled = True, retry_budget_ttl = 10000, retry_min_per_sec = 10, retry_percent = tenth,
     retry_first_delay = 128, retry_max_delay = 4096\<rparr>"

definition from_config_path :: "'u \<Rightarrow> 'f \<Rightarrow> 'p \<Rightarrow> ('p, 'u, 'f) TonClientBuilder" where
  "from_config_path url tenth path = (builder_default url tenth)\<lparr>config_source := FromFile path\<rparr>"

definition from_config_url :: "'u \<Rightarrow> 'f \<Rightarrow> 'u \<Rightarrow> nat \<Rightarrow> ('p, 'u, 'f) TonClientBuilder" where
  "from_config_url default_url tenth url interval =
     (builder_default default_url tenth)\<lparr>config_source := FromUrl url interval\<rparr>"

definition set_ewma_default_rtt :: "('p, 'u, 'f) TonClientBuilder \<Rightarrow> nat \<Rightarrow> ('p, 'u, 'f) TonClientBuilder" where
  "set_ewma_default_rtt b d = b\<lparr>ewma_default_rtt := d\<rparr>"

definition set_ewma_decay :: "('p, 'u, 'f) TonClientBuilder \<Rightarrow> nat \<Rightarrow> ('p, 'u, 'f) TonClientBuilder" where
  "set_ewma_decay b d = b\<lparr>ewma_decay := d\<rparr>"

definition disable_retry :: "('p, 'u, 'f) TonClientBuilder \<Rightarrow> ('p, 'u, 'f) TonClientBuilder" where
  "disable_retry b = b\<lparr>retry_enabled := False\<rparr>"

definition set_retry_budget_ttl :: "('p, 'u, 'f) TonClientBuilder \<Rightarrow> nat \<Rightarrow> ('p, 'u, 'f) TonClientBuilder" where
  "set_retry_budget_ttl b d = b\<lparr>retry_budget_ttl := d\<rparr>"

definition set_retry_min_per_sec :: "('p, 'u, 'f) TonClientBuilder \<Rightarrow> u32 \<Rightarrow> ('p, 'u, 'f) TonClientBuilder" where
  "set_retry_min_per_sec b n = b\<lparr>retry_min_per_sec := n\<rparr>"

definition set_retry_percent :: "('p, 'u, 'f) TonClientBuilder \<Rightarrow> 'f \<Rightarrow> ('p, 'u, 'f) TonClientBuilder" where
  "set_retry_percent b f = b\<lparr>retry_percent := f\<rparr>"

definition set_retry_first_delay :: "('p, 'u, 'f) TonClientBuilder \<Rightarrow> nat \<Rightarrow> ('p, 'u, 'f) TonClientBuilder" where
  "set_retry_first_delay b d = b\<lparr>retry_first_delay := d\<rparr>"

definition set_retry_max_delay :: "('p, 'u, 'f) TonClientBuilder \<Rightarrow> nat \<Rightarrow> ('p, 'u, 'f) TonClientBuilder" where
  "set_retry_max_delay b d = b\<lparr>retry_max_delay := d\<rparr>"

definition set_timeout :: "('p, 'u, 'f) TonClientBuilder \<Rightarrow> nat \<Rightarrow> ('p, 'u, 'f) TonClientBuilder" where
  "set_timeout b d = b\<lparr>timeout := d\<rparr>"

text \<open>
  \<open>build\<close>: the stack of services. The layers and the discovery streams are parameters: the stream of
  configurations of the source, the servers it announces, the factory of a client with its load and
  of a cursor client on it, and the layers from the balance outwards. A file is read every second.
\<close>

record ('p, 'u, 'f, 'stream, 'disc, 'svc) stack_ops =
  file_stream :: "'p \<Rightarrow> nat \<Rightarrow> 'stream"
  url_stream :: "'u \<Rightarrow> nat \<Rightarrow> 'stream"
  lite_server_discover :: "'stream \<Rightarrow> 'disc"
  client_discover :: "'disc \<Rightarrow> 'disc"
  ewma_discover :: "nat \<Rightarrow> nat \<Rightarrow> 'disc \<Rightarrow> 'disc"
  cursor_client_discover :: "'disc \<Rightarrow> 'disc"
  balance_service :: "'disc \<Rightarrow> 'svc"
  shared_layer :: "'svc \<Rightarrow> 'svc"
  retry_layer :: "nat \<times> u32 \<times> 'f \<Rightarrow> nat \<Rightarrow> nat \<Rightarrow> 'svc \<Rightarrow> 'svc"
  timeout_layer :: "nat \<Rightarrow> 'svc \<Rightarrow> 'svc"
  error_layer :: "'svc \<Rightarrow> 'svc"

definition ton_client_build :: "('p, 'u, 'f, 'stream, 'disc, 'svc) stack_ops \<Rightarrow> ('p, 'u, 'f) TonClientBuilder \<Rightarrow> 'svc" where
  "ton_client_build L b =
     (let stream = (case config_source b of
            FromFile path \<Rightarrow> file_stream L path 1000
          | FromUrl url interval \<Rightarrow> url_stream L url interval);
          discover = lite_server_discover L stream;
          clients = client_discover L discover;
          ewma = ewma_discover L (ewma_default_rtt b) (ewma_decay b) clients;
          cursors = cursor_client_discover L ewma;
          client = balance_service L cursors;
          client = shared_layer L client;
          client = (if retry_enabled b
            then retry_layer L (retry_budget_ttl b, retry_min_per_sec b, retry_percent b) (retry_first_delay b) (retry_max_delay b) client
            else client);
          client = timeout_layer L (timeout b) client
      in error_layer L client)"

text \<open>A time limit covers all attempts of a request, and a client that does not retry has the same stack without that layer.\<close>

lemma build_limits_retries:
  "\<exists>inner. ton_client_build L b = error_layer L (timeout_layer L (timeout b)
     (if retry_enabled b then retry_layer L (retry_budget_ttl b, retry_min_per_sec b, retry_percent b)
        (retry_first_delay b) (retry_max_delay b) (shared_layer L inner) else shared_layer L inner))"
  by (auto simp: ton_client_build_def Let_def)

section \<open>Actions\<close>

type_synonym ('c, 'e, 'a) action = "'c \<Rightarrow> ('e, 'a) res \<times> 'c"

definition and_then :: "('c, 'e, 'a) action \<Rightarrow> ('a \<Rightarrow> ('c, 'e, 'b) action) \<Rightarrow> ('c, 'e, 'b) action" where
  "and_then m f c = (case m c of (Err e, c) \<Rightarrow> (Err e, c) | (Ok a, c) \<Rightarrow> f a c)"

definition fail :: "'e \<Rightarrow> ('c, 'e, 'a) action" where
  "fail e c = (Err e, c)"

definition succeed :: "'a \<Rightarrow> ('c, 'e, 'a) action" where
  "succeed a c = (Ok a, c)"

definition lift_res :: "('d \<Rightarrow> 'e) \<Rightarrow> ('d, 'a) res \<Rightarrow> ('c, 'e, 'a) action" where
  "lift_res f r = (case r of Ok a \<Rightarrow> succeed a | Err d \<Rightarrow> fail (f d))"

datatype 'e ton_error =
    Service 'e
  | SeqnoNotPositive
  | LtNotPositive
  | WorkchainNotMaster
  | BadAccountAddress addr_error
  | InvalidLastTx
  | TxNotFound
  | BadTransaction raw_tx_error

record RawFullAccountState =
  state_block_id :: TonBlockIdExt
  last_transaction_id :: "InternalTransactionId option"
  state_balance :: "i64 option"
  state_code :: string
  state_data :: string
  state_frozen_hash :: string

text \<open>What a get-method leaves: the gas it used, its stack and its exit code.\<close>

record 'v SmcRunResult =
  run_gas_used :: i64
  run_stack :: "'v list"
  run_exit_code :: i32

record ('c, 'e, 'v) ton_ops =
  send_masterchain_info :: "('c, 'e, TonBlockIdExt) action"
  send_lookup :: "BlocksLookupBlock \<Rightarrow> ('c, 'e, TonBlockIdExt) action"
  send_shards :: "TonBlockIdExt \<Rightarrow> ('c, 'e, TonBlockIdExt list) action"
  send_header :: "TonBlockIdExt \<Rightarrow> ('c, 'e, BlocksHeader) action"
  send_account_state :: "AccountAddress \<Rightarrow> ('c, 'e, RawFullAccountState) action"
  send_account_state_with_block :: "AccountAddress WithBlock \<Rightarrow> ('c, 'e, RawFullAccountState) action"
  send_account_state_forward :: "AccountAddress Forward \<Rightarrow> ('c, 'e, RawFullAccountState) action"
  send_account_state_by_tx :: "AccountAddress \<times> InternalTransactionId \<Rightarrow> ('c, 'e, RawFullAccountState) action"
  send_full_account_state :: "AccountAddress \<Rightarrow> ('c, 'e, 'v) action"
  send_raw_transactions :: "AccountAddress \<times> InternalTransactionId \<times> i32 \<times> bool \<Rightarrow>
    ('c, 'e, RawTransaction list \<times> InternalTransactionId option) action"
  send_transactions_ext :: "BlocksGetTransactions \<Rightarrow> ('c, 'e, RawTransaction list \<times> bool) action"
  send_transactions :: "BlocksGetTransactions \<Rightarrow> ('c, 'e, BlocksShortTxId list \<times> bool) action"
  send_raw_message :: "string \<Rightarrow> ('c, 'e, unit) action"
  send_raw_message_hash :: "string \<Rightarrow> ('c, 'e, string) action"
  send_run_get_method :: "AccountAddress \<times> string \<times> 'v list \<Rightarrow> ('c, 'e, 'v SmcRunResult) action"
  send_shard_account_cell :: "AccountAddress \<Rightarrow> ('c, 'e, 'v) action"
  send_shard_account_cell_with_block :: "AccountAddress WithBlock \<Rightarrow> ('c, 'e, 'v) action"
  send_shard_account_cell_forward :: "AccountAddress Forward \<Rightarrow> ('c, 'e, 'v) action"
  send_shard_account_cell_by_tx :: "AccountAddress \<times> InternalTransactionId \<Rightarrow> ('c, 'e, 'v) action"

definition oneshot :: "('c, 'e, 'a) action \<Rightarrow> ('c, 'e ton_error, 'a) action" where
  "oneshot m c = (case m c of (Err e, c) \<Rightarrow> (Err (Service e), c) | (Ok a, c) \<Rightarrow> (Ok a, c))"

definition MAIN_CHAIN :: i32 where
  "MAIN_CHAIN = - 1"

definition MAIN_SHARD :: i64 where
  "MAIN_SHARD = - 9223372036854775808"

definition get_masterchain_info :: "('c, 'e, 'v) ton_ops \<Rightarrow> ('c, 'e ton_error, TonBlockIdExt) action" where
  "get_masterchain_info T = oneshot (send_masterchain_info T)"

definition client_ready :: "('c, 'e, 'v) ton_ops \<Rightarrow> ('c, 'e ton_error, unit) action" where
  "client_ready T = and_then (get_masterchain_info T) (\<lambda>_. succeed ())"

definition look_up_block_by_seqno ::
    "('c, 'e, 'v) ton_ops \<Rightarrow> i32 \<Rightarrow> i64 \<Rightarrow> i32 \<Rightarrow> ('c, 'e ton_error, TonBlockIdExt) action" where
  "look_up_block_by_seqno T chain sh q =
     (if q \<le> 0 then fail SeqnoNotPositive
      else oneshot (send_lookup T (lookup_seqno \<lparr>workchain = chain, shard = sh, seqno = q\<rparr>)))"

definition look_up_block_by_lt ::
    "('c, 'e, 'v) ton_ops \<Rightarrow> i32 \<Rightarrow> i64 \<Rightarrow> i64 \<Rightarrow> ('c, 'e ton_error, TonBlockIdExt) action" where
  "look_up_block_by_lt T chain sh lt =
     (if lt \<le> 0 then fail LtNotPositive
      else oneshot (send_lookup T (lookup_logical_time \<lparr>workchain = chain, shard = sh, seqno = 0\<rparr> lt)))"

definition get_shards :: "('c, 'e, 'v) ton_ops \<Rightarrow> i32 \<Rightarrow> ('c, 'e ton_error, TonBlockIdExt list) action" where
  "get_shards T master_seqno =
     and_then (look_up_block_by_seqno T MAIN_CHAIN MAIN_SHARD master_seqno) (\<lambda>b. oneshot (send_shards T b))"

definition get_shards_by_block_id ::
    "('c, 'e, 'v) ton_ops \<Rightarrow> TonBlockIdExt \<Rightarrow> ('c, 'e ton_error, TonBlockIdExt list) action" where
  "get_shards_by_block_id T bid =
     (if workchain bid \<noteq> - 1 then fail WorkchainNotMaster else oneshot (send_shards T bid))"

definition get_block_header ::
    "('c, 'e, 'v) ton_ops \<Rightarrow> i32 \<Rightarrow> i64 \<Rightarrow> i32 \<Rightarrow> (string \<times> string) option \<Rightarrow> ('c, 'e ton_error, BlocksHeader) action" where
  "get_block_header T wc sh q hashes =
     and_then
       (case hashes of
          Some h \<Rightarrow> succeed h
        | None \<Rightarrow> and_then (look_up_block_by_seqno T wc sh q) (\<lambda>b. succeed (root_hash b, file_hash b)))
       (\<lambda>(rh, fh). oneshot (send_header T
          \<lparr>workchain = wc, shard = sh, seqno = q, root_hash = rh, file_hash = fh\<rparr>))"

definition with_address ::
    "addr_ops \<Rightarrow> string \<Rightarrow> (AccountAddress \<Rightarrow> ('c, 'e, 'a) action) \<Rightarrow> ('c, 'e ton_error, 'a) action" where
  "with_address A address f =
     and_then (lift_res BadAccountAddress (account_address_new A address)) (\<lambda>a. oneshot (f a))"

definition raw_get_account_state ::
    "addr_ops \<Rightarrow> ('c, 'e, 'v) ton_ops \<Rightarrow> string \<Rightarrow> ('c, 'e ton_error, RawFullAccountState) action" where
  "raw_get_account_state A T address = with_address A address (send_account_state T)"

definition raw_get_account_state_on_block ::
    "addr_ops \<Rightarrow> ('c, 'e, 'v) ton_ops \<Rightarrow> string \<Rightarrow> TonBlockIdExt \<Rightarrow> ('c, 'e ton_error, RawFullAccountState) action" where
  "raw_get_account_state_on_block A T address bid =
     with_address A address (\<lambda>a. send_account_state_with_block T \<lparr>with_id = bid, with_function = a\<rparr>)"

definition raw_get_account_state_at_least_block ::
    "addr_ops \<Rightarrow> ('c, 'e, 'v) ton_ops \<Rightarrow> string \<Rightarrow> TonBlockIdExt \<Rightarrow> ('c, 'e ton_error, RawFullAccountState) action" where
  "raw_get_account_state_at_least_block A T address bid =
     with_address A address (\<lambda>a. send_account_state_forward T
       (forward_new (Block (workchain bid) (Seqno (shard bid) (seqno bid))) a))"

definition raw_get_account_state_by_transaction ::
    "addr_ops \<Rightarrow> ('c, 'e, 'v) ton_ops \<Rightarrow> string \<Rightarrow> InternalTransactionId \<Rightarrow> ('c, 'e ton_error, RawFullAccountState) action" where
  "raw_get_account_state_by_transaction A T address tid =
     with_address A address (\<lambda>a. send_account_state_by_tx T (a, tid))"

definition get_account_state ::
    "addr_ops \<Rightarrow> ('c, 'e, 'v) ton_ops \<Rightarrow> string \<Rightarrow> ('c, 'e ton_error, 'v) action" where
  "get_account_state A T address = with_address A address (send_full_account_state T)"

definition raw_get_transactions ::
    "addr_ops \<Rightarrow> ('c, 'e, 'v) ton_ops \<Rightarrow> string \<Rightarrow> InternalTransactionId \<Rightarrow>
     ('c, 'e ton_error, RawTransaction list \<times> InternalTransactionId option) action" where
  "raw_get_transactions A T address from_tx =
     with_address A address (\<lambda>a. send_raw_transactions T (a, from_tx, 16, False))"

definition blocks_get_transactions_ext ::
    "('c, 'e, 'v) ton_ops \<Rightarrow> TonBlockIdExt \<Rightarrow> BlocksAccountTransactionId option \<Rightarrow> bool \<Rightarrow> i32 \<Rightarrow>
     ('c, 'e ton_error, RawTransaction list \<times> bool) action" where
  "blocks_get_transactions_ext T bid tx reverse cnt = oneshot (send_transactions_ext T (ext_unverified bid tx reverse cnt))"

definition blocks_get_transactions ::
    "('c, 'e, 'v) ton_ops \<Rightarrow> TonBlockIdExt \<Rightarrow> BlocksAccountTransactionId option \<Rightarrow> bool \<Rightarrow> i32 \<Rightarrow>
     ('c, 'e ton_error, BlocksShortTxId list \<times> bool) action" where
  "blocks_get_transactions T bid tx reverse cnt = oneshot (send_transactions T (txs_unverified bid tx reverse cnt))"

definition blocks_get_transactions_verified ::
    "('c, 'e, 'v) ton_ops \<Rightarrow> TonBlockIdExt \<Rightarrow> BlocksAccountTransactionId option \<Rightarrow> bool \<Rightarrow> i32 \<Rightarrow>
     ('c, 'e ton_error, BlocksShortTxId list \<times> bool) action" where
  "blocks_get_transactions_verified T bid tx reverse cnt = oneshot (send_transactions T (txs_verified bid tx reverse cnt))"

definition send_message :: "('c, 'e, 'v) ton_ops \<Rightarrow> string \<Rightarrow> ('c, 'e ton_error, unit) action" where
  "send_message T message = and_then (oneshot (send_raw_message T message)) (\<lambda>_. succeed ())"

definition send_message_returning_hash :: "('c, 'e, 'v) ton_ops \<Rightarrow> string \<Rightarrow> ('c, 'e ton_error, string) action" where
  "send_message_returning_hash T message = oneshot (send_raw_message_hash T message)"

definition run_get_method ::
    "addr_ops \<Rightarrow> ('c, 'e, 'v) ton_ops \<Rightarrow> string \<Rightarrow> string \<Rightarrow> 'v list \<Rightarrow> ('c, 'e ton_error, 'v SmcRunResult) action" where
  "run_get_method A T address meth stack = with_address A address (\<lambda>a. send_run_get_method T (a, meth, stack))"

definition get_shard_account_cell ::
    "addr_ops \<Rightarrow> ('c, 'e, 'v) ton_ops \<Rightarrow> string \<Rightarrow> ('c, 'e ton_error, 'v) action" where
  "get_shard_account_cell A T address = with_address A address (send_shard_account_cell T)"

definition get_shard_account_cell_on_block ::
    "addr_ops \<Rightarrow> ('c, 'e, 'v) ton_ops \<Rightarrow> string \<Rightarrow> TonBlockIdExt \<Rightarrow> ('c, 'e ton_error, 'v) action" where
  "get_shard_account_cell_on_block A T address bid =
     with_address A address (\<lambda>a. send_shard_account_cell_with_block T \<lparr>with_id = bid, with_function = a\<rparr>)"

definition get_shard_account_cell_at_least_block ::
    "addr_ops \<Rightarrow> ('c, 'e, 'v) ton_ops \<Rightarrow> string \<Rightarrow> TonBlockIdExt \<Rightarrow> ('c, 'e ton_error, 'v) action" where
  "get_shard_account_cell_at_least_block A T address bid =
     with_address A address (\<lambda>a. send_shard_account_cell_forward T
       (forward_new (Block (workchain bid) (Seqno (shard bid) (seqno bid))) a))"

definition get_shard_account_cell_by_transaction ::
    "addr_ops \<Rightarrow> ('c, 'e, 'v) ton_ops \<Rightarrow> string \<Rightarrow> InternalTransactionId \<Rightarrow> ('c, 'e ton_error, 'v) action" where
  "get_shard_account_cell_by_transaction A T address tid =
     with_address A address (\<lambda>a. send_shard_account_cell_by_tx T (a, tid))"

end
