(* ===== verification/Ton_Streams.thy ===== *)
theory Ton_Streams
  imports Ton_Client
begin

text \<open>
  The streams of \<^verbatim>\<open>tonlibjson-client/src/ton.rs\<close>: the transactions of a block page by page, the two
  directions merged, the history of an account and its ranges, and the search for an account's
  first transaction. \<open>StreamMap\<close> polls its streams in an order of its own choice: the order is a
  schedule, a list of directions.
\<close>

section \<open>Transactions of a block\<close>

text \<open>
  \<open>get_block_tx_stream\<close> and \<open>get_block_tx_id_stream\<close> differ in the request and in how the last
  transaction of a page becomes the start of the next one; \<open>get_page\<close> and \<open>to_after\<close> are the two.
\<close>

partial_function (option) tx_pages ::
    "(BlocksAccountTransactionId option \<Rightarrow> i32 \<Rightarrow> ('c, 'e, 'a list \<times> bool) action) \<Rightarrow>
     ('a \<Rightarrow> ('e, BlocksAccountTransactionId) res) \<Rightarrow>
     BlocksAccountTransactionId option \<Rightarrow> nat \<Rightarrow> 'c \<Rightarrow> ('a list \<times> 'e option \<times> 'c) option" where
  "tx_pages get_page to_after last_tx n c =
     (case fst (get_page last_tx (2 ^ n) c) of
        Err e \<Rightarrow> Some ([], Some e, snd (get_page last_tx (2 ^ n) c))
      | Ok page \<Rightarrow>
          (case (if fst page = [] then Ok None
                 else case to_after (last (fst page)) of Ok a \<Rightarrow> Ok (Some a) | Err e \<Rightarrow> Err e) of
             Err e \<Rightarrow> Some ([], Some e, snd (get_page last_tx (2 ^ n) c))
           | Ok last_tx' \<Rightarrow>
               if snd page
               then Option.bind
                 (tx_pages get_page to_after last_tx' (min 8 (n + 1)) (snd (get_page last_tx (2 ^ n) c)))
                 (\<lambda>r. Some (fst page @ fst r, snd r))
               else Some (fst page, None, snd (get_page last_tx (2 ^ n) c))))"

definition get_block_tx_stream ::
    "addr_ops \<Rightarrow> ('c, 'e, 'v) ton_ops \<Rightarrow> TonBlockIdExt \<Rightarrow> bool \<Rightarrow> 'c \<Rightarrow>
     (RawTransaction list \<times> 'e ton_error option \<times> 'c) option" where
  "get_block_tx_stream A T bid reverse =
     tx_pages (\<lambda>tx cnt. blocks_get_transactions_ext T bid tx reverse cnt)
       (\<lambda>t. case account_tx_of_raw A t of Ok a \<Rightarrow> Ok a | Err e \<Rightarrow> Err (BadTransaction e)) None 5"

definition get_block_tx_id_stream ::
    "('c, 'e, 'v) ton_ops \<Rightarrow> TonBlockIdExt \<Rightarrow> bool \<Rightarrow> 'c \<Rightarrow>
     (BlocksShortTxId list \<times> 'e ton_error option \<times> 'c) option" where
  "get_block_tx_id_stream T bid reverse =
     tx_pages (\<lambda>tx cnt. blocks_get_transactions T bid tx reverse cnt) (\<lambda>t. Ok (account_tx_of_short t)) None 5"

text \<open>
  Two streams polled by a \<open>StreamMap\<close>: the next item and the direction it came from. When one
  stream has ended the other one is polled.
\<close>

fun next_item :: "bool list \<Rightarrow> 'a list \<Rightarrow> 'a list \<Rightarrow> (bool \<times> 'a \<times> 'a list \<times> 'a list) option" where
  "next_item sched [] [] = None"
| "next_item sched (x # xs) [] = Some (False, x, xs, [])"
| "next_item sched [] (y # ys) = Some (True, y, [], ys)"
| "next_item sched (x # xs) (y # ys) =
     (if sched \<noteq> [] \<and> hd sched then Some (True, y, x # xs, ys) else Some (False, x, xs, y # ys))"

lemma next_item_length:
  "next_item sched xs ys = Some (k, z, xs', ys') \<Longrightarrow> length xs' + length ys' < length xs + length ys"
  by (cases xs; cases ys) (auto split: if_splits)

text \<open>
  \<open>get_block_tx_stream_unordered\<close> and \<open>get_accounts_in_block_stream\<close> on the items of the two streams
  of the block; \<open>prev\<close> is the map \<open>last\<close> of the code. The result is what is yielded and the error
  that ends the stream, if one does.
\<close>

definition stream_items :: "'a list \<times> 'e option \<times> 'c \<Rightarrow> ('e, 'a) res list" where
  "stream_items r = map Ok (fst r) @ (case fst (snd r) of None \<Rightarrow> [] | Some e \<Rightarrow> [Err e])"

function tx_stream_unordered ::
    "bool list \<Rightarrow> (bool \<rightharpoonup> BlocksShortTxId) \<Rightarrow> ('e, BlocksShortTxId) res list \<Rightarrow> ('e, BlocksShortTxId) res list \<Rightarrow>
     BlocksShortTxId list \<times> 'e option" where
  "tx_stream_unordered sched prev xs ys =
     (case next_item sched xs ys of
        None \<Rightarrow> ([], None)
      | Some (key, Err e, xs', ys') \<Rightarrow> ([], Some e)
      | Some (key, Ok tx, xs', ys') \<Rightarrow>
          if (case prev (\<not> key) of Some prev_tx \<Rightarrow> tx_eq prev_tx tx | None \<Rightarrow> False) then ([], None)
          else apfst (Cons tx) (tx_stream_unordered (tl sched) (prev(key \<mapsto> tx)) xs' ys'))"
  by pat_completeness auto
termination
  by (relation "measure (\<lambda>(_, _, xs, ys). length xs + length ys)") (auto dest: next_item_length)

declare tx_stream_unordered.simps [simp del]

definition get_block_tx_stream_unordered ::
    "bool list \<Rightarrow> ('e, BlocksShortTxId) res list \<Rightarrow> ('e, BlocksShortTxId) res list \<Rightarrow> BlocksShortTxId list \<times> 'e option" where
  "get_block_tx_stream_unordered sched forward_txs reverse_txs =
     tx_stream_unordered sched Map.empty forward_txs reverse_txs"

function accounts_stream ::
    "bool list \<Rightarrow> (bool \<rightharpoonup> string) \<Rightarrow> ('e, BlocksShortTxId) res list \<Rightarrow> ('e, BlocksShortTxId) res list \<Rightarrow>
     BlocksShortTxId list \<times> 'e option" where
  "accounts_stream sched prev xs ys =
     (case next_item sched xs ys of
        None \<Rightarrow> ([], None)
      | Some (key, Err e, xs', ys') \<Rightarrow> ([], Some e)
      | Some (key, Ok tx, xs', ys') \<Rightarrow>
          if prev (\<not> key) = Some (tx_account tx) then ([], None)
          else if prev key = Some (tx_account tx) then accounts_stream (tl sched) prev xs' ys'
          else apfst (Cons tx) (accounts_stream (tl sched) (prev(key \<mapsto> tx_account tx)) xs' ys'))"
  by pat_completeness auto
termination
  by (relation "measure (\<lambda>(_, _, xs, ys). length xs + length ys)") (auto dest: next_item_length)

declare accounts_stream.simps [simp del]

text \<open>An account that is not a valid shard address makes the stream panic when it is yielded.\<close>

definition get_accounts_in_block_stream ::
    "addr_ops \<Rightarrow> i32 \<Rightarrow> bool list \<Rightarrow> ('e, BlocksShortTxId) res list \<Rightarrow> ('e, BlocksShortTxId) res list \<Rightarrow>
     InternalAccountAddress may_panic list \<times> 'e option" where
  "get_accounts_in_block_stream A chain sched forward_txs reverse_txs =
     apfst (map (\<lambda>tx. tx_into_internal A tx chain)) (accounts_stream sched Map.empty forward_txs reverse_txs)"

section \<open>Pages\<close>

text \<open>A server that holds the transactions \<open>txs\<close> of a block and answers page by page.\<close>

definition after_position :: "BlocksShortTxId list \<Rightarrow> BlocksGetTransactions \<Rightarrow> BlocksShortTxId list" where
  "after_position xs r =
     (if bit (txs_mode r) 7 then tl (dropWhile (\<lambda>t. account_tx_of_short t \<noteq> txs_after r) xs) else xs)"

definition page_server :: "BlocksShortTxId list \<Rightarrow> BlocksGetTransactions \<Rightarrow> ('c, 'e, BlocksShortTxId list \<times> bool) action" where
  "page_server txs r c =
     (let xs = after_position (if bit (txs_mode r) 6 then rev txs else txs) r; n = nat (txs_count r)
      in (Ok (take n xs, n < length xs), c))"

lemma dropWhile_prefix:
  "distinct (map f (ps @ x # xs)) \<Longrightarrow> dropWhile (\<lambda>t. f t \<noteq> f x) (ps @ x # xs) = x # xs"
  by (induction ps) auto

text \<open>The server answers requests about the block \<open>bid\<close> so; what it says of other blocks is left open.\<close>

definition serves_pages :: "('c, 'e, 'v) ton_ops \<Rightarrow> TonBlockIdExt \<Rightarrow> BlocksShortTxId list \<Rightarrow> bool" where
  "serves_pages T bid txs \<longleftrightarrow> (\<forall>r c. txs_id r = bid \<longrightarrow> send_transactions T r c = page_server txs r c)"

lemma page_after:
  assumes "distinct (map account_tx_of_short xs)" and "xs = ps @ suf"
    and "(if ps = [] then after = None else after = Some (account_tx_of_short (last ps)))"
    and "n \<le> 8" and that: "xs = (if reverse then rev txs else txs)" and "serves_pages T bid txs"
  shows "blocks_get_transactions T bid after reverse (2 ^ n) c =
      (Ok (take (2 ^ n) suf, 2 ^ n < length suf), c)"
proof -
  let ?r = "txs_unverified bid after reverse (2 ^ n)"
  note f = txs_request_fields [of ?r bid after reverse "2 ^ n", simplified]
  have "(2 :: int) ^ n \<le> 2 ^ 8" using assms(4) by (intro power_increasing) auto
  then have cnt: "nat (txs_count ?r) = 2 ^ n" using f(4) by (simp add: min_absorb1 nat_power_eq)
  have "after_position xs ?r = suf"
  proof (cases "ps = []")
    case True
    with assms(2,3) f(2) show ?thesis by (simp add: after_position_def)
  next
    case False
    then obtain qs q where ps: "ps = qs @ [q]" by (metis rev_exhaust)
    with assms(3) have "after = Some (account_tx_of_short q)" by simp
    with f(2,6) have "bit (txs_mode ?r) 7" "txs_after ?r = account_tx_of_short q" by auto
    with assms(1,2) ps dropWhile_prefix [of account_tx_of_short qs q suf] show ?thesis
      by (simp add: after_position_def)
  qed
  with that cnt f(1,5) assms(6) show ?thesis
    by (simp add: blocks_get_transactions_def oneshot_def serves_pages_def page_server_def Let_def nat_power_eq)
qed

lemma tx_pages_collect:
  assumes "distinct (map account_tx_of_short xs)" and "xs = (if reverse then rev txs else txs)"
    and "serves_pages T bid txs"
  shows "xs = ps @ suf \<Longrightarrow> n \<le> 8 \<Longrightarrow>
    (if ps = [] then after = None else after = Some (account_tx_of_short (last ps))) \<Longrightarrow>
    tx_pages (\<lambda>tx cnt. blocks_get_transactions T bid tx reverse cnt)
      (\<lambda>t. Ok (account_tx_of_short t)) after n c = Some (suf, None, c)"
proof (induction "length suf" arbitrary: ps suf n after rule: less_induct)
  case less
  let ?page = "take (2 ^ n) suf"
  note page = page_after [OF assms(1) less.prems(1,3,2) assms(2,3), of c]
  show ?case
  proof (cases "2 ^ n < length suf")
    case False
    then show ?thesis by (subst tx_pages.simps) (auto simp: page)
  next
    case True
    then have ne: "?page \<noteq> []" by (cases suf) auto
    have "tx_pages (\<lambda>tx cnt. blocks_get_transactions T bid tx reverse cnt)
        (\<lambda>t. Ok (account_tx_of_short t)) (Some (account_tx_of_short (last ?page))) (min 8 (n + 1)) c =
        Some (drop (2 ^ n) suf, None, c)"
    proof (rule less.hyps)
      show "length (drop (2 ^ n) suf) < length suf"
      using True zero_less_power [of "2 :: nat" n] unfolding length_drop by linarith
      show "xs = (ps @ ?page) @ drop (2 ^ n) suf" using less.prems(1) by simp
      show "if ps @ ?page = [] then Some (account_tx_of_short (last ?page)) = None
        else Some (account_tx_of_short (last ?page)) = Some (account_tx_of_short (last (ps @ ?page)))"
        using ne by simp
    qed simp
    with True ne show ?thesis by (subst tx_pages.simps) (simp add: page del: One_nat_def)
  qed
qed

section \<open>Merging the two directions\<close>

text \<open>What the two streams yield when neither fails, on any type of items.\<close>

function merge_unordered :: "bool list \<Rightarrow> (bool \<rightharpoonup> 'a) \<Rightarrow> 'a list \<Rightarrow> 'a list \<Rightarrow> 'a list" where
  "merge_unordered sched prev xs ys =
     (case next_item sched xs ys of
        None \<Rightarrow> []
      | Some (key, tx, xs', ys') \<Rightarrow>
          if prev (\<not> key) = Some tx then []
          else tx # merge_unordered (tl sched) (prev(key \<mapsto> tx)) xs' ys')"
  by pat_completeness auto
termination
  by (relation "measure (\<lambda>(_, _, xs, ys). length xs + length ys)") (auto dest: next_item_length)

declare merge_unordered.simps [simp del]

function merge_accounts :: "bool list \<Rightarrow> (bool \<rightharpoonup> 'a) \<Rightarrow> 'a list \<Rightarrow> 'a list \<Rightarrow> 'a list" where
  "merge_accounts sched prev xs ys =
     (case next_item sched xs ys of
        None \<Rightarrow> []
      | Some (key, account, xs', ys') \<Rightarrow>
          if prev (\<not> key) = Some account then []
          else if prev key = Some account then merge_accounts (tl sched) prev xs' ys'
          else account # merge_accounts (tl sched) (prev(key \<mapsto> account)) xs' ys')"
  by pat_completeness auto
termination
  by (relation "measure (\<lambda>(_, _, xs, ys). length xs + length ys)") (auto dest: next_item_length)

declare merge_accounts.simps [simp del]

lemma next_item_map:
  "next_item sched (map f xs) (map f ys) =
     map_option (\<lambda>(k, x, xs', ys'). (k, f x, map f xs', map f ys')) (next_item sched xs ys)"
  by (cases xs; cases ys) auto

lemma tx_eq_iff [simp]: "tx_eq a b \<longleftrightarrow> a = b"
  by (auto simp: tx_eq_def intro: BlocksShortTxId.equality)

lemma tx_stream_unordered_ok:
  "tx_stream_unordered sched prev (map Ok xs) (map Ok ys) = (merge_unordered sched prev xs ys, None)"
proof (induction "length xs + length ys" arbitrary: sched prev xs ys rule: less_induct)
  case less
  show ?case
  proof (cases "next_item sched xs ys")
    case None
    then show ?thesis
      by (subst tx_stream_unordered.simps, subst merge_unordered.simps) (simp add: next_item_map)
  next
    case (Some r)
    obtain key tx xs' ys' where r: "r = (key, tx, xs', ys')" by (cases r)
    note rest = less [OF next_item_length [OF Some [unfolded r]], of "tl sched" "prev(key \<mapsto> tx)"]
    show ?thesis
      using Some r rest
      by (subst tx_stream_unordered.simps, subst merge_unordered.simps)
        (auto simp: next_item_map split: option.splits)
  qed
qed

lemma accounts_stream_ok:
  "apfst (map tx_account) (accounts_stream sched prev (map Ok xs) (map Ok ys)) =
     (merge_accounts sched prev (map tx_account xs) (map tx_account ys), None)"
proof (induction "length xs + length ys" arbitrary: sched prev xs ys rule: less_induct)
  case less
  show ?case
  proof (cases "next_item sched xs ys")
    case None
    then show ?thesis
      by (subst accounts_stream.simps, subst merge_accounts.simps) (simp add: next_item_map)
  next
    case (Some r)
    obtain key tx xs' ys' where r: "r = (key, tx, xs', ys')" by (cases r)
    note rest = less [OF next_item_length [OF Some [unfolded r]], of "tl sched"]
    show ?thesis
      using Some r rest [of prev] rest [of "prev(key \<mapsto> tx_account tx)"]
      by (subst accounts_stream.simps, subst merge_accounts.simps)
        (auto simp: next_item_map prod_eq_iff)
  qed
qed

lemmas accounts_stream_parts = accounts_stream_ok [THEN arg_cong [where f = fst], simplified]
  accounts_stream_ok [THEN arg_cong [where f = snd], simplified]

text \<open>
  What was yielded from the front is \<open>front\<close>, what was yielded from the back is \<open>rear\<close>, and the map
  holds the last of each.
\<close>

definition ends :: "'a list \<Rightarrow> 'a list \<Rightarrow> bool \<rightharpoonup> 'a" where
  "ends front rear key =
     (if key then (if rear = [] then None else Some (hd rear))
      else (if front = [] then None else Some (last front)))"

lemma ends_upd [simp]:
  "(ends front rear)(False \<mapsto> x) = ends (front @ [x]) rear"
  "(ends front rear)(True \<mapsto> x) = ends front (x # rear)"
  by (auto simp: ends_def fun_eq_iff)

lemma ends_empty: "ends [] [] = Map.empty"
  by (auto simp: ends_def fun_eq_iff)

text \<open>The next item of a merge with \<open>mid\<close> left over.\<close>

lemma next_item_mid:
  assumes "next_item sched (mid @ rear) (rev (front @ mid)) = Some (key, x, xs', ys')"
  shows "\<not> key \<and> (mid @ rear = x # xs') \<and> ys' = rev (front @ mid) \<or>
    key \<and> rev (front @ mid) = x # ys' \<and> xs' = mid @ rear"
  using assms
  by (cases "mid @ rear"; cases "rev (front @ mid)") (auto split: if_splits)

lemma next_item_exists:
  assumes "mid \<noteq> []"
  obtains key x xs' ys' where "next_item sched (mid @ rear) (rev (front @ mid)) = Some (key, x, xs', ys')"
proof -
  obtain a as where "mid @ rear = a # as" using assms by (cases "mid @ rear") auto
  moreover obtain b bs where "rev (front @ mid) = b # bs" using assms by (cases "rev (front @ mid)") auto
  ultimately show thesis using that by (cases "sched \<noteq> [] \<and> hd sched") auto
qed

lemma unordered_mid:
  assumes "distinct (front @ mid @ rear)"
  shows "mset (merge_unordered sched (ends front rear) (mid @ rear) (rev (front @ mid))) = mset mid"
  using assms
proof (induction "length mid" arbitrary: front mid rear sched)
  case 0
  then have mid: "mid = []" by simp
  show ?case
  proof (cases "next_item sched (mid @ rear) (rev (front @ mid))")
    case None
    then show ?thesis using mid by (subst merge_unordered.simps) simp
  next
    case (Some r)
    obtain key x xs' ys' where r: "r = (key, x, xs', ys')" by (cases r)
    from next_item_mid [OF Some [unfolded r]] have "ends front rear (\<not> key) = Some x"
      using mid by (cases front rule: rev_cases) (auto simp: ends_def)
    with Some r mid show ?thesis by (subst merge_unordered.simps) simp
  qed
next
  case (Suc n)
  then have ne: "mid \<noteq> []" by auto
  then obtain key x xs' ys' where r: "next_item sched (mid @ rear) (rev (front @ mid)) = Some (key, x, xs', ys')"
    by (rule next_item_exists)
  from next_item_mid [OF this] show ?case
  proof (elim disjE conjE)
    assume k: "\<not> key" and x: "mid @ rear = x # xs'" and ys: "ys' = rev (front @ mid)"
    from x ne obtain mid' where m: "mid = x # mid'" "xs' = mid' @ rear" by (cases mid) auto
    have "mset (merge_unordered (tl sched) (ends (front @ [x]) rear) (mid' @ rear) (rev ((front @ [x]) @ mid'))) = mset mid'"
      by (rule Suc.hyps) (use Suc.hyps(2) Suc.prems m in auto)
    moreover have "ends front rear True \<noteq> Some x" using Suc.prems m by (cases rear) (auto simp: ends_def)
    ultimately show ?thesis using r k m ys by (subst merge_unordered.simps) simp
  next
    assume k: key and x: "rev (front @ mid) = x # ys'" and xs: "xs' = mid @ rear"
    from x ne obtain mid' where m: "mid = mid' @ [x]" "ys' = rev (front @ mid')" by (cases mid rule: rev_cases) auto
    have "mset (merge_unordered (tl sched) (ends front (x # rear)) (mid' @ x # rear) (rev (front @ mid'))) = mset mid'"
      by (rule Suc.hyps) (use Suc.hyps(2) Suc.prems m in auto)
    moreover have "ends front rear False \<noteq> Some x"
      using Suc.prems m by (cases front rule: rev_cases) (auto simp: ends_def)
    ultimately show ?thesis using r k m xs by (subst merge_unordered.simps) simp
  qed
qed

text \<open>Between two transactions of an account there are only transactions of that account.\<close>

definition grouped :: "'a list \<Rightarrow> bool" where
  "grouped xs \<longleftrightarrow> (\<forall>ps x ms qs. xs = ps @ x # ms @ x # qs \<longrightarrow> set ms \<subseteq> {x})"

lemma groupedD: "grouped (ps @ x # ms @ x # qs) \<Longrightarrow> set ms \<subseteq> {x}"
  unfolding grouped_def by blast

lemma grouped_rev: "grouped xs \<Longrightarrow> grouped (rev xs)"
  unfolding grouped_def
proof (intro allI impI)
  fix ps x ms qs
  assume "\<forall>ps x ms qs. xs = ps @ x # ms @ x # qs \<longrightarrow> set ms \<subseteq> {x}" and "rev xs = ps @ x # ms @ x # qs"
  moreover from this(2) have "xs = rev qs @ x # rev ms @ x # rev ps" by (simp add: rev_swap)
  ultimately show "set ms \<subseteq> {x}" by (metis set_rev)
qed

lemma grouped_front:
  assumes "grouped (front @ x # rest)" and "front = [] \<or> last front \<noteq> x"
  shows "x \<notin> set front"
proof
  assume "x \<in> set front"
  then obtain as bs where f: "front = as @ x # bs" by (meson split_list)
  with assms(2) have "bs \<noteq> []" "last bs \<noteq> x" by auto
  moreover have "set bs \<subseteq> {x}" using assms(1) f by (intro groupedD [of as x bs rest]) simp
  ultimately show False by (metis insert_absorb insert_subset last_in_set singletonD subsetD)
qed

lemma grouped_back:
  assumes "grouped (rest @ x # mid @ rear)"
  shows "rear \<noteq> [] \<and> hd rear = x \<Longrightarrow> set mid \<subseteq> {x}" and "rear = [] \<or> hd rear \<noteq> x \<Longrightarrow> x \<notin> set rear"
proof -
  show "set mid \<subseteq> {x}" if "rear \<noteq> [] \<and> hd rear = x"
  proof -
    from that obtain bs where "rear = x # bs" by (cases rear) auto
    with assms show ?thesis by (intro groupedD [of rest x mid bs]) simp
  qed
  show "x \<notin> set rear" if "rear = [] \<or> hd rear \<noteq> x"
  proof
    assume "x \<in> set rear"
    then obtain as bs where b: "rear = as @ x # bs" by (meson split_list)
    with that have "as \<noteq> []" "hd as \<noteq> x" by (cases as; auto)+
    moreover have "set (mid @ as) \<subseteq> {x}" using assms b by (intro groupedD [of rest x _ bs]) simp
    ultimately show False by (cases as) auto
  qed
qed

lemma accounts_mid:
  assumes "grouped (front @ mid @ rear)"
  shows "distinct (merge_accounts sched (ends front rear) (mid @ rear) (rev (front @ mid))) \<and>
    set (merge_accounts sched (ends front rear) (mid @ rear) (rev (front @ mid))) = set mid - set front - set rear"
  using assms
proof (induction "length mid" arbitrary: front mid rear sched)
  case 0
  then have mid: "mid = []" by simp
  have "merge_accounts sched (ends front rear) (mid @ rear) (rev (front @ mid)) = []"
  proof (cases "next_item sched (mid @ rear) (rev (front @ mid))")
    case None
    then show ?thesis by (subst merge_accounts.simps) simp
  next
    case (Some r)
    obtain key x xs' ys' where r: "r = (key, x, xs', ys')" by (cases r)
    from next_item_mid [OF Some [unfolded r]] have "ends front rear (\<not> key) = Some x"
      using mid by (cases front rule: rev_cases) (auto simp: ends_def)
    with Some r show ?thesis by (subst merge_accounts.simps) simp
  qed
  with mid show ?case by simp
next
  case (Suc n)
  then have ne: "mid \<noteq> []" by auto
  then obtain key x xs' ys' where r: "next_item sched (mid @ rear) (rev (front @ mid)) = Some (key, x, xs', ys')"
    by (rule next_item_exists)
  from next_item_mid [OF this] show ?case
  proof (elim disjE conjE)
    assume k: "\<not> key" and x: "mid @ rear = x # xs'" and ys: "ys' = rev (front @ mid)"
    from x ne obtain mid' where m: "mid = x # mid'" "xs' = mid' @ rear" by (cases mid) auto
    let ?rest = "merge_accounts (tl sched) (ends (front @ [x]) rear) (mid' @ rear) (rev ((front @ [x]) @ mid'))"
    have rest: "distinct ?rest \<and> set ?rest = set mid' - set (front @ [x]) - set rear"
      by (rule Suc.hyps) (use Suc.hyps(2) Suc.prems m in auto)
    have g: "grouped (front @ x # mid' @ rear)" using Suc.prems m by simp
    consider (stop) "rear \<noteq> [] \<and> hd rear = x" | (skip) "rear = [] \<or> hd rear \<noteq> x" "front \<noteq> []" "last front = x"
      | (new) "rear = [] \<or> hd rear \<noteq> x" "front = [] \<or> last front \<noteq> x" by blast
    then show ?thesis
    proof cases
      case stop
      then have "set mid - set rear = {}" using grouped_back(1) [OF g] m by (cases rear) auto
      moreover have "merge_accounts sched (ends front rear) (mid @ rear) (rev (front @ mid)) = []"
        using r k stop by (subst merge_accounts.simps) (simp add: ends_def)
      ultimately show ?thesis by auto
    next
      case skip
      then have e: "ends front rear = ends (front @ [x]) rear" by (auto simp: ends_def fun_eq_iff)
      from skip have "merge_accounts sched (ends front rear) (mid @ rear) (rev (front @ mid)) = ?rest"
        using r k m ys by (subst merge_accounts.simps) (auto simp: e [symmetric], auto simp: ends_def split: if_splits)
      moreover have "x \<in> set front" using skip by auto
      ultimately show ?thesis using rest m by auto
    next
      case new
      then have "merge_accounts sched (ends front rear) (mid @ rear) (rev (front @ mid)) = x # ?rest"
        using r k m ys by (subst merge_accounts.simps) (auto simp: ends_def)
      moreover have "x \<notin> set front" "x \<notin> set rear"
        using new grouped_front [OF g] grouped_back(2) [OF g] by auto
      ultimately show ?thesis using rest m by auto
    qed
  next
    assume k: key and x: "rev (front @ mid) = x # ys'" and xs: "xs' = mid @ rear"
    from x ne obtain mid' where m: "mid = mid' @ [x]" "ys' = rev (front @ mid')" by (cases mid rule: rev_cases) auto
    let ?rest = "merge_accounts (tl sched) (ends front (x # rear)) (mid' @ x # rear) (rev (front @ mid'))"
    have rest: "distinct ?rest \<and> set ?rest = set mid' - set front - set (x # rear)"
      by (rule Suc.hyps) (use Suc.hyps(2) Suc.prems m in auto)
    have g: "grouped (rev rear @ x # rev mid' @ rev front)"
      using grouped_rev [OF Suc.prems] m by simp
    consider (stop) "front \<noteq> []" "last front = x" | (skip) "front = [] \<or> last front \<noteq> x" "rear \<noteq> []" "hd rear = x"
      | (new) "front = [] \<or> last front \<noteq> x" "rear = [] \<or> hd rear \<noteq> x" by blast
    then show ?thesis
    proof cases
      case stop
      then have "set mid - set front = {}"
        using grouped_back(1) [OF g] m by (auto simp: hd_rev)
      moreover have "merge_accounts sched (ends front rear) (mid @ rear) (rev (front @ mid)) = []"
        using r k stop by (subst merge_accounts.simps) (simp add: ends_def)
      ultimately show ?thesis by auto
    next
      case skip
      then have e: "ends front rear = ends front (x # rear)" by (auto simp: ends_def fun_eq_iff)
      from skip have "merge_accounts sched (ends front rear) (mid @ rear) (rev (front @ mid)) = ?rest"
        using r k m xs by (subst merge_accounts.simps) (auto simp: e [symmetric], auto simp: ends_def split: if_splits)
      moreover have "x \<in> set rear" using skip by auto
      ultimately show ?thesis using rest m by auto
    next
      case new
      then have "merge_accounts sched (ends front rear) (mid @ rear) (rev (front @ mid)) = x # ?rest"
        using r k m xs by (subst merge_accounts.simps) (auto simp: ends_def)
      moreover have "x \<notin> set front" "x \<notin> set rear"
        using new grouped_back(2) [OF g] grouped_front [OF g] by (auto simp: hd_rev last_rev)
      ultimately show ?thesis using rest m by auto
    qed
  qed
qed

section \<open>What the streams of a block yield\<close>

lemma id_stream_collects:
  assumes "serves_pages T bid txs" and "distinct (map account_tx_of_short txs)"
  shows "get_block_tx_id_stream T bid reverse c = Some (if reverse then rev txs else txs, None, c)"
proof -
  let ?xs = "if reverse then rev txs else txs"
  have d: "distinct (map account_tx_of_short ?xs)" using assms(2) by (auto simp: rev_map [symmetric])
  show ?thesis
    using tx_pages_collect [OF d refl assms(1), of "[]" ?xs 5 None c]
    unfolding get_block_tx_id_stream_def by simp
qed

lemma unordered_each_once:
  assumes "serves_pages T bid txs" and "distinct (map account_tx_of_short txs)"
    and "get_block_tx_id_stream T bid False c1 = Some fwd" and "get_block_tx_id_stream T bid True c2 = Some bwd"
  shows "\<exists>yielded. mset yielded = mset txs \<and>
    get_block_tx_stream_unordered sched (stream_items fwd) (stream_items bwd) = (yielded, None)"
proof -
  have "stream_items fwd = map Ok txs" "stream_items bwd = map Ok (rev txs)"
    using assms(3,4) by (auto simp: id_stream_collects [OF assms(1,2)] stream_items_def)
  moreover have "distinct txs" using assms(2) by (simp add: distinct_map)
  ultimately show ?thesis
    using unordered_mid [of "[]" txs "[]" sched]
    by (simp add: get_block_tx_stream_unordered_def tx_stream_unordered_ok ends_empty)
qed

text \<open>A stack of services that serves one block and one account and refuses everything else.\<close>

abbreviation refuse :: "'r \<Rightarrow> (unit, unit, 'a) action" where
  "refuse \<equiv> \<lambda>_ c. (Err (), c)"

definition plain_state :: "TonBlockIdExt \<Rightarrow> InternalTransactionId option \<Rightarrow> RawFullAccountState" where
  "plain_state b tx = \<lparr>state_block_id = b, last_transaction_id = tx, state_balance = None, state_code = [],
     state_data = [], state_frozen_hash = []\<rparr>"

lemma plain_state_simps [simp]:
  "state_block_id (plain_state b tx) = b" "last_transaction_id (plain_state b tx) = tx"
  by (simp_all add: plain_state_def)

definition example_ton ::
    "BlocksShortTxId list \<Rightarrow>
     (AccountAddress \<times> InternalTransactionId \<times> i32 \<times> bool \<Rightarrow> RawTransaction list \<times> InternalTransactionId option) \<Rightarrow>
     (unit, unit, unit) ton_ops" where
  "example_ton txs history =
     \<lparr>send_masterchain_info = (\<lambda>c. (Ok \<lparr>workchain = - 1, shard = - 9223372036854775808, seqno = 7, root_hash = [], file_hash = []\<rparr>, c)),
       send_lookup = (\<lambda>r c. (Ok \<lparr>workchain = - 1, shard = - 9223372036854775808, seqno = seqno (lookup_id r), root_hash = [], file_hash = []\<rparr>, c)),
       send_shards = refuse, send_header = refuse, send_account_state = refuse,
       send_account_state_with_block = (\<lambda>w c. (Ok (plain_state (with_id w)
         (if seqno (with_id w) < 3 then None else Some \<lparr>itx_hash = [], itx_lt = seqno (with_id w)\<rparr>)), c)),
       send_account_state_forward = refuse, send_account_state_by_tx = refuse, send_full_account_state = refuse,
       send_raw_transactions = (\<lambda>r c. (Ok (history r), c)), send_transactions_ext = refuse,
       send_transactions = page_server txs, send_raw_message = refuse, send_raw_message_hash = refuse,
       send_run_get_method = refuse, send_shard_account_cell = refuse, send_shard_account_cell_with_block = refuse,
       send_shard_account_cell_forward = refuse, send_shard_account_cell_by_tx = refuse\<rparr>"

definition example_txs :: "BlocksShortTxId list" where
  "example_txs = map (\<lambda>(a, l). \<lparr>tx_account = a, tx_hash = ''h'', tx_lt = l\<rparr>)
     [(''A'', 1), (''A'', 2), (''B'', 1), (''C'', 4), (''C'', 5)]"

lemma serves_example: "serves_pages (example_ton txs history) bid txs"
  by (simp add: serves_pages_def example_ton_def Let_def)

lemma distinct_example: "distinct (map account_tx_of_short example_txs)"
  by (simp add: example_txs_def account_tx_of_short_def)

text \<open>
  Against a server that answers page by page, the stream of a block's transactions ends, without
  an error, and has yielded every transaction of the block once, in the order of the block or in the
  reverse order, whatever the number of pages.
\<close>

lemma block_tx_id_stream_complete:
  assumes "serves_pages T bid txs" and "distinct (map account_tx_of_short txs)"
  shows "get_block_tx_id_stream T bid reverse c = Some (if reverse then rev txs else txs, None, c)"
  using assms by (rule id_stream_collects)

lemma block_tx_id_stream_complete_witness:
  "get_block_tx_id_stream (example_ton example_txs (\<lambda>_. ([], None)))
     \<lparr>workchain = 0, shard = 0, seqno = 1, root_hash = [], file_hash = []\<rparr> True () = Some (rev example_txs, None, ())"
  using block_tx_id_stream_complete [OF serves_example distinct_example] by simp

text \<open>
  Merging the stream of a block's transactions with the reverse stream yields every transaction
  of the block exactly once, in every order in which the two streams are polled.
\<close>

lemma unordered_stream_each_once:
  assumes "serves_pages T bid txs" and "distinct (map account_tx_of_short txs)"
    and "get_block_tx_id_stream T bid False c1 = Some fwd" and "get_block_tx_id_stream T bid True c2 = Some bwd"
  shows "\<exists>yielded. mset yielded = mset txs \<and>
    get_block_tx_stream_unordered sched (stream_items fwd) (stream_items bwd) = (yielded, None)"
  using assms by (rule unordered_each_once)

lemma unordered_stream_each_once_witness:
  "\<exists>yielded. mset yielded = mset example_txs \<and>
    get_block_tx_stream_unordered [True, False, True] (stream_items (example_txs, None :: unit ton_error option, ()))
      (stream_items (rev example_txs, None, ())) = (yielded, None)"
  by (rule unordered_stream_each_once [OF serves_example [of _ "\<lambda>_. ([], None)"] distinct_example])
    (simp_all add: id_stream_collects [OF serves_example distinct_example])

text \<open>
  The stream of the accounts of a block, whose transactions are grouped by account, yields every
  account that has a transaction in the block exactly once, in every order in which the two streams
  are polled, although accounts have any number of transactions.
\<close>

lemma accounts_stream_each_once:
  assumes "serves_pages T bid txs" and "distinct (map account_tx_of_short txs)" and "grouped (map tx_account txs)"
    and "get_block_tx_id_stream T bid False c1 = Some fwd" and "get_block_tx_id_stream T bid True c2 = Some bwd"
  shows "\<exists>accounts. distinct accounts \<and> set accounts = tx_account ` set txs \<and>
    get_accounts_in_block_stream A chain sched (stream_items fwd) (stream_items bwd) =
      (map (\<lambda>a. map_option (\<lambda>x. into_internal x chain) (ok_of (shard_from_str A a))) accounts, None)"
proof -
  have i: "stream_items fwd = map Ok txs" "stream_items bwd = map Ok (rev txs)"
    using assms(4,5) by (auto simp: id_stream_collects [OF assms(1,2)] stream_items_def)
  let ?r = "accounts_stream sched Map.empty (stream_items fwd) (stream_items bwd)"
  have "map tx_account (fst ?r) = merge_accounts sched (ends [] []) (map tx_account txs) (rev (map tx_account txs))"
    and none: "snd ?r = None"
    by (simp_all only: i accounts_stream_parts rev_map ends_empty)
  then have "distinct (map tx_account (fst ?r))" "set (map tx_account (fst ?r)) = tx_account ` set txs"
    using accounts_mid [of "[]" "map tx_account txs" "[]" sched] assms(3) by simp_all
  moreover have "get_accounts_in_block_stream A chain sched (stream_items fwd) (stream_items bwd) =
      (map (\<lambda>a. map_option (\<lambda>x. into_internal x chain) (ok_of (shard_from_str A a))) (map tx_account (fst ?r)), None)"
    using none by (simp add: get_accounts_in_block_stream_def prod_eq_iff tx_into_internal_def comp_def)
  ultimately show ?thesis by blast
qed

lemma accounts_stream_each_once_witness:
  "\<exists>accounts. distinct accounts \<and> set accounts = tx_account ` set (take 3 example_txs) \<and>
    get_accounts_in_block_stream std_addr 0 [True] (stream_items (take 3 example_txs, None :: unit ton_error option, ()))
      (stream_items (rev (take 3 example_txs), None, ())) =
      (map (\<lambda>a. map_option (\<lambda>x. into_internal x 0) (ok_of (shard_from_str std_addr a))) accounts, None)"
proof (rule accounts_stream_each_once [OF serves_example [of _ "\<lambda>_. ([], None)"]])
  show d: "distinct (map account_tx_of_short (take 3 example_txs))"
    by (simp add: example_txs_def account_tx_of_short_def)
  show "grouped (map tx_account (take 3 example_txs))"
    by (auto simp: grouped_def example_txs_def Cons_eq_append_conv)
qed (simp_all add: id_stream_collects [OF serves_example] example_txs_def account_tx_of_short_def)

end
