(* ===== verification/Ton_History.thy ===== *)
theory Ton_History
  imports Ton_Streams
begin

text \<open>
  The history of an account, \<^verbatim>\<open>tonlibjson-client/src/ton.rs\<close>: the stream of its transactions from the
  newest to the oldest, ranges of it, the split of a range into windows that are fetched
  concurrently, and the search for the first transaction. A range is read page by page, and reading
  stops with the transaction that ends it.
\<close>

section \<open>Stream of an account's transactions\<close>

text \<open>One turn of the \<open>try_unfold\<close> of \<open>get_account_tx_stream_from\<close>.\<close>

definition account_page ::
    "addr_ops \<Rightarrow> ('c, 'e, 'v) ton_ops \<Rightarrow> string \<Rightarrow> InternalTransactionId option \<Rightarrow>
     ('c, 'e ton_error, (RawTransaction list \<times> InternalTransactionId option) option) action" where
  "account_page A T address next_id =
     and_then
       (case next_id of
          Some i \<Rightarrow> succeed (Some i)
        | None \<Rightarrow> and_then (raw_get_account_state A T address) (\<lambda>state. succeed (last_transaction_id state)))
       (\<lambda>i. case i of
          None \<Rightarrow> succeed None
        | Some i \<Rightarrow> and_then (raw_get_transactions A T address i) (\<lambda>page. succeed (Some page)))"

partial_function (option) get_account_tx_stream_from ::
    "addr_ops \<Rightarrow> ('c, 'e, 'v) ton_ops \<Rightarrow> string \<Rightarrow> InternalTransactionId option \<Rightarrow> 'c \<Rightarrow>
     (RawTransaction list \<times> 'e ton_error option \<times> 'c) option" where
  "get_account_tx_stream_from A T address next_id c =
     (case account_page A T address next_id c of
        (Err e, c') \<Rightarrow> Some ([], Some e, c')
      | (Ok None, c') \<Rightarrow> Some ([], None, c')
      | (Ok (Some (items, None)), c') \<Rightarrow> Some (items, None, c')
      | (Ok (Some (items, Some p)), c') \<Rightarrow>
          Option.bind (get_account_tx_stream_from A T address (Some p) c') (\<lambda>r. Some (items @ fst r, snd r)))"

definition get_account_tx_stream ::
    "addr_ops \<Rightarrow> ('c, 'e, 'v) ton_ops \<Rightarrow> string \<Rightarrow> 'c \<Rightarrow> (RawTransaction list \<times> 'e ton_error option \<times> 'c) option" where
  "get_account_tx_stream A T address = get_account_tx_stream_from A T address None"

section \<open>Ranges\<close>

datatype 'a Bound = Included 'a | Excluded 'a | Unbounded

fun bound_tx :: "'a Bound \<Rightarrow> 'a option" where
  "bound_tx (Included tx) = Some tx"
| "bound_tx (Excluded tx) = Some tx"
| "bound_tx Unbounded = None"

fun bound_excluded :: "'a Bound \<Rightarrow> 'a option" where
  "bound_excluded (Excluded tx) = Some tx"
| "bound_excluded _ = None"

text \<open>
  The items of a page: \<open>try_skip_while\<close> drops the excluded transaction as long as nothing else was
  seen, and the loop yields until the end of the range. The result is what is yielded, whether
  items are still skipped, and whether the loop has ended.
\<close>

fun range_items ::
    "InternalTransactionId option \<Rightarrow> InternalTransactionId Bound \<Rightarrow> bool \<Rightarrow> RawTransaction list \<Rightarrow>
     RawTransaction list \<times> bool \<times> bool" where
  "range_items exclude rend skipping [] = ([], skipping, False)"
| "range_items exclude rend skipping (x # xs) =
     (if skipping \<and> exclude = Some (raw_transaction_id x) then range_items exclude rend skipping xs
      else case rend of
        Unbounded \<Rightarrow> apfst (Cons x) (range_items exclude rend False xs)
      | Included tx \<Rightarrow>
          if tx = raw_transaction_id x then ([x], False, True)
          else apfst (Cons x) (range_items exclude rend False xs)
      | Excluded tx \<Rightarrow>
          if tx = raw_transaction_id x then ([], False, True)
          else apfst (Cons x) (range_items exclude rend False xs))"

partial_function (option) range_pages ::
    "addr_ops \<Rightarrow> ('c, 'e, 'v) ton_ops \<Rightarrow> string \<Rightarrow> InternalTransactionId option \<Rightarrow> InternalTransactionId Bound \<Rightarrow>
     bool \<Rightarrow> InternalTransactionId option \<Rightarrow> 'c \<Rightarrow> (RawTransaction list \<times> 'e ton_error option \<times> 'c) option" where
  "range_pages A T address exclude rend skipping next_id c =
     (case account_page A T address next_id c of
        (Err e, c') \<Rightarrow> Some ([], Some e, c')
      | (Ok None, c') \<Rightarrow> Some ([], None, c')
      | (Ok (Some (items, prev)), c') \<Rightarrow>
          (case range_items exclude rend skipping items of
             (out, skipping', ended) \<Rightarrow>
               if ended then Some (out, None, c')
               else case prev of
                 None \<Rightarrow> Some (out, None, c')
               | Some p \<Rightarrow>
                   Option.bind (range_pages A T address exclude rend skipping' (Some p) c')
                     (\<lambda>r. Some (out @ fst r, snd r))))"

definition get_account_tx_range ::
    "addr_ops \<Rightarrow> ('c, 'e, 'v) ton_ops \<Rightarrow> string \<Rightarrow> InternalTransactionId Bound \<Rightarrow> InternalTransactionId Bound \<Rightarrow> 'c \<Rightarrow>
     (RawTransaction list \<times> 'e ton_error option \<times> 'c) option" where
  "get_account_tx_range A T address start rend =
     range_pages A T address (bound_excluded start) rend True (bound_tx start)"

section \<open>The first transaction\<close>

definition check_account_available ::
    "addr_ops \<Rightarrow> ('c, 'e, 'v) ton_ops \<Rightarrow> string \<Rightarrow> TonBlockId \<Rightarrow> ('c, 'e ton_error, InternalTransactionId) action" where
  "check_account_available A T account bid =
     and_then (look_up_block_by_seqno T (workchain bid) (shard bid) (seqno bid)) (\<lambda>b.
       and_then (raw_get_account_state_on_block A T account b) (\<lambda>state.
         case last_transaction_id state of Some tx \<Rightarrow> succeed tx | None \<Rightarrow> fail TxNotFound))"

partial_function (option) first_tx_loop ::
    "addr_ops \<Rightarrow> ('c, 'e, 'v) ton_ops \<Rightarrow> string \<Rightarrow> i32 \<Rightarrow> i64 \<Rightarrow> i32 \<Rightarrow> i32 \<Rightarrow> i32 \<Rightarrow>
     ('e ton_error, InternalTransactionId) res \<Rightarrow> 'c \<Rightarrow> (('e ton_error, InternalTransactionId) res \<times> 'c) option" where
  "first_tx_loop A T account wc sh lhs rhs cur tx c =
     (if lhs < rhs then
        let lhs' = (if is_ok tx then lhs else wrap_i32 (cur + 1));
            rhs' = (if is_ok tx then cur else rhs);
            cur' = rust_div (wrap_i32 (lhs' + rhs')) 2
        in if cur' = 0 then Some (tx, c)
           else
             let r = check_account_available A T account \<lparr>workchain = wc, shard = sh, seqno = cur'\<rparr> c
             in first_tx_loop A T account wc sh lhs' rhs' cur' (fst r) (snd r)
      else Some (tx, c))"

definition find_first_tx ::
    "addr_ops \<Rightarrow> ('c, 'e, 'v) ton_ops \<Rightarrow> string \<Rightarrow> 'c \<Rightarrow> (('e ton_error, InternalTransactionId) res \<times> 'c) option" where
  "find_first_tx A T account c =
     (case get_masterchain_info T c of
        (Err e, c) \<Rightarrow> Some (Err e, c)
      | (Ok start, c) \<Rightarrow>
          let cur = rust_div (wrap_i32 (1 + seqno start)) 2;
              r = check_account_available A T account
                    \<lparr>workchain = workchain start, shard = shard start, seqno = cur\<rparr> c
          in first_tx_loop A T account (workchain start) (shard start) 1 (seqno start) cur (fst r) (snd r))"

section \<open>Ranges fetched concurrently\<close>

text \<open>
  \<open>get_account_tx_range_unordered\<close> builds one range stream per window between two neighbours of a
  list of transactions. The branches of \<open>try_join!\<close> run one after the other, and so do the lookups
  that the code buffers.
\<close>

fun dedup :: "'a list \<Rightarrow> 'a list" where
  "dedup (x # y # ys) = (if x = y then dedup (x # ys) else x # dedup (y # ys))"
| "dedup xs = xs"

fun windows :: "'a list \<Rightarrow> ('a \<times> 'a) list" where
  "windows (x # y # ys) = (x, y) # windows (y # ys)"
| "windows _ = []"

definition range_of_window :: "'a \<Rightarrow> 'a \<Rightarrow> 'a Bound \<Rightarrow> 'a Bound \<Rightarrow> 'a \<times> 'a \<Rightarrow> 'a Bound \<times> 'a Bound" where
  "range_of_window first_tx last_tx start rend e =
     (if snd e = last_tx then start else Excluded (snd e),
      if fst e = first_tx then rend else Included (fst e))"

definition last_of_range ::
    "addr_ops \<Rightarrow> ('c, 'e, 'v) ton_ops \<Rightarrow> string \<Rightarrow> InternalTransactionId Bound \<Rightarrow>
     ('c, 'e ton_error, TonBlockIdExt \<times> InternalTransactionId) action" where
  "last_of_range A T address start =
     and_then
       (case bound_tx start of
          Some tx \<Rightarrow> succeed tx
        | None \<Rightarrow> and_then (raw_get_account_state A T address)
            (\<lambda>state. case last_transaction_id state of Some tx \<Rightarrow> succeed tx | None \<Rightarrow> fail InvalidLastTx))
       (\<lambda>tx. and_then (raw_get_account_state_by_transaction A T address tx)
          (\<lambda>state. succeed (state_block_id state, tx)))"

definition first_of_range ::
    "addr_ops \<Rightarrow> ('c, 'e, 'v) ton_ops \<Rightarrow> string \<Rightarrow> InternalTransactionId Bound \<Rightarrow> 'c \<Rightarrow>
     (('e ton_error, TonBlockIdExt \<times> InternalTransactionId) res \<times> 'c) option" where
  "first_of_range A T address rend c =
     Option.bind
       (case bound_tx rend of Some tx \<Rightarrow> Some (Ok tx, c) | None \<Rightarrow> find_first_tx A T address c)
       (\<lambda>(r, c). Some
          (case r of
             Err e \<Rightarrow> (Err e, c)
           | Ok tx \<Rightarrow> and_then (raw_get_account_state_by_transaction A T address tx)
               (\<lambda>state. succeed (state_block_id state, tx)) c))"

definition mid_tx ::
    "addr_ops \<Rightarrow> ('c, 'e, 'v) ton_ops \<Rightarrow> string \<Rightarrow> i32 \<Rightarrow> i64 \<Rightarrow> i32 \<Rightarrow> ('c, 'e ton_error, InternalTransactionId) action" where
  "mid_tx A T address wc sh q =
     and_then (look_up_block_by_seqno T wc sh q) (\<lambda>b.
       and_then (raw_get_account_state_on_block A T address b) (\<lambda>state.
         case last_transaction_id state of Some tx \<Rightarrow> succeed tx | None \<Rightarrow> fail InvalidLastTx))"

text \<open>Every request is made, then the first error is returned.\<close>

fun buffered :: "('c, 'e, 'a) action list \<Rightarrow> ('c, 'e, 'a list) action" where
  "buffered [] c = (Ok [], c)"
| "buffered (f # fs) c =
     (case f c of (r, c1) \<Rightarrow>
       (case buffered fs c1 of (rs, c2) \<Rightarrow> (res_bind r (\<lambda>a. res_bind rs (\<lambda>as. Ok (a # as))), c2)))"

text \<open>The result is the ranges of the streams; \<open>None\<close> is the panic of a division by zero, or a
  search for the first transaction that does not end.\<close>

definition get_account_tx_range_unordered ::
    "addr_ops \<Rightarrow> ('c, 'e, 'v) ton_ops \<Rightarrow> string \<Rightarrow> InternalTransactionId Bound \<Rightarrow> InternalTransactionId Bound \<Rightarrow> 'c \<Rightarrow>
     (('e ton_error, (InternalTransactionId Bound \<times> InternalTransactionId Bound) list) res \<times> 'c) option" where
  "get_account_tx_range_unordered A T address start rend c =
     (case last_of_range A T address start c of
        (Err e, c) \<Rightarrow> Some (Err e, c)
      | (Ok (lb, last_tx), c) \<Rightarrow>
          Option.bind (first_of_range A T address rend c) (\<lambda>(r, c).
            (case r of
               Err e \<Rightarrow> Some (Err e, c)
             | Ok (fb, first_tx) \<Rightarrow>
                 (let diff = wrap_i32 (seqno lb - seqno fb);
                      chunks = min 256 (rust_div diff 28800)
                  in if chunks = 0 then None
                     else
                       let step = rust_div diff chunks in
                       (case buffered (map (\<lambda>i. mid_tx A T address (workchain fb) (shard fb)
                               (wrap_i32 (seqno fb + wrap_i32 (step * i)))) [1..chunks - 1]) c of
                          (Err e, c) \<Rightarrow> Some (Err e, c)
                        | (Ok mid, c) \<Rightarrow>
                            Some (Ok (map (range_of_window first_tx last_tx start rend)
                              (windows (dedup (first_tx # mid @ [last_tx])))), c))))))"

section \<open>What a range yields\<close>

text \<open>
  \<open>hist\<close> is the history of an account, newest first. A server of it returns at most 16
  transactions from the one asked for, and the transaction that follows them; what it does to the
  state of the client is left open.
\<close>

definition history_from :: "RawTransaction list \<Rightarrow> InternalTransactionId \<Rightarrow> RawTransaction list" where
  "history_from hist i = dropWhile (\<lambda>t. raw_transaction_id t \<noteq> i) hist"

definition next_page :: "RawTransaction list \<Rightarrow> InternalTransactionId option" where
  "next_page xs = (if xs = [] then None else Some (raw_transaction_id (hd xs)))"

definition serves_history :: "addr_ops \<Rightarrow> ('c, 'e, 'v) ton_ops \<Rightarrow> string \<Rightarrow> RawTransaction list \<Rightarrow> bool" where
  "serves_history A T address hist \<longleftrightarrow>
     (\<exists>a. account_address_new A address = Ok a \<and>
        (\<forall>c. \<exists>b c'. send_account_state T a c = (Ok b, c') \<and> last_transaction_id b = next_page hist) \<and>
        (\<forall>i c. \<exists>c'. send_raw_transactions T (a, i, 16, False) c =
           (Ok (take 16 (history_from hist i), next_page (drop 16 (history_from hist i))), c')))"

fun since :: "InternalTransactionId Bound \<Rightarrow> RawTransaction list \<Rightarrow> RawTransaction list" where
  "since Unbounded hist = hist"
| "since (Included i) hist = history_from hist i"
| "since (Excluded i) hist = tl (history_from hist i)"

fun until :: "InternalTransactionId Bound \<Rightarrow> RawTransaction list \<Rightarrow> RawTransaction list" where
  "until Unbounded xs = xs"
| "until (Included i) xs = takeWhile (\<lambda>t. raw_transaction_id t \<noteq> i) xs @ take 1 (dropWhile (\<lambda>t. raw_transaction_id t \<noteq> i) xs)"
| "until (Excluded i) xs = takeWhile (\<lambda>t. raw_transaction_id t \<noteq> i) xs"

lemma range_items_append:
  "range_items ex rend sk (xs @ ys) =
     (case range_items ex rend sk xs of (out, sk', ended) \<Rightarrow>
        if ended then (out, sk', ended) else apfst (append out) (range_items ex rend sk' ys))"
  by (induction ex rend sk xs rule: range_items.induct) (auto simp: prod_eq_iff split: prod.splits Bound.splits)

lemma until_Nil [simp]: "until rend [] = []"
  by (cases rend) auto

lemma range_items_until: "\<not> sk \<or> ex = None \<Longrightarrow> fst (range_items ex rend sk xs) = until rend xs"
  by (induction ex rend sk xs rule: range_items.induct) (auto split: Bound.splits)

lemma history_from_append:
  "distinct (map raw_transaction_id (ps @ x # xs)) \<Longrightarrow>
   history_from (ps @ x # xs) (raw_transaction_id x) = x # xs"
  unfolding history_from_def by (rule dropWhile_prefix)

lemma account_page_serves:
  assumes "serves_history A T address hist"
  shows "\<exists>c'. account_page A T address (Some i) c =
      (Ok (Some (take 16 (history_from hist i), next_page (drop 16 (history_from hist i)))), c')"
    and "hist \<noteq> [] \<Longrightarrow> \<exists>c'. account_page A T address None c =
      (Ok (Some (take 16 hist, next_page (drop 16 hist))), c')"
    and "hist = [] \<Longrightarrow> \<exists>c'. account_page A T address None c = (Ok None, c')"
proof -
  obtain a where a: "account_address_new A address = Ok a"
    and st: "\<And>c. \<exists>b c'. send_account_state T a c = (Ok b, c') \<and> last_transaction_id b = next_page hist"
    and tx: "\<And>i c. \<exists>c'. send_raw_transactions T (a, i, 16, False) c =
           (Ok (take 16 (history_from hist i), next_page (drop 16 (history_from hist i))), c')"
    using assms unfolding serves_history_def by blast
  note defs = account_page_def raw_get_transactions_def raw_get_account_state_def with_address_def and_then_def
    succeed_def lift_res_def oneshot_def
  show one: "\<exists>c'. account_page A T address (Some i) c =
      (Ok (Some (take 16 (history_from hist i), next_page (drop 16 (history_from hist i)))), c')" for i c
    using tx [of i c] by (auto simp: defs a)
  obtain b c1 where b: "send_account_state T a c = (Ok b, c1)" "last_transaction_id b = next_page hist"
    using st by blast
  show "\<exists>c'. account_page A T address None c = (Ok None, c')" if "hist = []"
    using b that by (simp add: defs a next_page_def)
  show "\<exists>c'. account_page A T address None c = (Ok (Some (take 16 hist, next_page (drop 16 hist))), c')"
    if ne: "hist \<noteq> []"
  proof -
    have "history_from hist (raw_transaction_id (hd hist)) = hist" using ne by (cases hist) (auto simp: history_from_def)
    moreover have "account_page A T address None c = account_page A T address (Some (raw_transaction_id (hd hist))) c1"
      using b ne by (simp add: defs a next_page_def)
    ultimately show ?thesis using one [of "raw_transaction_id (hd hist)" c1] by simp
  qed
qed

text \<open>Reading page by page from a transaction of the history is one pass over the rest of it.\<close>

lemma range_pages_from:
  assumes "serves_history A T address hist" and "distinct (map raw_transaction_id hist)"
  shows "hist = ps @ suf \<Longrightarrow> suf \<noteq> [] \<Longrightarrow>
    \<exists>c'. range_pages A T address ex rend sk (next_page suf) c = Some (fst (range_items ex rend sk suf), None, c')"
proof (induction "length suf" arbitrary: ps suf sk c rule: less_induct)
  case less
  then obtain x xs where suf: "suf = x # xs" by (cases suf) auto
  with less.prems(1) assms(2) have h: "history_from hist (raw_transaction_id x) = suf"
    using history_from_append by blast
  obtain c1 where page: "account_page A T address (next_page suf) c = (Ok (Some (take 16 suf, next_page (drop 16 suf))), c1)"
    using account_page_serves(1) [OF assms(1), of "raw_transaction_id x" c] suf h by (auto simp: next_page_def)
  obtain out sk' ended where items: "range_items ex rend sk (take 16 suf) = (out, sk', ended)" by (cases rule: prod_cases3)
  have all: "fst (range_items ex rend sk suf) = (if ended then out else out @ fst (range_items ex rend sk' (drop 16 suf)))"
    using range_items_append [of ex rend sk "take 16 suf" "drop 16 suf"] items by auto
  show ?case
  proof (cases "ended \<or> drop 16 suf = []")
    case True
    with page items all show ?thesis
      by (subst range_pages.simps) (auto simp: next_page_def)
  next
    case False
    then obtain c2 where "range_pages A T address ex rend sk' (next_page (drop 16 suf)) c1 =
        Some (fst (range_items ex rend sk' (drop 16 suf)), None, c2)"
      using less.hyps [of "drop 16 suf" "ps @ take 16 suf" sk' c1] less.prems by auto
    with False page items all show ?thesis
      by (subst range_pages.simps) (auto simp: next_page_def)
  qed
qed

lemma range_pages_start:
  assumes "serves_history A T address hist" and "hist \<noteq> []"
  shows "\<exists>c'. range_pages A T address ex rend sk None c = range_pages A T address ex rend sk (next_page hist) c'"
proof -
  obtain a where a: "account_address_new A address = Ok a"
    and st: "\<exists>b c'. send_account_state T a c = (Ok b, c') \<and> last_transaction_id b = next_page hist"
    using assms unfolding serves_history_def by blast
  then obtain b c1 where "send_account_state T a c = (Ok b, c1)" "last_transaction_id b = next_page hist"
    by blast
  then have "account_page A T address None c = account_page A T address (next_page hist) c1"
    using a assms(2) by (simp add: account_page_def raw_get_account_state_def with_address_def and_then_def succeed_def
      lift_res_def oneshot_def next_page_def)
  then show ?thesis by (intro exI [of _ c1]) (subst (1 2) range_pages.simps, simp)
qed

lemma range_yields:
  assumes "serves_history A T address hist" and d: "distinct (map raw_transaction_id hist)"
    and "case bound_tx start of None \<Rightarrow> hist \<noteq> [] | Some i \<Rightarrow> i \<in> raw_transaction_id ` set hist"
  shows "\<exists>c'. get_account_tx_range A T address start rend c = Some (until rend (since start hist), None, c')"
proof (cases "bound_tx start")
  case None
  then have [simp]: "start = Unbounded" by (cases start) auto
  obtain c1 where "range_pages A T address None rend True None c = range_pages A T address None rend True (next_page hist) c1"
    using range_pages_start [OF assms(1), of None rend True c] assms(3) by auto
  moreover obtain c2 where "range_pages A T address None rend True (next_page hist) c1 =
      Some (fst (range_items None rend True hist), None, c2)"
    using range_pages_from [OF assms(1) d, of "[]" hist None rend True c1] assms(3) by auto
  ultimately show ?thesis by (simp add: get_account_tx_range_def range_items_until)
next
  case (Some i)
  with assms(3) obtain x where "x \<in> set hist" and i: "i = raw_transaction_id x" by auto
  then obtain ps xs where hist: "hist = ps @ x # xs" by (meson split_list)
  with d have from_i: "history_from hist i = x # xs" using history_from_append i by blast
  obtain c1 where "get_account_tx_range A T address start rend c =
      Some (fst (range_items (bound_excluded start) rend True (x # xs)), None, c1)"
    using range_pages_from [OF assms(1) d hist, of "bound_excluded start" rend True c] Some i
    by (auto simp: get_account_tx_range_def next_page_def)
  moreover have "fst (range_items (bound_excluded start) rend True (x # xs)) = until rend (since start hist)"
  proof (cases start)
    case (Excluded j)
    have "fst (range_items (Some i) rend True xs) = until rend xs"
    proof (cases xs)
      case (Cons y ys)
      with hist d i have "range_items (Some i) rend True xs = range_items (Some i) rend False xs" by auto
      then show ?thesis by (simp add: range_items_until)
    qed (cases rend; simp)
    with Excluded Some i from_i show ?thesis by simp
  qed (use Some from_i in \<open>auto simp: range_items_until simp del: range_items.simps\<close>)
  ultimately show ?thesis by simp
qed

section \<open>Windows\<close>

lemma while_index:
  assumes "distinct (map f xs)" and "j < length xs"
  shows "takeWhile (\<lambda>t. f t \<noteq> f (xs ! j)) xs = take j xs \<and> dropWhile (\<lambda>t. f t \<noteq> f (xs ! j)) xs = drop j xs"
  using assms
proof (induction xs arbitrary: j)
  case (Cons x xs)
  then show ?case by (cases j) (force simp: image_iff)+
qed simp

lemma until_append: "bound_tx e \<notin> Some ` raw_transaction_id ` set ps \<Longrightarrow> until e (ps @ xs) = ps @ until e xs"
  by (cases e; induction ps; auto)

lemma windows_rev: "windows (rev xs) = rev (map prod.swap (windows xs))"
proof (induction xs rule: windows.induct)
  case (1 x y ys)
  have "windows (zs @ [b, a]) = windows (zs @ [b]) @ [(b, a)]" for zs and a b :: 'a
    by (induction zs rule: windows.induct) auto
  with 1 show ?case by simp
qed auto

lemma windows_set: "w \<in> set (windows xs) \<Longrightarrow> fst w \<in> set (butlast xs) \<and> snd w \<in> set (tl xs)"
  by (induction xs rule: windows.induct) auto

lemma split_at_index:
  assumes d: "distinct (map raw_transaction_id hist)" and "k \<le> j" "j < m" "m < length hist"
    and e: "bound_tx e = Some (raw_transaction_id (hist ! m))"
  shows "until (Included (raw_transaction_id (hist ! j))) (drop k hist) @ until e (drop (Suc j) hist) =
      until e (drop k hist)"
proof -
  have n: "hist ! j = drop k hist ! (j - k)" using assms(2-4) by simp
  have dk: "distinct (map raw_transaction_id (drop k hist))" using d by (simp add: drop_map [symmetric])
  have l: "j - k < length (drop k hist)" using assms(2-4) by simp
  have dj: "drop (j - k) (drop k hist) = hist ! j # drop (Suc j) hist"
    using assms(2-4) by (simp add: Cons_nth_drop_Suc)
  have incl: "until (Included (raw_transaction_id (hist ! j))) (drop k hist) = take (j - k) (drop k hist) @ [hist ! j]"
    using while_index [OF dk l] dj n by simp
  have whole: "drop k hist = (take (j - k) (drop k hist) @ [hist ! j]) @ drop (Suc j) hist"
    using append_take_drop_id [of "j - k" "drop k hist"] dj by simp
  have "hist ! m \<in> set (drop (Suc j) hist)"
    using assms(3,4) by (auto simp: in_set_conv_nth intro!: exI [of _ "m - Suc j"])
  moreover have "distinct (map raw_transaction_id ((take (j - k) (drop k hist) @ [hist ! j]) @ drop (Suc j) hist))"
    using dk whole by metis
  ultimately have "bound_tx e \<notin> Some ` raw_transaction_id ` set (take (j - k) (drop k hist) @ [hist ! j])"
    using e by (auto simp: image_iff) 
  then show ?thesis using until_append whole incl by metis
qed

text \<open>
  The windows between transactions at increasing positions \<open>js\<close> of the history, from the newest to
  the oldest, are a partition of the range.
\<close>

lemma windows_cover:
  assumes d: "distinct (map raw_transaction_id hist)"
  shows "sorted_wrt (<) (j # js) \<Longrightarrow> js \<noteq> [] \<Longrightarrow> (\<forall>i \<in> set (j # js). i < length hist) \<Longrightarrow>
    bound_tx e = Some (raw_transaction_id (hist ! last js)) \<Longrightarrow> since s hist = drop k hist \<Longrightarrow> k \<le> Suc j \<Longrightarrow>
    concat (map (\<lambda>w. case range_of_window (raw_transaction_id (hist ! last js)) (raw_transaction_id (hist ! j)) s e (prod.swap w)
        of (s, e) \<Rightarrow> until e (since s hist)) (windows (map (\<lambda>i. raw_transaction_id (hist ! i)) (j # js)))) =
      until e (since s hist)"
proof (induction js arbitrary: j s k)
  case (Cons i ks)
  let ?t = "\<lambda>i. raw_transaction_id (hist ! i)"
  have inj: "?t a = ?t b \<longleftrightarrow> a = b" if "a \<in> set (j # i # ks)" "b \<in> set (j # i # ks)" for a b
    using that Cons.prems(3) d by (metis length_map nth_eq_iff_index_eq nth_map)
  have lst: "last (i # ks) \<in> set (i # ks)" by simp
  show ?case
  proof (cases "ks = []")
    case True
    with inj [of j i] Cons.prems(1) show ?thesis by (simp add: range_of_window_def)
  next
    case False
    let ?rng = "range_of_window (?t (last (i # ks)))"
    have li: "i < last ks" using False Cons.prems(1) by auto
    let ?W = "windows (map ?t (i # ks))" and ?yield = "\<lambda>(s, e). until e (since s hist)"
    have newest: "?rng (?t j) s e (prod.swap (?t j, ?t i)) = (s, Included (?t i))"
      using inj [of i "last (i # ks)"] lst li False by (simp add: range_of_window_def)
    have "?rng (?t j) s e (prod.swap w) = ?rng (?t i) (Excluded (?t i)) e (prod.swap w)" if w: "w \<in> set ?W" for w
    proof -
      from windows_set [OF w] obtain a where a: "a \<in> set (i # ks)" "fst w = ?t a"
        by (metis (no_types, lifting) image_iff in_set_butlastD list.set_map)
      moreover have "a \<noteq> j" using a Cons.prems(1) by auto
      ultimately show ?thesis using inj [of a j] inj [of a i] by (auto simp: range_of_window_def)
    qed
    then have rest: "map (\<lambda>w. ?yield (?rng (?t j) s e (prod.swap w))) ?W =
        map (\<lambda>w. ?yield (?rng (?t i) (Excluded (?t i)) e (prod.swap w))) ?W"
      by (intro map_cong [OF refl]) simp
    have from_i: "since (Excluded (?t i)) hist = drop (Suc i) hist"
      using while_index [OF d, of i] Cons.prems(3) by (simp add: history_from_def drop_Suc tl_drop)
    have older: "concat (map (\<lambda>w. ?yield (?rng (?t i) (Excluded (?t i)) e (prod.swap w))) ?W) = until e (drop (Suc i) hist)"
      using Cons.IH [of i "Excluded (?t i)" "Suc i"] Cons.prems from_i False by simp
    have "until (Included (?t i)) (since s hist) @ until e (drop (Suc i) hist) = until e (since s hist)"
      unfolding Cons.prems(5)
      by (rule split_at_index [OF d, where m = "last ks"]) (use Cons.prems False li in auto)
    moreover have "windows (map ?t (j # i # ks)) = (?t j, ?t i) # ?W" by simp
    ultimately show ?thesis
      by (simp only: list.map concat.simps newest older [folded rest, unfolded list.map] prod.case)
  qed
qed simp

section \<open>A range fetched concurrently\<close>

text \<open>
  What the services answer about the blocks of one shard and an account whose history is \<open>hist\<close>:
  the transaction at position \<open>i\<close> is of block \<open>at i\<close>, and from block \<open>birth\<close> on, the last
  transaction up to block \<open>q\<close> is at position \<open>idx q\<close>. A block may have any number of them.
\<close>

definition is_block :: "i32 \<Rightarrow> i64 \<Rightarrow> i32 \<Rightarrow> TonBlockIdExt \<Rightarrow> bool" where
  "is_block wc sh q b \<longleftrightarrow> workchain b = wc \<and> shard b = sh \<and> seqno b = q"

definition timeline ::
    "addr_ops \<Rightarrow> ('c, 'e, 'v) ton_ops \<Rightarrow> string \<Rightarrow> RawTransaction list \<Rightarrow> i32 \<Rightarrow> i64 \<Rightarrow> i32 \<Rightarrow>
     (i32 \<Rightarrow> nat) \<Rightarrow> (nat \<Rightarrow> TonBlockIdExt) \<Rightarrow> bool" where
  "timeline A T address hist wc sh birth idx at \<longleftrightarrow>
     0 < birth \<and>
     (\<forall>q. birth \<le> q \<longrightarrow> idx q < length hist) \<and>
     (\<forall>i < length hist. workchain (at i) = wc \<and> shard (at i) = sh \<and> birth \<le> seqno (at i) \<and> seqno (at i) < 2 ^ 31) \<and>
     (\<forall>q i. birth \<le> q \<longrightarrow> i < length hist \<longrightarrow> (idx q \<le> i \<longleftrightarrow> seqno (at i) \<le> q)) \<and>
     (\<forall>q c. birth \<le> q \<longrightarrow>
        (\<exists>b c'. send_lookup T (lookup_seqno \<lparr>workchain = wc, shard = sh, seqno = q\<rparr>) c = (Ok b, c') \<and> is_block wc sh q b)) \<and>
     (\<exists>a. account_address_new A address = Ok a \<and>
        (\<forall>b c. birth \<le> seqno b \<longrightarrow> is_block wc sh (seqno b) b \<longrightarrow>
           (\<exists>s c'. send_account_state_with_block T \<lparr>with_id = b, with_function = a\<rparr> c = (Ok s, c') \<and>
              last_transaction_id s = Some (raw_transaction_id (hist ! idx (seqno b))))) \<and>
        (\<forall>i < length hist. \<forall>c. \<exists>s c'. send_account_state_by_tx T (a, raw_transaction_id (hist ! i)) c = (Ok s, c') \<and>
           state_block_id s = at i))"

lemma timelineD:
  assumes "timeline A T address hist wc sh birth idx at"
  shows "0 < birth" and "birth \<le> q \<Longrightarrow> idx q < length hist"
    and "i < length hist \<Longrightarrow> workchain (at i) = wc \<and> shard (at i) = sh \<and> birth \<le> seqno (at i) \<and> seqno (at i) < 2 ^ 31"
    and "birth \<le> q \<Longrightarrow> i < length hist \<Longrightarrow> idx q \<le> i \<longleftrightarrow> seqno (at i) \<le> q"
    and "birth \<le> q \<Longrightarrow>
        \<exists>b c'. send_lookup T (lookup_seqno \<lparr>workchain = wc, shard = sh, seqno = q\<rparr>) c = (Ok b, c') \<and> is_block wc sh q b"
    and "\<exists>a. account_address_new A address = Ok a \<and>
        (\<forall>b c. birth \<le> seqno b \<longrightarrow> is_block wc sh (seqno b) b \<longrightarrow>
           (\<exists>s c'. send_account_state_with_block T \<lparr>with_id = b, with_function = a\<rparr> c = (Ok s, c') \<and>
              last_transaction_id s = Some (raw_transaction_id (hist ! idx (seqno b))))) \<and>
        (\<forall>i < length hist. \<forall>c. \<exists>s c'. send_account_state_by_tx T (a, raw_transaction_id (hist ! i)) c = (Ok s, c') \<and>
           state_block_id s = at i)"
  using assms unfolding timeline_def by simp_all

lemma timeline_antimono:
  assumes "timeline A T address hist wc sh birth idx at" and "birth \<le> p" "p \<le> q"
  shows "idx q \<le> idx p"
proof -
  have l: "idx p < length hist" using timelineD(2) [OF assms(1,2)] .
  then have "seqno (at (idx p)) \<le> q" using timelineD(4) [OF assms(1,2) l] assms(3) by simp
  with l show ?thesis using timelineD(4) [OF assms(1) _ l, of q] assms(2,3) by simp
qed

text \<open>The state of the account at a block, as the client asks for it.\<close>

lemma timeline_state_on_block:
  assumes "timeline A T address hist wc sh birth idx at" and "birth \<le> q" and "is_block wc sh q b"
  shows "\<exists>s c'. raw_get_account_state_on_block A T address b c = (Ok s, c') \<and>
    last_transaction_id s = Some (raw_transaction_id (hist ! idx q))"
proof -
  from timelineD(6) [OF assms(1)] obtain a where "account_address_new A address = Ok a"
    and "\<exists>s c'. send_account_state_with_block T \<lparr>with_id = b, with_function = a\<rparr> c = (Ok s, c') \<and>
      last_transaction_id s = Some (raw_transaction_id (hist ! idx q))"
    using assms(2,3) unfolding is_block_def by auto
  then show ?thesis
    by (auto simp: raw_get_account_state_on_block_def with_address_def and_then_def succeed_def lift_res_def oneshot_def)
qed

lemma timeline_lookup:
  assumes "timeline A T address hist wc sh birth idx at" and "birth \<le> q"
  shows "\<exists>b c'. look_up_block_by_seqno T wc sh q c = (Ok b, c') \<and> is_block wc sh q b"
proof -
  from timelineD(5) [OF assms] obtain b c1
    where "send_lookup T (lookup_seqno \<lparr>workchain = wc, shard = sh, seqno = q\<rparr>) c = (Ok b, c1)" and "is_block wc sh q b"
    by blast
  then show ?thesis using timelineD(1) [OF assms(1)] assms(2) by (auto simp: look_up_block_by_seqno_def oneshot_def)
qed

lemma timeline_mid_tx:
  assumes "timeline A T address hist wc sh birth idx at" and "birth \<le> q"
  shows "\<exists>c'. mid_tx A T address wc sh q c = (Ok (raw_transaction_id (hist ! idx q)), c')"
proof -
  obtain b c1 where "look_up_block_by_seqno T wc sh q c = (Ok b, c1)" and b: "is_block wc sh q b"
    using timeline_lookup [OF assms] by blast
  with timeline_state_on_block [OF assms b, of c1] show ?thesis
    by (auto simp: mid_tx_def and_then_def succeed_def)
qed

lemma timeline_of_tx:
  assumes "timeline A T address hist wc sh birth idx at" and "i < length hist"
  shows "\<exists>c'. and_then (raw_get_account_state_by_transaction A T address (raw_transaction_id (hist ! i)))
      (\<lambda>state. succeed (state_block_id state, raw_transaction_id (hist ! i))) c = (Ok (at i, raw_transaction_id (hist ! i)), c')"
proof -
  from timelineD(6) [OF assms(1)] obtain a where "account_address_new A address = Ok a"
    and "\<exists>s c'. send_account_state_by_tx T (a, raw_transaction_id (hist ! i)) c = (Ok s, c') \<and> state_block_id s = at i"
    using assms(2) by auto
  then show ?thesis
    by (auto simp: raw_get_account_state_by_transaction_def with_address_def and_then_def succeed_def lift_res_def oneshot_def)
qed

lemma buffered_all:
  assumes "\<And>q c. q \<in> set qs \<Longrightarrow> \<exists>c'. f q c = (Ok (g q), c')"
  shows "\<exists>c'. buffered (map f qs) c = (Ok (map g qs), c')"
  using assms
proof (induction qs arbitrary: c)
  case (Cons q qs)
  obtain c1 where "f q c = (Ok (g q), c1)" using Cons.prems by fastforce
  moreover obtain c2 where "buffered (map f qs) c1 = (Ok (map g qs), c2)" using Cons by fastforce
  ultimately show ?case by simp
qed simp

lemma dedup_map: "inj_on f (set xs) \<Longrightarrow> dedup (map f xs) = map f (dedup xs)"
  by (induction xs rule: dedup.induct) (auto simp: inj_on_def)

lemma dedup_set [simp]: "set (dedup xs) = set xs"
  by (induction xs rule: dedup.induct) auto

lemma dedup_descending:
  fixes xs :: "nat list"
  shows "sorted_wrt (\<ge>) xs \<Longrightarrow> sorted_wrt (>) (dedup xs)"
proof (induction xs rule: dedup.induct)
  case (1 x y ys)
  then show ?case by (cases "x = y") (auto intro: le_neq_implies_less le_less_trans)
qed auto

lemma dedup_ends: "xs \<noteq> [] \<Longrightarrow> dedup xs \<noteq> [] \<and> hd (dedup xs) = hd xs \<and> last (dedup xs) = last xs"
  by (induction xs rule: dedup.induct) auto

lemma rust_div_pos: "0 \<le> a \<Longrightarrow> 0 < b \<Longrightarrow> rust_div a b = a div b"
  by (simp add: rust_div_def)

text \<open>The blocks that \<open>get_account_tx_range_unordered\<close> looks at lie between its two ends.\<close>

lemma chunk_bounds:
  fixes d :: int
  assumes "28800 \<le> d" and "ch = min 256 (d div 28800)"
  shows "1 \<le> ch" and "0 \<le> i \<Longrightarrow> i < ch \<Longrightarrow> d div ch * i \<le> d" and "0 \<le> d div ch"
proof -
  show ch: "1 \<le> ch" using assms by simp
  then show "0 \<le> d div ch" using assms(1) by (simp add: pos_imp_zdiv_nonneg_iff)
  then show "d div ch * i \<le> d" if "0 \<le> i" "i < ch"
    using that mult_left_mono [of i ch "d div ch"] ch
    by (smt (verit, ccfv_threshold) minus_mod_eq_div_mult pos_mod_sign)
qed

definition range_blocks :: "i32 \<Rightarrow> i32 \<Rightarrow> i32 list" where
  "range_blocks fst_q diff =
     map (\<lambda>i. wrap_i32 (fst_q + wrap_i32 (rust_div diff (min 256 (rust_div diff 28800)) * i)))
       [1..min 256 (rust_div diff 28800) - 1]"

lemma range_blocks_eq:
  assumes "0 < f" "f + d < 2 ^ 31" "28800 \<le> d"
  shows "range_blocks f d = map (\<lambda>i. f + d div (min 256 (d div 28800)) * i) [1..min 256 (d div 28800) - 1]"
proof -
  let ?ch = "min 256 (d div 28800)"
  note b = chunk_bounds [OF assms(3) refl]
    have "wrap_i32 (f + wrap_i32 (d div ?ch * i)) = f + d div ?ch * i" if "i \<in> set [1..?ch - 1]" for i
    proof -
      have "0 \<le> d div ?ch * i" "d div ?ch * i \<le> d" using that b by auto
      then show ?thesis using assms by (simp add: wrap_i32_id in_i32_def)
    qed
    then show ?thesis
      using assms(3) b(1) by (simp add: range_blocks_def rust_div_pos)
qed

lemma range_blocks_below:
  assumes "0 < f" "f + d < 2 ^ 31" "28800 \<le> d" and "q \<in> set (range_blocks f d)"
  shows "q < f + d"
proof -
  let ?ch = "min 256 (d div 28800)"
  note b = chunk_bounds [OF assms(3) refl]
  obtain i where i: "1 \<le> i" "i \<le> ?ch - 1" "q = f + d div ?ch * i"
    using assms(4) unfolding range_blocks_eq [OF assms(1-3)] by auto
  have "?ch \<le> d" using assms(3) by (smt (verit) div_by_1 zdiv_mono2)
  then have "0 < d div ?ch" using b(1) by (simp add: pos_imp_zdiv_pos_iff)
  then have "d div ?ch * i < d div ?ch * ?ch" using i(2) by (intro mult_strict_left_mono) auto
  also have "\<dots> \<le> d" using b(1) by (simp add: div_mult_mod_eq mult.commute) (smt (verit) mult_div_mod_eq pos_mod_sign b(1))
  finally show ?thesis using i(3) by simp
qed

lemma range_blocks_sorted:
  assumes "0 < f" "f + d < 2 ^ 31" "28800 \<le> d"
  shows "sorted_wrt (\<le>) (f # range_blocks f d @ [f + d])"
proof -
  let ?ch = "min 256 (d div 28800)"
  note b = chunk_bounds [OF assms(3) refl] and e = range_blocks_eq [OF assms]
  have "sorted_wrt (\<le>) (map (\<lambda>i. f + d div ?ch * i) [1..?ch - 1])"
    using b(3) unfolding sorted_wrt_map
    by (intro sorted_wrt_mono_rel [OF _ sorted_upto]) (simp add: mult_left_mono)
  moreover have "f \<le> q \<and> q \<le> f + d" if "q \<in> set (map (\<lambda>i. f + d div ?ch * i) [1..?ch - 1])" for q
    using that b(2,3) by auto
  ultimately show ?thesis unfolding e using assms(3) by (auto simp: sorted_wrt_append)
qed

lemma range_ends:
  assumes serves: "serves_history A T address hist" and tl: "timeline A T address hist wc sh birth idx at"
    and "n < length hist" and "bound_tx start = Some (raw_transaction_id (hist ! n)) \<or> start = Unbounded \<and> n = 0"
  shows "\<exists>c'. last_of_range A T address start c = (Ok (at n, raw_transaction_id (hist ! n)), c')"
proof -
  obtain c1 where "(case bound_tx start of Some tx \<Rightarrow> succeed tx
        | None \<Rightarrow> and_then (raw_get_account_state A T address)
            (\<lambda>state. case last_transaction_id state of Some tx \<Rightarrow> succeed tx | None \<Rightarrow> fail InvalidLastTx)) c =
      (Ok (raw_transaction_id (hist ! n)), c1)"
  proof (cases "bound_tx start")
    case None
    with assms(4) have n: "n = 0" by auto
    from serves obtain a where a: "account_address_new A address = Ok a"
      and "\<exists>b c'. send_account_state T a c = (Ok b, c') \<and> last_transaction_id b = next_page hist"
      unfolding serves_history_def by blast
    then obtain b c' where "send_account_state T a c = (Ok b, c')" "last_transaction_id b = next_page hist"
      by blast
    moreover have "next_page hist = Some (raw_transaction_id (hist ! n))"
      using assms(3) n by (auto simp: next_page_def hd_conv_nth)
    ultimately show ?thesis
      using that None a by (simp add: raw_get_account_state_def with_address_def and_then_def succeed_def lift_res_def oneshot_def)
  next
    case (Some i)
    with assms(4) that show ?thesis by (auto simp: succeed_def)
  qed
  moreover note timeline_of_tx [OF tl assms(3), of c1]
  ultimately show ?thesis unfolding last_of_range_def by (subst and_then_def) simp
qed

lemma range_first:
  assumes tl: "timeline A T address hist wc sh birth idx at"
    and "m < length hist" and "bound_tx rend = Some (raw_transaction_id (hist ! m))"
  shows "\<exists>c'. first_of_range A T address rend c = Some (Ok (at m, raw_transaction_id (hist ! m)), c')"
  using timeline_of_tx [OF tl assms(2), of c] assms(3) by (simp add: first_of_range_def)

lemma range_unordered_eq:
  assumes "last_of_range A T address start c = (Ok (lb, ltx), c1)" and "first_of_range A T address rend c1 = Some (Ok (fb, ftx), c2)"
    and "wrap_i32 (seqno lb - seqno fb) = d"
  shows "get_account_tx_range_unordered A T address start rend c =
    (if rust_div d 28800 = 0 then None
     else Some (case buffered (map (mid_tx A T address (workchain fb) (shard fb)) (range_blocks (seqno fb) d)) c2 of
       (Err e, c) \<Rightarrow> (Err e, c)
     | (Ok mid, c) \<Rightarrow> (Ok (map (range_of_window ftx ltx start rend) (windows (dedup (ftx # mid @ [ltx])))), c)))"
proof -
  have "min 256 (rust_div d 28800) = 0 \<longleftrightarrow> rust_div d 28800 = 0" by linarith
  then show ?thesis
    using assms by (simp add: get_account_tx_range_unordered_def Let_def range_blocks_def comp_def split: prod.splits res.splits)
qed

text \<open>The transactions between which the windows lie, from the oldest to the newest.\<close>

lemma dedup_positions:
  assumes d: "distinct (map raw_transaction_id hist)" and "sorted_wrt (\<ge>) (m # ps @ [n])" and "n < m" "m < length hist"
  obtains js where "js \<noteq> []" "sorted_wrt (<) (n # js)" "last js = m" "\<forall>i \<in> set (n # js). i < length hist"
    "dedup (map (\<lambda>i. raw_transaction_id (hist ! i)) (m # ps @ [n])) = rev (map (\<lambda>i. raw_transaction_id (hist ! i)) (n # js))"
proof -
  let ?ps = "m # ps @ [n]" and ?t = "\<lambda>i. raw_transaction_id (hist ! i)"
  have le: "\<forall>i \<in> set ?ps. i < length hist" using assms(2,4) by fastforce
  have "inj_on ?t (set ?ps)"
    using le d by (intro inj_onI) (metis length_map nth_eq_iff_index_eq nth_map)
  note dm = dedup_map [OF this]
  have ends: "dedup ?ps \<noteq> []" "hd (dedup ?ps) = m" "last (dedup ?ps) = n" using dedup_ends [of ?ps] by auto
  obtain js where js: "rev (dedup ?ps) = n # js" using ends(1,3) by (cases "rev (dedup ?ps)") (auto simp: hd_rev [symmetric])
  have "sorted_wrt (<) (n # js)" using dedup_descending [OF assms(2)] js [symmetric] by (simp add: sorted_wrt_rev)
  moreover have lst: "last (n # js) = m" using ends(1,2) js [symmetric] by (simp add: last_rev)
  moreover have "\<forall>i \<in> set (n # js). i < length hist" using le js [symmetric] by (metis dedup_set set_rev)
  moreover have "dedup (map ?t ?ps) = rev (map ?t (n # js))" using dm js by (metis rev_map rev_rev_ident)
  moreover have "js \<noteq> []" using lst assms(3) by auto
  ultimately show thesis using that [of js] by simp
qed

lemma range_unordered_windows:
  assumes serves: "serves_history A T address hist" and tl: "timeline A T address hist wc sh birth idx at"
    and d: "distinct (map raw_transaction_id hist)" and "n < m" "m < length hist"
    and start: "bound_tx start = Some (raw_transaction_id (hist ! n)) \<or> start = Unbounded \<and> n = 0"
    and rend: "bound_tx rend = Some (raw_transaction_id (hist ! m))"
    and day: "seqno (at m) + 28800 \<le> seqno (at n)"
  shows "\<exists>js c'. js \<noteq> [] \<and> sorted_wrt (<) (n # js) \<and> last js = m \<and> (\<forall>i \<in> set (n # js). i < length hist) \<and>
    get_account_tx_range_unordered A T address start rend c =
      Some (Ok (map (range_of_window (raw_transaction_id (hist ! m)) (raw_transaction_id (hist ! n)) start rend)
        (windows (rev (map (\<lambda>i. raw_transaction_id (hist ! i)) (n # js))))), c')"
proof -
  let ?t = "\<lambda>i. raw_transaction_id (hist ! i)" and ?f = "seqno (at m)"
  define df where "df = seqno (at n) - ?f"
  have n: "n < length hist" using assms(4,5) by simp
  note am = timelineD(3) [OF tl assms(5)] and an = timelineD(3) [OF tl n]
  have f: "0 < ?f" "?f + df < 2 ^ 31" "28800 \<le> df" using am an timelineD(1) [OF tl] day by (auto simp: df_def)
  obtain c1 where l: "last_of_range A T address start c = (Ok (at n, ?t n), c1)"
    using range_ends [OF serves tl n start] by blast
  obtain c2 where r: "first_of_range A T address rend c1 = Some (Ok (at m, ?t m), c2)"
    using range_first [OF tl assms(5) rend] by blast
  let ?qs = "range_blocks ?f df"
  note srt = range_blocks_sorted [OF f]
  have qs: "birth \<le> q" if "q \<in> set (?f # ?qs @ [?f + df])" for q
    using srt that am by (auto intro: order_trans)
  obtain c3 where b: "buffered (map (mid_tx A T address wc sh) ?qs) c2 = (Ok (map (\<lambda>q. ?t (idx q)) ?qs), c3)"
    using buffered_all [of ?qs "mid_tx A T address wc sh" "\<lambda>q. ?t (idx q)" c2] timeline_mid_tx [OF tl] qs by auto
  have "sorted_wrt (\<ge>) (map idx ?qs)"
    unfolding sorted_wrt_map
    by (rule sorted_wrt_mono_rel [where P = "(\<le>)"]) (use srt qs timeline_antimono [OF tl] in \<open>auto simp: sorted_wrt_append\<close>)
  moreover have "idx q \<le> m \<and> n \<le> idx q" if "q \<in> set ?qs" for q
  proof -
    have "birth \<le> q" "?f \<le> q" "q < seqno (at n)"
      using qs that srt range_blocks_below [OF f that] by (auto simp: df_def)
    then show ?thesis using timelineD(4) [OF tl _ assms(5), of q] timelineD(4) [OF tl _ n, of q] by auto
  qed
  ultimately have "sorted_wrt (\<ge>) (m # map idx ?qs @ [n])"
    using assms(4) by (fastforce simp: sorted_wrt_append)
  then obtain js where js: "js \<noteq> []" "sorted_wrt (<) (n # js)" "last js = m" "\<forall>i \<in> set (n # js). i < length hist"
    and dd: "dedup (map ?t (m # map idx ?qs @ [n])) = rev (map ?t (n # js))"
    by (rule dedup_positions [OF d _ assms(4,5)])
  have "wrap_i32 (seqno (at n) - ?f) = df" "rust_div df 28800 \<noteq> 0"
    using f by (simp_all add: df_def [symmetric] wrap_i32_id in_i32_def rust_div_pos)
  with range_unordered_eq [OF l r] b am dd have "get_account_tx_range_unordered A T address start rend c =
      Some (Ok (map (range_of_window (?t m) (?t n) start rend) (windows (rev (map ?t (n # js))))), c3)"
    by (simp add: comp_def)
  with js show ?thesis by blast
qed

lemma since_index:
  assumes "distinct (map raw_transaction_id hist)" and "n < length hist"
    and "bound_tx start = Some (raw_transaction_id (hist ! n)) \<or> start = Unbounded \<and> n = 0"
  shows "\<exists>k \<le> Suc n. since start hist = drop k hist"
proof -
  have h: "history_from hist (raw_transaction_id (hist ! n)) = drop n hist"
    using while_index [OF assms(1,2)] by (simp add: history_from_def)
  show ?thesis
  proof (cases start)
    case (Excluded i)
    with assms(3) h show ?thesis by (intro exI [of _ "Suc n"]) (simp add: drop_Suc tl_drop)
  qed (use assms(3) h in \<open>auto intro: exI [of _ n]\<close>)
qed

text \<open>The ranges of the windows are read to their ends and cover the whole range.\<close>

lemma range_unordered_covers:
  assumes "serves_history A T address hist" and "timeline A T address hist wc sh birth idx at"
    and "distinct (map raw_transaction_id hist)" and "n < m" "m < length hist"
    and "bound_tx start = Some (raw_transaction_id (hist ! n)) \<or> start = Unbounded \<and> n = 0"
    and "bound_tx rend = Some (raw_transaction_id (hist ! m))"
    and "seqno (at m) + 28800 \<le> seqno (at n)"
  shows "\<exists>ranges c'. get_account_tx_range_unordered A T address start rend c = Some (Ok ranges, c') \<and>
    list_all (\<lambda>(s, e). \<forall>c. \<exists>c'. get_account_tx_range A T address s e c = Some (until e (since s hist), None, c')) ranges \<and>
    concat (map (\<lambda>(s, e). until e (since s hist)) (rev ranges)) = until rend (since start hist)"
proof -
  let ?t = "\<lambda>i. raw_transaction_id (hist ! i)"
  let ?rng = "range_of_window (?t m) (?t n) start rend"
  from range_unordered_windows [OF assms] obtain js c' where js: "js \<noteq> []" "sorted_wrt (<) (n # js)" "last js = m"
    "\<forall>i \<in> set (n # js). i < length hist"
    and u: "get_account_tx_range_unordered A T address start rend c =
      Some (Ok (map ?rng (windows (rev (map ?t (n # js))))), c')" by blast
  let ?ws = "windows (rev (map ?t (n # js)))"
  have n: "n < length hist" using assms(4,5) by simp
  obtain k where k: "k \<le> Suc n" "since start hist = drop k hist" using since_index [OF assms(3) n assms(6)] by blast
  have "case bound_tx (fst (?rng w)) of None \<Rightarrow> hist \<noteq> [] | Some i \<Rightarrow> i \<in> raw_transaction_id ` set hist"
    if "w \<in> set ?ws" for w
  proof -
    have "snd w \<in> ?t ` set (n # js)" using windows_set [OF that] by (metis list.set_sel(2) tl_Nil list.set_map set_rev)
    then show ?thesis using js(4) assms(6) n by (auto simp: range_of_window_def)
  qed
  then have "list_all (\<lambda>(s, e). \<forall>c. \<exists>c'. get_account_tx_range A T address s e c = Some (until e (since s hist), None, c'))
      (map ?rng ?ws)"
    using range_yields [OF assms(1,3)] by (fastforce simp: list_all_iff)
  moreover have "rev (map ?rng ?ws) = map (\<lambda>w. ?rng (prod.swap w)) (windows (map ?t (n # js)))"
    unfolding windows_rev by (simp only: rev_map rev_rev_ident map_map comp_def)
  then have "concat (map (\<lambda>(s, e). until e (since s hist)) (rev (map ?rng ?ws))) = until rend (since start hist)"
    using windows_cover [OF assms(3) js(2,1,4) _ k(2,1), of rend] assms(7) js(3)
    by (simp only: map_map comp_def)
  ultimately show ?thesis using u by blast
qed

section \<open>The search for the first transaction\<close>

text \<open>The account is known to the blocks from \<open>t\<close> on, with the transaction \<open>tx q\<close> last at block \<open>q\<close>.\<close>

definition account_from ::
    "addr_ops \<Rightarrow> ('c, 'e, 'v) ton_ops \<Rightarrow> string \<Rightarrow> i32 \<Rightarrow> i64 \<Rightarrow> i32 \<Rightarrow> (i32 \<Rightarrow> InternalTransactionId) \<Rightarrow> bool" where
  "account_from A T address wc sh t tx \<longleftrightarrow>
     (\<exists>a. account_address_new A address = Ok a \<and>
        (\<forall>q c. 0 < q \<longrightarrow> (\<exists>b c'. send_lookup T (lookup_seqno \<lparr>workchain = wc, shard = sh, seqno = q\<rparr>) c = (Ok b, c') \<and> is_block wc sh q b)) \<and>
        (\<forall>b c. is_block wc sh (seqno b) b \<longrightarrow> (\<exists>s c'. send_account_state_with_block T \<lparr>with_id = b, with_function = a\<rparr> c = (Ok s, c') \<and>
           last_transaction_id s = (if t \<le> seqno b then Some (tx (seqno b)) else None))))"

lemma account_available:
  assumes "account_from A T address wc sh t tx" and "0 < q"
  shows "fst (check_account_available A T address \<lparr>workchain = wc, shard = sh, seqno = q\<rparr> c) =
    (if t \<le> q then Ok (tx q) else Err TxNotFound)"
proof -
  from assms obtain a where a: "account_address_new A address = Ok a"
    and l: "\<exists>b c'. send_lookup T (lookup_seqno \<lparr>workchain = wc, shard = sh, seqno = q\<rparr>) c = (Ok b, c') \<and> is_block wc sh q b"
    and st: "\<And>b c. is_block wc sh (seqno b) b \<Longrightarrow> \<exists>s c'. send_account_state_with_block T \<lparr>with_id = b, with_function = a\<rparr> c = (Ok s, c') \<and>
           last_transaction_id s = (if t \<le> seqno b then Some (tx (seqno b)) else None)"
    unfolding account_from_def by (elim exE conjE) simp
  from l obtain b c1 where "send_lookup T (lookup_seqno \<lparr>workchain = wc, shard = sh, seqno = q\<rparr>) c = (Ok b, c1)" "is_block wc sh q b"
    by blast
  then have "seqno b = q" "is_block wc sh (seqno b) b" by (auto simp: is_block_def)
  with st [of b c1] a assms(2) \<open>send_lookup T _ c = _\<close> show ?thesis
    by (auto simp: check_account_available_def look_up_block_by_seqno_def raw_get_account_state_on_block_def
      with_address_def and_then_def succeed_def fail_def lift_res_def oneshot_def)
qed

lemma first_tx_loop_finds:
  assumes "account_from A T address wc sh t tx"
  shows "1 \<le> lhs \<Longrightarrow> lhs \<le> t \<Longrightarrow> t \<le> rhs \<Longrightarrow> rhs < 2 ^ 30 \<Longrightarrow> lhs \<le> cur \<Longrightarrow> cur < rhs \<or> lhs = rhs \<and> cur = rhs \<Longrightarrow>
    r = (if t \<le> cur then Ok (tx cur) else Err TxNotFound) \<Longrightarrow>
    \<exists>c'. first_tx_loop A T address wc sh lhs rhs cur r c = Some (Ok (tx t), c')"
proof (induction "nat (rhs - lhs)" arbitrary: lhs rhs cur r c rule: less_induct)
  case less
  show ?case
  proof (cases "lhs < rhs")
    case False
    with less.prems have "t = cur" by auto
    with False less.prems show ?thesis by (subst first_tx_loop.simps) auto
  next
    case True
    define l u where "l = (if t \<le> cur then lhs else cur + 1)" and "u = (if t \<le> cur then cur else rhs)"
    have ok: "is_ok r \<longleftrightarrow> t \<le> cur" using less.prems(7) by simp
    have lu: "1 \<le> l" "l \<le> t" "t \<le> u" "u < 2 ^ 30" "u - l < rhs - lhs"
      using less.prems(1-6) True by (auto simp: l_def u_def)
    let ?k = "(l + u) div 2"
    have k: "l \<le> ?k" "?k < u \<or> l = u \<and> ?k = u" "?k \<noteq> 0" using lu by auto
    have w: "wrap_i32 (cur + 1) = cur + 1" "rust_div (wrap_i32 (l + u)) 2 = ?k"
      using less.prems lu by (simp_all add: wrap_simps in_i32_def)
    let ?r = "check_account_available A T address \<lparr>workchain = wc, shard = sh, seqno = ?k\<rparr> c"
    have "first_tx_loop A T address wc sh lhs rhs cur r c = first_tx_loop A T address wc sh l u ?k (fst ?r) (snd ?r)"
      using True k(3) w ok by (subst first_tx_loop.simps) (cases "t \<le> cur"; simp add: Let_def l_def u_def)
    moreover have "\<exists>c'. first_tx_loop A T address wc sh l u ?k (fst ?r) (snd ?r) = Some (Ok (tx t), c')"
      by (rule less.hyps) (use lu k True account_available [OF assms, of ?k c] in auto)
    ultimately show ?thesis by simp
  qed
qed

section \<open>Examples\<close>

text \<open>An account with two transactions, one in block 1 and one in block 60000.\<close>

definition example_address :: string where
  "example_address = to_raw_string std_addr \<lparr>chain_id = 0, addr_bytes = replicate 32 7, flags = None\<rparr>"

definition example_tx :: "i64 \<Rightarrow> InternalTransactionId" where
  "example_tx lt = \<lparr>itx_hash = [], itx_lt = lt\<rparr>"

definition example_hist :: "RawTransaction list" where
  "example_hist = map (\<lambda>l. \<lparr>raw_address = \<lparr>account_address = Some example_address\<rparr>, raw_transaction_id = example_tx l,
     raw_utime = 0, raw_data = [], raw_fee = 0, raw_storage_fee = 0, raw_other_fee = 0, raw_in_msg = None, raw_out_msgs = []\<rparr>) [2, 1]"

definition example_idx :: "i32 \<Rightarrow> nat" where
  "example_idx q = (if q < 60000 then 1 else 0)"

definition example_at :: "nat \<Rightarrow> TonBlockIdExt" where
  "example_at i = \<lparr>workchain = 0, shard = 0, seqno = (if i = 0 then 60000 else 1), root_hash = [], file_hash = []\<rparr>"

definition example_block_at :: "i32 \<Rightarrow> TonBlockIdExt" where
  "example_block_at q = \<lparr>workchain = 0, shard = 0, seqno = q, root_hash = [], file_hash = []\<rparr>"

definition history_ton :: "(unit, unit, unit) ton_ops" where
  "history_ton = (example_ton [] (\<lambda>(a, i, _). (take 16 (history_from example_hist i),
       next_page (drop 16 (history_from example_hist i)))))\<lparr>
     send_masterchain_info := (\<lambda>c. (Ok (example_block_at 70000), c)),
     send_account_state := (\<lambda>_ c. (Ok (plain_state (example_at 0) (next_page example_hist)), c)),
     send_lookup := (\<lambda>r c. (Ok (example_block_at (seqno (lookup_id r))), c)),
     send_account_state_with_block := (\<lambda>w c. (Ok (plain_state (with_id w) (if 1 \<le> seqno (with_id w)
         then Some (raw_transaction_id (example_hist ! example_idx (seqno (with_id w)))) else None)), c)),
     send_account_state_by_tx := (\<lambda>(_, i) c. (Ok (plain_state (example_at (if i = example_tx 2 then 0 else 1)) (Some i)), c))\<rparr>"

lemma example_address_ok: "account_address_new std_addr example_address = Ok \<lparr>account_address = Some example_address\<rparr>"
  using std_addr.raw_roundtrip [of "\<lparr>chain_id = 0, addr_bytes = replicate 32 7, flags = None\<rparr>"]
  by (simp add: account_address_new_def example_address_def in_i32_def)

lemma serves_history_ton: "serves_history std_addr history_ton example_address example_hist"
  unfolding serves_history_def using example_address_ok
  by (intro exI [of _ "\<lparr>account_address = Some example_address\<rparr>"]) (simp add: history_ton_def example_ton_def)

lemma timeline_history_ton: "timeline std_addr history_ton example_address example_hist 0 0 1 example_idx example_at"
  unfolding timeline_def using example_address_ok
  by (auto simp: history_ton_def example_idx_def example_hist_def example_at_def example_block_at_def lookup_seqno_def
    less_Suc_eq nth_Cons' example_tx_def is_block_def)

lemma distinct_example_hist: "distinct (map raw_transaction_id example_hist)"
  by (simp add: example_hist_def example_tx_def)

section \<open>Properties\<close>

text \<open>
  Reading a range of an account's history, page by page, ends without an error and yields the
  transactions between the two bounds from the newest to the oldest, each once: from the start
  bound, which is dropped when it is excluded, until the end bound, which is dropped when it is
  excluded, or until the history is exhausted.
\<close>

lemma account_tx_range_yields:
  assumes "serves_history A T address hist" and "distinct (map raw_transaction_id hist)"
    and "case bound_tx start of None \<Rightarrow> hist \<noteq> [] | Some i \<Rightarrow> i \<in> raw_transaction_id ` set hist"
  shows "\<exists>c'. get_account_tx_range A T address start rend c = Some (until rend (since start hist), None, c')"
  using assms by (rule range_yields)

lemma account_tx_range_yields_witness:
  "\<exists>c'. get_account_tx_range std_addr history_ton example_address Unbounded (Excluded (example_tx 1)) () =
     Some (take 1 example_hist, None, c')"
  using account_tx_range_yields [OF serves_history_ton distinct_example_hist, of Unbounded "Excluded (example_tx 1)" "()"]
  by (simp add: example_hist_def example_tx_def)

text \<open>
  C13. Fetching a range concurrently is fetching the range. When the ends of the range are at least
  28800 blocks apart, \<open>get_account_tx_range_unordered\<close> returns a list of ranges, each of which can be
  read to its end without an error, and what they yield, put one after the other from the newest
  range to the oldest, is what the whole range yields: no transaction is lost and none is read twice.
  The range has an end that names a transaction, and the server is ideal: it serves the history of
  the account page by page and knows a block for every sequence number from the account's birth on.
\<close>

theorem range_unordered_partition:
  assumes "serves_history A T address hist" and "timeline A T address hist wc sh birth idx at"
    and "distinct (map raw_transaction_id hist)" and "n < m" "m < length hist"
    and "bound_tx start = Some (raw_transaction_id (hist ! n)) \<or> start = Unbounded \<and> n = 0"
    and "bound_tx rend = Some (raw_transaction_id (hist ! m))"
    and "seqno (at m) + 28800 \<le> seqno (at n)"
  shows "\<exists>ranges c'. get_account_tx_range_unordered A T address start rend c = Some (Ok ranges, c') \<and>
    list_all (\<lambda>(s, e). \<forall>c. \<exists>c'. get_account_tx_range A T address s e c = Some (until e (since s hist), None, c')) ranges \<and>
    concat (map (\<lambda>(s, e). until e (since s hist)) (rev ranges)) = until rend (since start hist)"
  using assms by (rule range_unordered_covers)

theorem range_unordered_partition_witness:
  "\<exists>ranges c'. get_account_tx_range_unordered std_addr history_ton example_address Unbounded (Included (example_tx 1)) () =
      Some (Ok ranges, c') \<and>
    list_all (\<lambda>(s, e). \<forall>c. \<exists>c'. get_account_tx_range std_addr history_ton example_address s e c =
      Some (until e (since s example_hist), None, c')) ranges \<and>
    concat (map (\<lambda>(s, e). until e (since s example_hist)) (rev ranges)) =
      until (Included (example_tx 1)) (since Unbounded example_hist)"
  by (rule range_unordered_partition [OF serves_history_ton timeline_history_ton distinct_example_hist, where n = 0 and m = 1])
    (auto simp: example_hist_def example_at_def)

text \<open>
  When the ends of the range are less than 28800 blocks apart, \<open>get_account_tx_range_unordered\<close>
  divides by zero and panics, whatever the range.
\<close>

lemma range_unordered_panics:
  assumes "last_of_range A T address start c = (Ok (lb, ltx), c1)"
    and "first_of_range A T address rend c1 = Some (Ok (fb, ftx), c2)"
    and "\<bar>seqno lb - seqno fb\<bar> < 28800"
  shows "get_account_tx_range_unordered A T address start rend c = None"
proof -
  have "wrap_i32 (seqno lb - seqno fb) = seqno lb - seqno fb" using assms(3) by (intro wrap_i32_id) (auto simp: in_i32_def)
  moreover have "rust_div (seqno lb - seqno fb) 28800 = 0" using assms(3) by (simp add: rust_div_def)
  ultimately show ?thesis using range_unordered_eq [OF assms(1,2) refl] by simp
qed

lemma range_unordered_panics_witness:
  "get_account_tx_range_unordered std_addr history_ton example_address (Included (example_tx 2)) (Included (example_tx 2)) () = None"
  using range_ends [OF serves_history_ton timeline_history_ton, of 0 "Included (example_tx 2)" "()"]
    range_first [OF timeline_history_ton, of 0 "Included (example_tx 2)" "()"]
  by (auto simp: example_hist_def intro: range_unordered_panics)

text \<open>
  C31. The search for an account's first transaction ends, and returns the last transaction of the
  account at the first block that knows the account, for chains of less than 2 to the power 30 blocks.
\<close>

theorem find_first_tx_correct:
  assumes "get_masterchain_info T c = (Ok start, c1)"
    and "account_from A T address (workchain start) (shard start) t tx"
    and "1 \<le> t" "t \<le> seqno start" "seqno start < 2 ^ 30"
  shows "\<exists>c'. find_first_tx A T address c = Some (Ok (tx t), c')"
proof -
  let ?k = "(1 + seqno start) div 2"
  have k: "rust_div (wrap_i32 (1 + seqno start)) 2 = ?k" using assms(3-5) by (simp add: wrap_simps in_i32_def)
  let ?r = "check_account_available A T address \<lparr>workchain = workchain start, shard = shard start, seqno = ?k\<rparr> c1"
  have "\<exists>c'. first_tx_loop A T address (workchain start) (shard start) 1 (seqno start) ?k (fst ?r) (snd ?r) = Some (Ok (tx t), c')"
    by (rule first_tx_loop_finds [OF assms(2)]) (use assms(3-5) account_available [OF assms(2), of ?k c1] in auto)
  then show ?thesis using assms(1) k by (simp add: find_first_tx_def Let_def)
qed

theorem find_first_tx_correct_witness:
  "\<exists>c'. find_first_tx std_addr history_ton example_address () = Some (Ok (example_tx 1), c')"
proof -
  have "account_from std_addr history_ton example_address 0 0 1 (\<lambda>q. raw_transaction_id (example_hist ! example_idx q))"
    unfolding account_from_def using example_address_ok
    by (auto simp: history_ton_def example_block_at_def lookup_seqno_def is_block_def)
  then show ?thesis
    using find_first_tx_correct [of history_ton "()" "example_block_at 70000" "()" std_addr example_address 1
      "\<lambda>q. raw_transaction_id (example_hist ! example_idx q)"]
    by (simp add: get_masterchain_info_def oneshot_def history_ton_def example_block_at_def example_idx_def example_hist_def)
qed

end
