(* ===== verification/Grpc.thy ===== *)
theory Grpc
  imports Ton_History
begin

text \<open>
  The services of \<^verbatim>\<open>ton-grpc\<close>: \<^verbatim>\<open>ton.rs\<close> (conversions to protocol buffers),
  \<^verbatim>\<open>helpers.rs\<close> (what a block or a bound of a request stands for), \<^verbatim>\<open>account.rs\<close>,
  \<^verbatim>\<open>block.rs\<close> and \<^verbatim>\<open>message.rs\<close>. The handlers are actions over \<open>TonClient\<close>. Every
  error becomes an internal status with the text of the error; the model keeps the error itself.
\<close>

section \<open>Protocol buffers\<close>

record PbBlockId = TonBlockId +
  id_root_hash :: "string option"
  id_file_hash :: "string option"

record PbBlockIdExt =
  pb_workchain :: i32
  pb_shard :: i64
  pb_seqno :: i32
  pb_root_hash :: string
  pb_file_hash :: string

record TransactionId =
  pb_account_address :: string
  pb_lt :: i64
  pb_hash :: string

record PartialTransactionId =
  part_lt :: i64
  part_hash :: string

datatype AccountState = Active string string | Frozen string | Uninitialized

datatype MsgData = Raw string string | Text string | DecryptedText string | EncryptedText string

record Message =
  pb_source :: "string option"
  pb_destination :: "string option"
  pb_value :: i64
  pb_fwd_fee :: i64
  pb_ihr_fee :: i64
  pb_created_lt :: i64
  pb_body_hash :: string
  pb_msg_data :: "MsgData option"

record Transaction =
  pb_id :: "TransactionId option"
  pb_utime :: i64
  pb_data :: string
  pb_fee :: i64
  pb_storage_fee :: i64
  pb_other_fee :: i64
  pb_in_msg :: "Message option"
  pb_out_msgs :: "Message list"

record PbBlocksHeader =
  pb_header_id :: "PbBlockIdExt option"
  pb_start_lt :: i64
  pb_end_lt :: i64
  pb_global_id :: i32
  pb_version :: i32
  pb_flags :: i32
  pb_after_merge :: bool
  pb_after_split :: bool
  pb_before_split :: bool
  pb_want_merge :: bool
  pb_want_split :: bool
  pb_validator_list_hash_short :: i32
  pb_catchain_seqno :: i32
  pb_min_ref_mc_seqno :: i32
  pb_is_key_block :: bool
  pb_prev_key_block_seqno :: i32
  pb_gen_utime :: i64
  pb_vert_seqno :: i32
  pb_prev_blocks :: "PbBlockIdExt list"

section \<open>Conversions\<close>

definition pb_block_id_ext :: "TonBlockIdExt \<Rightarrow> PbBlockIdExt" where
  "pb_block_id_ext v = \<lparr>pb_workchain = workchain v, pb_shard = shard v, pb_seqno = seqno v,
     pb_root_hash = root_hash v, pb_file_hash = file_hash v\<rparr>"

definition ton_block_id_ext :: "PbBlockIdExt \<Rightarrow> TonBlockIdExt" where
  "ton_block_id_ext v = \<lparr>workchain = pb_workchain v, shard = pb_shard v, seqno = pb_seqno v,
     root_hash = pb_root_hash v, file_hash = pb_file_hash v\<rparr>"

text \<open>\<open>into_internal_string\<close> panics on an account that is not a shard address.\<close>

definition transaction_id_of_short :: "addr_ops \<Rightarrow> i32 \<Rightarrow> BlocksShortTxId \<Rightarrow> TransactionId may_panic" where
  "transaction_id_of_short A chain v =
     map_option (\<lambda>address. \<lparr>pb_account_address = address, pb_lt = tx_lt v, pb_hash = tx_hash v\<rparr>)
       (tx_into_internal_string A v chain)"

definition pb_blocks_header :: "BlocksHeader \<Rightarrow> PbBlocksHeader" where
  "pb_blocks_header h = \<lparr>pb_header_id = Some (pb_block_id_ext (header_id h)), pb_start_lt = start_lt h, pb_end_lt = end_lt h,
     pb_global_id = header_global_id h, pb_version = header_version h, pb_flags = header_flags h,
     pb_after_merge = header_after_merge h, pb_after_split = header_after_split h, pb_before_split = header_before_split h,
     pb_want_merge = header_want_merge h, pb_want_split = header_want_split h, pb_validator_list_hash_short = header_validator_list_hash_short h,
     pb_catchain_seqno = header_catchain_seqno h, pb_min_ref_mc_seqno = header_min_ref_mc_seqno h, pb_is_key_block = header_is_key_block h,
     pb_prev_key_block_seqno = header_prev_key_block_seqno h, pb_gen_utime = header_gen_utime h, pb_vert_seqno = header_vert_seqno h,
     pb_prev_blocks = map pb_block_id_ext (header_prev_blocks h)\<rparr>"

definition transaction_id_of :: "addr_ops \<Rightarrow> AccountAddressData \<Rightarrow> InternalTransactionId \<Rightarrow> TransactionId" where
  "transaction_id_of A address tx_id =
     \<lparr>pb_account_address = to_raw_string A address, pb_lt = itx_lt tx_id, pb_hash = itx_hash tx_id\<rparr>"

definition internal_of_transaction_id :: "TransactionId \<Rightarrow> InternalTransactionId" where
  "internal_of_transaction_id v = \<lparr>itx_hash = pb_hash v, itx_lt = pb_lt v\<rparr>"

definition internal_of_partial :: "PartialTransactionId \<Rightarrow> InternalTransactionId" where
  "internal_of_partial v = \<lparr>itx_hash = part_hash v, itx_lt = part_lt v\<rparr>"

definition account_state_of :: "RawFullAccountState \<Rightarrow> AccountState" where
  "account_state_of v =
     (if state_code v \<noteq> [] then Active (state_code v) (state_data v)
      else if state_frozen_hash v \<noteq> [] then Frozen (state_frozen_hash v)
      else Uninitialized)"

fun msg_data_of :: "MsgBoxedData \<Rightarrow> MsgData" where
  "msg_data_of (MsgDataRaw body init_state) = Raw body init_state"
| "msg_data_of (MsgDataText text) = Text text"
| "msg_data_of (MsgDataDecryptedText text) = DecryptedText text"
| "msg_data_of (MsgDataEncryptedText text) = EncryptedText text"

definition message_of :: "RawMessage \<Rightarrow> Message" where
  "message_of v = \<lparr>pb_source = account_address (msg_source v), pb_destination = account_address (msg_destination v),
     pb_value = msg_value v, pb_fwd_fee = msg_fwd_fee v, pb_ihr_fee = msg_ihr_fee v, pb_created_lt = msg_created_lt v,
     pb_body_hash = msg_body_hash v, pb_msg_data = Some (msg_data_of (msg_data v))\<rparr>"

definition transaction_of :: "addr_ops \<Rightarrow> AccountAddressData \<Rightarrow> RawTransaction \<Rightarrow> Transaction" where
  "transaction_of A address v = \<lparr>pb_id = Some (transaction_id_of A address (raw_transaction_id v)),
     pb_utime = raw_utime v, pb_data = raw_data v, pb_fee = raw_fee v, pb_storage_fee = raw_storage_fee v,
     pb_other_fee = raw_other_fee v, pb_in_msg = map_option message_of (raw_in_msg v),
     pb_out_msgs = map message_of (raw_out_msgs v)\<rparr>"

definition transaction_try_of :: "addr_ops \<Rightarrow> i32 \<Rightarrow> RawTransaction \<Rightarrow> (raw_tx_error, Transaction) res" where
  "transaction_try_of A chain v =
     (case account_address (raw_address v) of
        None \<Rightarrow> Err EmptyAddress
      | Some f \<Rightarrow>
          (case addr_from_str A f of
             Err e \<Rightarrow> Err (BadAddress e)
           | Ok address \<Rightarrow> Ok (transaction_of A (with_chain_id address chain) v)))"

section \<open>Helpers\<close>

datatype 'e grpc_error =
    OfClient "'e ton_error"
  | OfAddress addr_error
  | OfTransaction raw_tx_error
  | ToTxNotFound
  | BlockIdRequired

definition map_err :: "('e \<Rightarrow> 'f) \<Rightarrow> ('c, 'e, 'a) action \<Rightarrow> ('c, 'f, 'a) action" where
  "map_err f m c = (case m c of (Err e, c) \<Rightarrow> (Err (f e), c) | (Ok a, c) \<Rightarrow> (Ok a, c))"

definition extend_block_id :: "('c, 'e, 'v) ton_ops \<Rightarrow> PbBlockId \<Rightarrow> ('c, 'e ton_error, TonBlockIdExt) action" where
  "extend_block_id T bid =
     (case (id_root_hash bid, id_file_hash bid) of
        (Some rh, Some fh) \<Rightarrow>
          succeed \<lparr>workchain = workchain bid, shard = shard bid, seqno = seqno bid, root_hash = rh, file_hash = fh\<rparr>
      | _ \<Rightarrow> look_up_block_by_seqno T (workchain bid) (shard bid) (seqno bid))"

definition extend_get_block_header :: "('c, 'e, 'v) ton_ops \<Rightarrow> PbBlockId \<Rightarrow> ('c, 'e ton_error, BlocksHeader) action" where
  "extend_get_block_header T bid =
     get_block_header T (workchain bid) (shard bid) (seqno bid)
       (case (id_root_hash bid, id_file_hash bid) of (Some rh, Some fh) \<Rightarrow> Some (rh, fh) | _ \<Rightarrow> None)"

definition prev_block_id :: "('c, 'e, 'v) ton_ops \<Rightarrow> PbBlockId \<Rightarrow> ('c, 'e ton_error, TonBlockIdExt) action" where
  "prev_block_id T bid = look_up_block_by_seqno T (workchain bid) (shard bid) (wrap_i32 (seqno bid - 1))"

datatype BoundType = TypeIncluded | TypeExcluded

datatype PbBoundValue = BoundBlock PbBlockId | BoundTransaction PartialTransactionId

record PbBound =
  bound_type :: BoundType
  bound_value :: "PbBoundValue option"

text \<open>The last transaction of the account at a block.\<close>

definition last_tx_on ::
    "addr_ops \<Rightarrow> ('c, 'e, 'v) ton_ops \<Rightarrow> string \<Rightarrow> ('c, 'e ton_error, TonBlockIdExt) action \<Rightarrow>
     ('c, 'e grpc_error, InternalTransactionId) action" where
  "last_tx_on A T address find_block =
     and_then (map_err OfClient find_block) (\<lambda>bid.
       and_then (map_err OfClient (raw_get_account_state_on_block A T address bid)) (\<lambda>state.
         case last_transaction_id state of Some tx \<Rightarrow> succeed tx | None \<Rightarrow> fail ToTxNotFound))"

definition extend_from_tx_id ::
    "addr_ops \<Rightarrow> ('c, 'e, 'v) ton_ops \<Rightarrow> string \<Rightarrow> PbBound option \<Rightarrow>
     ('c, 'e grpc_error, InternalTransactionId Bound) action" where
  "extend_from_tx_id A T address b =
     (case b of
        None \<Rightarrow> succeed Unbounded
      | Some b \<Rightarrow>
          (case bound_value b of
             None \<Rightarrow> succeed Unbounded
           | Some (BoundBlock bid) \<Rightarrow>
               (case bound_type b of
                  TypeIncluded \<Rightarrow> and_then (last_tx_on A T address (extend_block_id T bid)) (\<lambda>tx. succeed (Included tx))
                | TypeExcluded \<Rightarrow> and_then (last_tx_on A T address (prev_block_id T bid)) (\<lambda>tx. succeed (Included tx)))
           | Some (BoundTransaction tx_id) \<Rightarrow>
               (case bound_type b of
                  TypeIncluded \<Rightarrow> succeed (Included (internal_of_partial tx_id))
                | TypeExcluded \<Rightarrow> succeed (Excluded (internal_of_partial tx_id)))))"

definition extend_to_tx_id ::
    "addr_ops \<Rightarrow> ('c, 'e, 'v) ton_ops \<Rightarrow> string \<Rightarrow> PbBound option \<Rightarrow>
     ('c, 'e grpc_error, InternalTransactionId Bound) action" where
  "extend_to_tx_id A T address b =
     (case b of
        None \<Rightarrow> succeed Unbounded
      | Some b \<Rightarrow>
          (case bound_value b of
             None \<Rightarrow> succeed Unbounded
           | Some (BoundBlock bid) \<Rightarrow>
               (case bound_type b of
                  TypeIncluded \<Rightarrow> and_then (last_tx_on A T address (prev_block_id T bid)) (\<lambda>tx. succeed (Excluded tx))
                | TypeExcluded \<Rightarrow> and_then (last_tx_on A T address (extend_block_id T bid)) (\<lambda>tx. succeed (Excluded tx)))
           | Some (BoundTransaction tx_id) \<Rightarrow>
               (case bound_type b of
                  TypeIncluded \<Rightarrow> succeed (Included (internal_of_partial tx_id))
                | TypeExcluded \<Rightarrow> succeed (Excluded (internal_of_partial tx_id)))))"

section \<open>Account service\<close>

datatype Criteria = AtBlock PbBlockId | AtTransaction PartialTransactionId | AtLeastBlock PbBlockId

record AccountRequest =
  req_address :: string
  req_criteria :: "Criteria option"

record GetAccountStateResponse =
  resp_address :: string
  resp_block_id :: "PbBlockIdExt option"
  resp_balance :: i64
  resp_last_tx :: "TransactionId option"
  resp_state :: "AccountState option"

record 'v GetShardAccountCellResponse =
  cell_address :: string
  cell_block_id :: "PbBlockIdExt option"
  cell_cell :: "'v option"

definition fetch_account_state ::
    "addr_ops \<Rightarrow> ('c, 'e, 'v) ton_ops \<Rightarrow> AccountRequest \<Rightarrow> ('c, 'e ton_error, RawFullAccountState) action" where
  "fetch_account_state A T msg =
     (case req_criteria msg of
        None \<Rightarrow> and_then (get_masterchain_info T) (\<lambda>bid. raw_get_account_state_at_least_block A T (req_address msg) bid)
      | Some (AtBlock b) \<Rightarrow> and_then (extend_block_id T b) (\<lambda>bid. raw_get_account_state_on_block A T (req_address msg) bid)
      | Some (AtLeastBlock b) \<Rightarrow>
          and_then (extend_block_id T b) (\<lambda>bid. raw_get_account_state_at_least_block A T (req_address msg) bid)
      | Some (AtTransaction tx_id) \<Rightarrow>
          raw_get_account_state_by_transaction A T (req_address msg) (internal_of_partial tx_id))"

definition grpc_get_account_state ::
    "addr_ops \<Rightarrow> ('c, 'e, 'v) ton_ops \<Rightarrow> AccountRequest \<Rightarrow> ('c, 'e grpc_error, GetAccountStateResponse) action" where
  "grpc_get_account_state A T msg =
     and_then (lift_res OfAddress (addr_from_str A (req_address msg))) (\<lambda>address.
     and_then (map_err OfClient (fetch_account_state A T msg)) (\<lambda>state.
       succeed \<lparr>resp_address = req_address msg,
         resp_block_id = Some (pb_block_id_ext (state_block_id state)),
         resp_balance = (case state_balance state of Some b \<Rightarrow> b | None \<Rightarrow> 0),
         resp_last_tx = map_option (transaction_id_of A address) (last_transaction_id state),
         resp_state = Some (account_state_of state)\<rparr>))"

definition fetch_shard_account_cell ::
    "addr_ops \<Rightarrow> ('c, 'e, 'v) ton_ops \<Rightarrow> AccountRequest \<Rightarrow> ('c, 'e ton_error, TonBlockIdExt \<times> 'v) action" where
  "fetch_shard_account_cell A T msg =
     (case req_criteria msg of
        None \<Rightarrow>
          and_then (get_masterchain_info T) (\<lambda>bid.
          and_then (get_shard_account_cell_at_least_block A T (req_address msg) bid) (\<lambda>cell. succeed (bid, cell)))
      | Some (AtBlock b) \<Rightarrow>
          and_then (extend_block_id T b) (\<lambda>bid.
          and_then (get_shard_account_cell_on_block A T (req_address msg) bid) (\<lambda>cell. succeed (bid, cell)))
      | Some (AtTransaction tx_id) \<Rightarrow>
          and_then (raw_get_account_state_by_transaction A T (req_address msg) (internal_of_partial tx_id)) (\<lambda>state.
          and_then (get_shard_account_cell_on_block A T (req_address msg) (state_block_id state))
            (\<lambda>cell. succeed (state_block_id state, cell)))
      | Some (AtLeastBlock b) \<Rightarrow>
          and_then (extend_block_id T b) (\<lambda>bid.
          and_then (raw_get_account_state_at_least_block A T (req_address msg) bid) (\<lambda>state.
          and_then (get_shard_account_cell_on_block A T (req_address msg) (state_block_id state))
            (\<lambda>cell. succeed (state_block_id state, cell)))))"

definition grpc_get_shard_account_cell ::
    "addr_ops \<Rightarrow> ('c, 'e, 'v) ton_ops \<Rightarrow> AccountRequest \<Rightarrow> ('c, 'e grpc_error, 'v GetShardAccountCellResponse) action" where
  "grpc_get_shard_account_cell A T msg =
     and_then (map_err OfClient (fetch_shard_account_cell A T msg)) (\<lambda>(bid, cell).
       succeed \<lparr>cell_address = req_address msg, cell_block_id = Some (pb_block_id_ext bid), cell_cell = Some cell\<rparr>)"

datatype TxOrder = TxUnordered | FromNewToOld

record GetAccountTransactionsRequest =
  tx_req_address :: string
  tx_req_order :: TxOrder
  tx_req_from :: "PbBound option"
  tx_req_to :: "PbBound option"

text \<open>
  The handler returns the ranges that its stream reads, one when the order is from new to old, and
  the address that the items carry. The two bounds are resolved one after the other.
\<close>

definition get_account_transactions ::
    "addr_ops \<Rightarrow> ('c, 'e, 'v) ton_ops \<Rightarrow> GetAccountTransactionsRequest \<Rightarrow> 'c \<Rightarrow>
     (('e grpc_error, AccountAddressData \<times> (InternalTransactionId Bound \<times> InternalTransactionId Bound) list) res \<times> 'c) option" where
  "get_account_transactions A T msg c =
     (case and_then (lift_res OfAddress (addr_from_str A (tx_req_address msg))) (\<lambda>address.
           and_then (extend_from_tx_id A T (tx_req_address msg) (tx_req_from msg)) (\<lambda>from_tx.
           and_then (extend_to_tx_id A T (tx_req_address msg) (tx_req_to msg)) (\<lambda>to_tx.
             succeed (address, from_tx, to_tx)))) c of
        (Err e, c) \<Rightarrow> Some (Err e, c)
      | (Ok (address, from_tx, to_tx), c) \<Rightarrow>
          (case tx_req_order msg of
             FromNewToOld \<Rightarrow> Some (Ok (address, [(from_tx, to_tx)]), c)
           | TxUnordered \<Rightarrow>
               map_option (\<lambda>(r, c). (case r of Ok ranges \<Rightarrow> Ok (address, ranges) | Err e \<Rightarrow> Err (OfClient e), c))
                 (get_account_tx_range_unordered A T (tx_req_address msg) from_tx to_tx c)))"

text \<open>What reading one of the ranges yields.\<close>

definition read_range ::
    "addr_ops \<Rightarrow> ('c, 'e, 'v) ton_ops \<Rightarrow> string \<Rightarrow> AccountAddressData \<Rightarrow>
     InternalTransactionId Bound \<times> InternalTransactionId Bound \<Rightarrow> 'c \<Rightarrow>
     (Transaction list \<times> 'e grpc_error option \<times> 'c) option" where
  "read_range A T s address rng c =
     map_option (\<lambda>(items, e, c). (map (transaction_of A address) items, map_option OfClient e, c))
       (get_account_tx_range A T s (fst rng) (snd rng) c)"

section \<open>Block service\<close>

definition get_last_block :: "('c, 'e, 'v) ton_ops \<Rightarrow> ('c, 'e grpc_error, PbBlockIdExt) action" where
  "get_last_block T = and_then (map_err OfClient (get_masterchain_info T)) (\<lambda>b. succeed (pb_block_id_ext b))"

definition get_block :: "('c, 'e, 'v) ton_ops \<Rightarrow> PbBlockId \<Rightarrow> ('c, 'e grpc_error, PbBlockIdExt) action" where
  "get_block T bid = and_then (map_err OfClient (extend_block_id T bid)) (\<lambda>b. succeed (pb_block_id_ext b))"

definition grpc_get_block_header :: "('c, 'e, 'v) ton_ops \<Rightarrow> PbBlockId \<Rightarrow> ('c, 'e grpc_error, PbBlocksHeader) action" where
  "grpc_get_block_header T bid =
     and_then (map_err OfClient (extend_get_block_header T bid)) (\<lambda>h. succeed (pb_blocks_header h))"

definition grpc_get_shards :: "('c, 'e, 'v) ton_ops \<Rightarrow> PbBlockId \<Rightarrow> ('c, 'e grpc_error, PbBlockIdExt list) action" where
  "grpc_get_shards T bid =
     and_then (map_err OfClient (extend_block_id T bid)) (\<lambda>b.
     and_then (map_err OfClient (get_shards_by_block_id T b)) (\<lambda>shards. succeed (map pb_block_id_ext shards)))"

datatype IdsOrder = IdsUnordered | IdsAsc | IdsDesc

text \<open>
  The stream of a block's transactions, with the schedule of the two directions where they are
  merged; each direction is read to its end before they are.
\<close>

definition get_transaction_ids ::
    "addr_ops \<Rightarrow> ('c, 'e, 'v) ton_ops \<Rightarrow> bool list \<Rightarrow> PbBlockId option \<Rightarrow> IdsOrder \<Rightarrow> 'c \<Rightarrow>
     (('e grpc_error, TransactionId may_panic list \<times> 'e grpc_error option) res \<times> 'c) option" where
  "get_transaction_ids A T sched bid order c =
     (case bid of
        None \<Rightarrow> Some (Err BlockIdRequired, c)
      | Some bid \<Rightarrow>
          (case map_err OfClient (extend_block_id T bid) c of
             (Err e, c) \<Rightarrow> Some (Err e, c)
           | (Ok b, c) \<Rightarrow>
               map_option (\<lambda>(txs, e, c). (Ok (map (transaction_id_of_short A (workchain bid)) txs, map_option OfClient e), c))
                 (case order of
                    IdsAsc \<Rightarrow> get_block_tx_id_stream T b False c
                  | IdsDesc \<Rightarrow> get_block_tx_id_stream T b True c
                  | IdsUnordered \<Rightarrow>
                      Option.bind (get_block_tx_id_stream T b False c) (\<lambda>fwd.
                      Option.bind (get_block_tx_id_stream T b True (snd (snd fwd))) (\<lambda>bwd.
                        Some (case get_block_tx_stream_unordered sched (stream_items fwd) (stream_items bwd) of
                          (txs, e) \<Rightarrow> (txs, e, snd (snd bwd))))))))"

definition get_account_addresses ::
    "addr_ops \<Rightarrow> ('c, 'e, 'v) ton_ops \<Rightarrow> bool list \<Rightarrow> PbBlockId \<Rightarrow> 'c \<Rightarrow>
     (('e grpc_error, string may_panic list \<times> 'e grpc_error option) res \<times> 'c) option" where
  "get_account_addresses A T sched bid c =
     (case map_err OfClient (extend_block_id T bid) c of
        (Err e, c) \<Rightarrow> Some (Err e, c)
      | (Ok b, c) \<Rightarrow>
          Option.bind (get_block_tx_id_stream T b False c) (\<lambda>fwd.
          Option.bind (get_block_tx_id_stream T b True (snd (snd fwd))) (\<lambda>bwd.
            Some (case get_accounts_in_block_stream A (workchain b) sched (stream_items fwd) (stream_items bwd) of
              (accounts, e) \<Rightarrow>
                (Ok (map (map_option (internal_to_string A)) accounts, map_option OfClient e), snd (snd bwd))))))"

definition grpc_get_transactions ::
    "addr_ops \<Rightarrow> ('c, 'e, 'v) ton_ops \<Rightarrow> PbBlockId option \<Rightarrow> 'c \<Rightarrow>
     (('e grpc_error, ('e grpc_error, Transaction) res list) res \<times> 'c) option" where
  "grpc_get_transactions A T bid c =
     (case bid of
        None \<Rightarrow> Some (Err BlockIdRequired, c)
      | Some bid \<Rightarrow>
          (case map_err OfClient (extend_block_id T bid) c of
             (Err e, c) \<Rightarrow> Some (Err e, c)
           | (Ok b, c) \<Rightarrow>
               map_option (\<lambda>r. (Ok (map (\<lambda>tx. case tx of
                     Ok tx \<Rightarrow> (case transaction_try_of A (workchain bid) tx of Ok t \<Rightarrow> Ok t | Err e \<Rightarrow> Err (OfTransaction e))
                   | Err e \<Rightarrow> Err (OfClient e)) (stream_items r)), snd (snd r)))
                 (get_block_tx_stream A T b False c)))"

section \<open>Message service\<close>

definition grpc_send_message :: "('c, 'e, 'v) ton_ops \<Rightarrow> string \<Rightarrow> ('c, 'e grpc_error, string) action" where
  "grpc_send_message T body = map_err OfClient (send_message_returning_hash T body)"

section \<open>Bounds given by blocks\<close>

lemma extend_block_id_timeline:
  assumes "timeline A T address hist wc sh birth idx at"
    and "birth \<le> seqno bid" and "workchain bid = wc" "shard bid = sh"
  shows "\<exists>b c'. extend_block_id T bid c = (Ok b, c') \<and> is_block wc sh (seqno bid) b"
  using timeline_lookup [OF assms(1,2), of c] assms(3,4)
  by (auto simp: extend_block_id_def is_block_def succeed_def split: option.splits)

lemma prev_block_id_timeline:
  assumes "timeline A T address hist wc sh birth idx at"
    and "birth \<le> seqno bid - 1" "seqno bid < 2 ^ 31" and "workchain bid = wc" "shard bid = sh"
  shows "\<exists>b c'. prev_block_id T bid c = (Ok b, c') \<and> is_block wc sh (seqno bid - 1) b"
proof -
  have "wrap_i32 (seqno bid - 1) = seqno bid - 1"
    using assms(2,3) timelineD(1) [OF assms(1)] by (intro wrap_i32_id) (simp add: in_i32_def)
  then show ?thesis using timeline_lookup [OF assms(1,2), of c] assms(4,5) by (simp add: prev_block_id_def)
qed

lemma last_tx_on_timeline:
  assumes "timeline A T address hist wc sh birth idx at" and "birth \<le> q"
    and "\<exists>b c'. find_block c = (Ok b, c') \<and> is_block wc sh q b"
  shows "\<exists>c'. last_tx_on A T address find_block c = (Ok (raw_transaction_id (hist ! idx q)), c')"
proof -
  obtain b c1 where b: "find_block c = (Ok b, c1)" "is_block wc sh q b" using assms(3) by blast
  with timeline_state_on_block [OF assms(1,2) b(2), of c1] show ?thesis
    by (auto simp: last_tx_on_def and_then_def map_err_def succeed_def)
qed

text \<open>The last block that a bound by a block lets in at the new end, and the one before the old end.\<close>

fun newest_block :: "BoundType \<Rightarrow> i32 \<Rightarrow> i32" where
  "newest_block TypeIncluded q = q"
| "newest_block TypeExcluded q = q - 1"

fun oldest_block :: "BoundType \<Rightarrow> i32 \<Rightarrow> i32" where
  "oldest_block TypeIncluded p = p - 1"
| "oldest_block TypeExcluded p = p"

definition block_bound :: "BoundType \<Rightarrow> PbBlockId \<Rightarrow> PbBound" where
  "block_bound ty bid = \<lparr>bound_type = ty, bound_value = Some (BoundBlock bid)\<rparr>"

lemma extend_from_block:
  assumes "timeline A T address hist wc sh birth idx at"
    and "birth \<le> newest_block ty (seqno bid)" "seqno bid < 2 ^ 31" and "workchain bid = wc" "shard bid = sh"
  shows "\<exists>c'. extend_from_tx_id A T address (Some (block_bound ty bid)) c =
    (Ok (Included (raw_transaction_id (hist ! idx (newest_block ty (seqno bid))))), c')"
proof (cases ty)
  case TypeIncluded
  have b: "birth \<le> seqno bid" using assms(2) TypeIncluded by simp
  from last_tx_on_timeline [where find_block = "extend_block_id T bid" and c = c, OF assms(1) b extend_block_id_timeline [OF assms(1) b assms(4,5), of c]] TypeIncluded
  show ?thesis by (auto simp: extend_from_tx_id_def block_bound_def and_then_def succeed_def)
next
  case TypeExcluded
  have b: "birth \<le> seqno bid - 1" using assms(2) TypeExcluded by simp
  from last_tx_on_timeline [where find_block = "prev_block_id T bid" and c = c, OF assms(1) b prev_block_id_timeline [OF assms(1) b assms(3-5), of c]] TypeExcluded
  show ?thesis by (auto simp: extend_from_tx_id_def block_bound_def and_then_def succeed_def)
qed

lemma extend_to_block:
  assumes "timeline A T address hist wc sh birth idx at"
    and "birth \<le> oldest_block ty (seqno bid)" "seqno bid < 2 ^ 31" and "workchain bid = wc" "shard bid = sh"
  shows "\<exists>c'. extend_to_tx_id A T address (Some (block_bound ty bid)) c =
    (Ok (Excluded (raw_transaction_id (hist ! idx (oldest_block ty (seqno bid))))), c')"
proof (cases ty)
  case TypeExcluded
  have b: "birth \<le> seqno bid" using assms(2) TypeExcluded by simp
  from last_tx_on_timeline [where find_block = "extend_block_id T bid" and c = c, OF assms(1) b extend_block_id_timeline [OF assms(1) b assms(4,5), of c]] TypeExcluded
  show ?thesis by (auto simp: extend_to_tx_id_def block_bound_def and_then_def succeed_def)
next
  case TypeIncluded
  have b: "birth \<le> seqno bid - 1" using assms(2) TypeIncluded by simp
  from last_tx_on_timeline [where find_block = "prev_block_id T bid" and c = c, OF assms(1) b prev_block_id_timeline [OF assms(1) b assms(3-5), of c]] TypeIncluded
  show ?thesis by (auto simp: extend_to_tx_id_def block_bound_def and_then_def succeed_def)
qed

text \<open>The transactions between two positions of the history are those of the blocks between.\<close>

lemma positions_between:
  assumes "timeline A T address hist wc sh birth idx at" and "birth \<le> lo" "birth \<le> hi"
  shows "filter (\<lambda>i. lo < seqno (at i) \<and> seqno (at i) \<le> hi) [0..<length hist] = [idx hi..<idx lo]"
proof -
  have "filter (\<lambda>i. lo < seqno (at i) \<and> seqno (at i) \<le> hi) [0..<length hist] =
      filter (\<lambda>i. idx hi \<le> i \<and> i < idx lo) [0..<length hist]"
    using timelineD(4) [OF assms(1,2)] timelineD(4) [OF assms(1,3)] by (intro filter_cong) (auto simp: not_le [symmetric])
  also have "\<dots> = [idx hi..<idx lo]"
  proof -
    have "idx lo \<le> length hist" using timelineD(2) [OF assms(1,2)] by simp
    then have "sorted (filter (\<lambda>i. idx hi \<le> i \<and> i < idx lo) [0..<length hist])"
      and "set (filter (\<lambda>i. idx hi \<le> i \<and> i < idx lo) [0..<length hist]) = set [idx hi..<idx lo]"
      by (auto intro: sorted_wrt_filter)
    then show ?thesis by (intro sorted_distinct_set_unique) auto
  qed
  finally show ?thesis .
qed

lemma until_since_positions:
  assumes "distinct (map raw_transaction_id hist)" and "i \<le> j" "j < length hist"
  shows "until (Excluded (raw_transaction_id (hist ! j))) (since (Included (raw_transaction_id (hist ! i))) hist) =
    map ((!) hist) [i..<j]"
proof -
  have h: "history_from hist (raw_transaction_id (hist ! i)) = drop i hist"
    using while_index [OF assms(1), of i] assms(2,3) by (simp add: history_from_def)
  have d: "distinct (map raw_transaction_id (drop i hist))" using assms(1) by (simp add: drop_map [symmetric])
  have n: "drop i hist ! (j - i) = hist ! j" using assms(2,3) by simp
  have "takeWhile (\<lambda>t. raw_transaction_id t \<noteq> raw_transaction_id (hist ! j)) (drop i hist) = take (j - i) (drop i hist)"
    using while_index [OF d, of "j - i"] assms(2,3) n by simp
  also have "\<dots> = map ((!) hist) [i..<j]"
    using assms(2,3) by (intro nth_equalityI) auto
  finally show ?thesis by (simp add: h)
qed

text \<open>Both bounds of a request resolved.\<close>

lemma resolve_block_bounds:
  assumes "timeline A T address hist wc sh birth idx at"
    and "workchain new = wc" "shard new = sh" "workchain old = wc" "shard old = sh"
    and "seqno new < 2 ^ 31" "seqno old < 2 ^ 31"
    and "birth \<le> newest_block ft (seqno new)" "birth \<le> oldest_block tt (seqno old)"
  shows "\<exists>d c'. and_then (lift_res OfAddress (addr_from_str A address)) (\<lambda>d.
        and_then (extend_from_tx_id A T address (Some (block_bound ft new))) (\<lambda>from_tx.
        and_then (extend_to_tx_id A T address (Some (block_bound tt old))) (\<lambda>to_tx.
          succeed (d, from_tx, to_tx)))) c =
      (Ok (d, Included (raw_transaction_id (hist ! idx (newest_block ft (seqno new)))),
        Excluded (raw_transaction_id (hist ! idx (oldest_block tt (seqno old))))), c')"
proof -
  obtain d where d: "addr_from_str A address = Ok d"
    using timelineD(6) [OF assms(1)] by (auto simp: account_address_new_def)
  obtain c1 where f: "extend_from_tx_id A T address (Some (block_bound ft new)) c =
      (Ok (Included (raw_transaction_id (hist ! idx (newest_block ft (seqno new))))), c1)"
    using extend_from_block [OF assms(1,8,6,2,3), of c] by blast
  obtain c2 where "extend_to_tx_id A T address (Some (block_bound tt old)) c1 =
      (Ok (Excluded (raw_transaction_id (hist ! idx (oldest_block tt (seqno old))))), c2)"
    using extend_to_block [OF assms(1,9,7,4,5), of c1] by blast
  with d f show ?thesis by (simp add: and_then_def lift_res_def succeed_def)
qed

lemma read_range_yields:
  assumes "get_account_tx_range A T address (fst rng) (snd rng) c = Some (items, None, c')"
  shows "read_range A T address d rng c = Some (map (transaction_of A d) items, None, c')"
  using assms by (simp add: read_range_def)

text \<open>The ranges that a request is turned into, in both orders.\<close>

lemma ranges_of_bounds:
  assumes serves: "serves_history A T address hist" and tl: "timeline A T address hist wc sh birth idx at"
    and d: "distinct (map raw_transaction_id hist)" and "n \<le> m" "m < length hist"
    and "order = FromNewToOld \<or> seqno (at m) + 28800 \<le> seqno (at n)"
  shows "\<exists>ranges c'. (case order of
        FromNewToOld \<Rightarrow> Some (Ok [(Included (raw_transaction_id (hist ! n)), Excluded (raw_transaction_id (hist ! m)))], c)
      | TxUnordered \<Rightarrow> get_account_tx_range_unordered A T address (Included (raw_transaction_id (hist ! n)))
          (Excluded (raw_transaction_id (hist ! m))) c) = Some (Ok ranges, c') \<and>
    list_all (\<lambda>(s, e). \<forall>c. \<exists>c'. get_account_tx_range A T address s e c = Some (until e (since s hist), None, c')) ranges \<and>
    concat (map (\<lambda>(s, e). until e (since s hist)) (rev ranges)) = map ((!) hist) [n..<m]"
proof -
  let ?s = "Included (raw_transaction_id (hist ! n))" and ?e = "Excluded (raw_transaction_id (hist ! m))"
  have n: "n < length hist" using assms(4,5) by simp
  note u = until_since_positions [OF d assms(4,5)]
  show ?thesis
  proof (cases order)
    case FromNewToOld
    have "\<exists>c'. get_account_tx_range A T address ?s ?e c = Some (until ?e (since ?s hist), None, c')" for c
      using n by (intro range_yields [OF serves d]) auto
    with u FromNewToOld show ?thesis by simp
  next
    case TxUnordered
    with assms(6) have day: "seqno (at m) + 28800 \<le> seqno (at n)" by simp
    then have "n < m" using assms(4) by (cases "n = m") auto
    with range_unordered_covers [OF serves tl d this assms(5) _ _ day, of ?s ?e c] u TxUnordered show ?thesis by simp
  qed
qed

section \<open>Properties\<close>

text \<open>
  C1. A request for an account's transactions between two blocks is answered with exactly the
  transactions of those blocks, each once, from the newest to the oldest: of the blocks up to the
  \<open>from\<close> bound and down to the \<open>to\<close> bound, with or without the bound's own block as its type says. In
  the unordered mode, with the ends at least 28800 blocks apart, the stream reads several ranges,
  whose items together, newest range first, are the same list. The account must exist before the
  oldest block that is asked for, and the server is ideal: it serves the account's history page by
  page and knows a block for every sequence number from the account's birth on.
\<close>

theorem transactions_between_blocks:
  assumes "serves_history A T address hist" and "timeline A T address hist wc sh birth idx at"
    and "distinct (map raw_transaction_id hist)"
    and "workchain new = wc" "shard new = sh" "workchain old = wc" "shard old = sh"
    and "seqno new < 2 ^ 31" "seqno old < 2 ^ 31"
    and "birth \<le> oldest_block tt (seqno old)" "oldest_block tt (seqno old) \<le> newest_block ft (seqno new)"
    and "order = FromNewToOld \<or>
      seqno (at (idx (oldest_block tt (seqno old)))) + 28800 \<le> seqno (at (idx (newest_block ft (seqno new))))"
  shows "\<exists>d ranges yields c'. get_account_transactions A T
      \<lparr>tx_req_address = address, tx_req_order = order, tx_req_from = Some (block_bound ft new),
        tx_req_to = Some (block_bound tt old)\<rparr> c = Some (Ok (d, ranges), c') \<and>
    list_all2 (\<lambda>rng ys. \<forall>c. \<exists>c'. read_range A T address d rng c = Some (ys, None, c')) ranges yields \<and>
    concat (rev yields) = map (\<lambda>i. transaction_of A d (hist ! i)) (filter (\<lambda>i.
      (case ft of TypeIncluded \<Rightarrow> seqno (at i) \<le> seqno new | TypeExcluded \<Rightarrow> seqno (at i) < seqno new) \<and>
      (case tt of TypeIncluded \<Rightarrow> seqno old \<le> seqno (at i) | TypeExcluded \<Rightarrow> seqno old < seqno (at i))) [0..<length hist])"
proof -
  let ?hi = "newest_block ft (seqno new)" and ?lo = "oldest_block tt (seqno old)"
  let ?range = "\<lambda>(s, e). until e (since s hist)"
  have hi: "birth \<le> ?hi" using assms(10,11) by simp
  have nm: "idx ?hi \<le> idx ?lo" "idx ?lo < length hist"
    using timeline_antimono [OF assms(2,10,11)] timelineD(2) [OF assms(2,10)] by simp_all
  obtain d c1 where r: "and_then (lift_res OfAddress (addr_from_str A address)) (\<lambda>d.
        and_then (extend_from_tx_id A T address (Some (block_bound ft new))) (\<lambda>from_tx.
        and_then (extend_to_tx_id A T address (Some (block_bound tt old))) (\<lambda>to_tx.
          succeed (d, from_tx, to_tx)))) c =
      (Ok (d, Included (raw_transaction_id (hist ! idx ?hi)), Excluded (raw_transaction_id (hist ! idx ?lo))), c1)"
    using resolve_block_bounds [OF assms(2,4-9) hi assms(10), of c] by blast
  obtain ranges c2 where o: "(case order of
        FromNewToOld \<Rightarrow> Some (Ok [(Included (raw_transaction_id (hist ! idx ?hi)), Excluded (raw_transaction_id (hist ! idx ?lo)))], c1)
      | TxUnordered \<Rightarrow> get_account_tx_range_unordered A T address (Included (raw_transaction_id (hist ! idx ?hi)))
          (Excluded (raw_transaction_id (hist ! idx ?lo))) c1) = Some (Ok ranges, c2)"
    and l: "list_all (\<lambda>(s, e). \<forall>c. \<exists>c'. get_account_tx_range A T address s e c = Some (until e (since s hist), None, c')) ranges"
    and cc: "concat (map ?range (rev ranges)) = map ((!) hist) [idx ?hi..<idx ?lo]"
    using ranges_of_bounds [OF assms(1-3) nm assms(12), of c1] by blast
  let ?ys = "map (\<lambda>rng. map (transaction_of A d) (?range rng)) ranges"
  have "get_account_transactions A T \<lparr>tx_req_address = address, tx_req_order = order,
      tx_req_from = Some (block_bound ft new), tx_req_to = Some (block_bound tt old)\<rparr> c = Some (Ok (d, ranges), c2)"
    using r o by (cases order) (simp_all add: get_account_transactions_def)
  moreover have "list_all2 (\<lambda>rng ys. \<forall>c. \<exists>c'. read_range A T address d rng c = Some (ys, None, c')) ranges ?ys"
    using l by (fastforce simp: list_all2_map2 list_all2_same list_all_iff intro: read_range_yields)
  moreover have "concat (rev ?ys) = map (transaction_of A d) (concat (map ?range (rev ranges)))"
    by (simp add: rev_map map_concat comp_def)
  moreover have "filter (\<lambda>i.
      (case ft of TypeIncluded \<Rightarrow> seqno (at i) \<le> seqno new | TypeExcluded \<Rightarrow> seqno (at i) < seqno new) \<and>
      (case tt of TypeIncluded \<Rightarrow> seqno old \<le> seqno (at i) | TypeExcluded \<Rightarrow> seqno old < seqno (at i))) [0..<length hist] =
      [idx ?hi..<idx ?lo]"
    unfolding positions_between [OF assms(2,10) hi, symmetric]
    by (intro filter_cong) (auto split: BoundType.splits)
  ultimately show ?thesis unfolding cc by fastforce
qed

definition example_pb_block :: "i32 \<Rightarrow> PbBlockId" where
  "example_pb_block q = \<lparr>workchain = 0, shard = 0, seqno = q, id_root_hash = None, id_file_hash = None\<rparr>"

theorem transactions_between_blocks_witness:
  "\<exists>d ranges yields c'. get_account_transactions std_addr history_ton
      \<lparr>tx_req_address = example_address, tx_req_order = TxUnordered,
        tx_req_from = Some (block_bound TypeIncluded (example_pb_block 65000)),
        tx_req_to = Some (block_bound TypeExcluded (example_pb_block 40000))\<rparr> () = Some (Ok (d, ranges), c') \<and>
    list_all2 (\<lambda>rng ys. \<forall>c. \<exists>c'. read_range std_addr history_ton example_address d rng c = Some (ys, None, c')) ranges yields \<and>
    concat (rev yields) = [transaction_of std_addr d (example_hist ! 0)]"
proof -
  have p: "filter (\<lambda>i. seqno (example_at i) \<le> 65000 \<and> 40000 < seqno (example_at i)) [0..<length example_hist] = [0]"
    by (simp add: example_hist_def example_at_def upt_rec)
  have "\<exists>d ranges yields c'. get_account_transactions std_addr history_ton
      \<lparr>tx_req_address = example_address, tx_req_order = TxUnordered,
        tx_req_from = Some (block_bound TypeIncluded (example_pb_block 65000)),
        tx_req_to = Some (block_bound TypeExcluded (example_pb_block 40000))\<rparr> () = Some (Ok (d, ranges), c') \<and>
    list_all2 (\<lambda>rng ys. \<forall>c. \<exists>c'. read_range std_addr history_ton example_address d rng c = Some (ys, None, c')) ranges yields \<and>
    concat (rev yields) = map (\<lambda>i. transaction_of std_addr d (example_hist ! i)) (filter (\<lambda>i.
      (case TypeIncluded of TypeIncluded \<Rightarrow> seqno (example_at i) \<le> seqno (example_pb_block 65000)
        | TypeExcluded \<Rightarrow> seqno (example_at i) < seqno (example_pb_block 65000)) \<and>
      (case TypeExcluded of TypeIncluded \<Rightarrow> seqno (example_pb_block 40000) \<le> seqno (example_at i)
        | TypeExcluded \<Rightarrow> seqno (example_pb_block 40000) < seqno (example_at i))) [0..<length example_hist])"
    by (rule transactions_between_blocks [OF serves_history_ton timeline_history_ton distinct_example_hist])
      (simp_all add: example_pb_block_def example_idx_def example_at_def)
  then show ?thesis by (simp add: example_pb_block_def p)
qed

text \<open>
  A request whose \<open>to\<close> bound is the block of the account's first transaction is refused: the
  block before knows no transaction of the account, and that is reported as an error instead of as
  the beginning of the history.
\<close>

lemma first_block_as_bound_refused:
  assumes "addr_from_str A address = Ok d"
    and "extend_from_tx_id A T address from_bound c = (Ok from_tx, c1)"
    and "prev_block_id T old c1 = (Ok b, c2)"
    and "raw_get_account_state_on_block A T address b c2 = (Ok state, c3)" "last_transaction_id state = None"
  shows "get_account_transactions A T \<lparr>tx_req_address = address, tx_req_order = order, tx_req_from = from_bound,
    tx_req_to = Some (block_bound TypeIncluded old)\<rparr> c = Some (Err ToTxNotFound, c3)"
proof -
  have "extend_to_tx_id A T address (Some (block_bound TypeIncluded old)) c1 = (Err ToTxNotFound, c3)"
    using assms(3-5) by (simp add: extend_to_tx_id_def block_bound_def last_tx_on_def map_err_def and_then_def fail_def)
  then show ?thesis
    using assms(1,2) by (simp add: get_account_transactions_def and_then_def lift_res_def succeed_def)
qed

lemma first_block_as_bound_refused_witness:
  "get_account_transactions std_addr (example_ton [] (\<lambda>_. ([], None)))
     \<lparr>tx_req_address = example_address, tx_req_order = FromNewToOld, tx_req_from = None,
       tx_req_to = Some (block_bound TypeIncluded (example_pb_block 3))\<rparr> () = Some (Err ToTxNotFound, ())"
proof -
  obtain d where d: "addr_from_str std_addr example_address = Ok d"
    using example_address_ok by (auto simp: account_address_new_def)
  let ?T = "example_ton [] (\<lambda>_. ([], None))"
  let ?b = "\<lparr>workchain = - 1, shard = - 9223372036854775808, seqno = 2, root_hash = [], file_hash = []\<rparr>"
  have p: "prev_block_id ?T (example_pb_block 3) () = (Ok ?b, ())"
    by (simp add: prev_block_id_def look_up_block_by_seqno_def example_ton_def example_pb_block_def lookup_seqno_def
      wrap_i32_def oneshot_def)
  have s: "raw_get_account_state_on_block std_addr ?T example_address ?b () = (Ok (plain_state ?b None), ())"
    by (simp add: raw_get_account_state_on_block_def with_address_def example_address_ok lift_res_def succeed_def
      and_then_def oneshot_def example_ton_def)
  have f: "extend_from_tx_id std_addr ?T example_address None () = (Ok Unbounded, ())"
    by (simp add: extend_from_tx_id_def succeed_def)
  show ?thesis by (rule first_block_as_bound_refused [OF d f p s]) simp
qed

text \<open>
  C39. A cell is returned with the block it was read at: for every request that names a block or a
  transaction, the cell of the response is the answer to the request for the account's cell on exactly
  the block that the response names.
\<close>

theorem cell_of_reported_block:
  assumes "grpc_get_shard_account_cell A T msg c = (Ok r, c')" and "req_criteria msg \<noteq> None"
  shows "\<exists>b cell c1. cell_block_id r = Some (pb_block_id_ext b) \<and> cell_cell r = Some cell \<and>
    get_shard_account_cell_on_block A T (req_address msg) b c1 = (Ok cell, c')"
  using assms
  by (auto simp: grpc_get_shard_account_cell_def fetch_shard_account_cell_def and_then_def map_err_def succeed_def
    split: prod.splits res.splits Criteria.splits option.splits) blast+

text \<open>Without a criterion the cell may be of a later block than the one that is reported.\<close>

lemma cell_without_criteria:
  assumes "get_masterchain_info T c = (Ok b, c1)"
    and "get_shard_account_cell_at_least_block A T address b c1 = (Ok cell, c2)"
  shows "grpc_get_shard_account_cell A T \<lparr>req_address = address, req_criteria = None\<rparr> c =
    (Ok \<lparr>cell_address = address, cell_block_id = Some (pb_block_id_ext b), cell_cell = Some cell\<rparr>, c2)"
  using assms by (simp add: grpc_get_shard_account_cell_def fetch_shard_account_cell_def and_then_def map_err_def succeed_def)

text \<open>A server whose cells are the sequence numbers of the blocks they are read at.\<close>

definition cell_ton :: "(unit, unit, i32) ton_ops" where
  "cell_ton =
     \<lparr>send_masterchain_info = (\<lambda>c. (Ok (example_block_at 7), c)),
       send_lookup = (\<lambda>r c. (Ok (example_block_at (seqno (lookup_id r))), c)),
       send_shards = refuse, send_header = refuse, send_account_state = refuse, send_account_state_with_block = refuse,
       send_account_state_forward = (\<lambda>_ c. (Ok (plain_state (example_block_at 9) None), c)),
       send_account_state_by_tx = refuse, send_full_account_state = refuse, send_raw_transactions = refuse,
       send_transactions_ext = refuse, send_transactions = refuse, send_raw_message = refuse, send_raw_message_hash = refuse,
       send_run_get_method = refuse, send_shard_account_cell = refuse,
       send_shard_account_cell_with_block = (\<lambda>w c. (Ok (seqno (with_id w)), c)),
       send_shard_account_cell_forward = (\<lambda>_ c. (Ok 9, c)), send_shard_account_cell_by_tx = refuse\<rparr>"

lemmas cell_simps = grpc_get_shard_account_cell_def fetch_shard_account_cell_def extend_block_id_def example_pb_block_def
  look_up_block_by_seqno_def get_masterchain_info_def raw_get_account_state_at_least_block_def
  get_shard_account_cell_at_least_block_def get_shard_account_cell_on_block_def cell_ton_def lookup_seqno_def
  with_address_def example_address_ok lift_res_def succeed_def and_then_def oneshot_def map_err_def example_block_at_def

theorem cell_of_reported_block_witness:
  "\<exists>b cell c1. pb_block_id_ext (example_block_at 9) = pb_block_id_ext b \<and> (9 :: i32) = cell \<and>
    get_shard_account_cell_on_block std_addr cell_ton example_address b c1 = (Ok cell, ())"
proof -
  let ?msg = "\<lparr>req_address = example_address, req_criteria = Some (AtLeastBlock (example_pb_block 5))\<rparr>"
  have "grpc_get_shard_account_cell std_addr cell_ton ?msg () =
      (Ok \<lparr>cell_address = example_address, cell_block_id = Some (pb_block_id_ext (example_block_at 9)), cell_cell = Some 9\<rparr>, ())"
    by (simp add: cell_simps)
  from cell_of_reported_block [OF this] show ?thesis by simp
qed

lemma cell_without_criteria_example:
  "grpc_get_shard_account_cell std_addr cell_ton \<lparr>req_address = example_address, req_criteria = None\<rparr> () =
     (Ok \<lparr>cell_address = example_address, cell_block_id = Some (pb_block_id_ext (example_block_at 7)), cell_cell = Some 9\<rparr>, ())"
  by (simp add: cell_simps)

lemma transaction_id_of_short_base64:
  assumes "addr_crates A" and "length a = 32" and "tx_account tx = base64_encode A a"
  shows "transaction_id_of_short A wc tx =
    Some \<lparr>pb_account_address = show_int wc @ '':'' @ hex_encode A a, pb_lt = tx_lt tx, pb_hash = tx_hash tx\<rparr>"
  by (simp add: assms(2,3) transaction_id_of_short_def tx_into_internal_string_def tx_into_internal_def shard_from_str_def
      addr_crates.base64_decode_encode [OF assms(1)] into_internal_def internal_to_string_def)

lemma transaction_ids_of_shorts:
  assumes "addr_crates A" and "\<forall>tx\<in>set txs. \<exists>a. length a = 32 \<and> tx_account tx = base64_encode A a"
    and "set xs \<subseteq> set txs" and "ids = map (\<lambda>tx. the (transaction_id_of_short A wc tx)) xs"
  shows "map (transaction_id_of_short A wc) xs = map Some ids"
    and "list_all2 (\<lambda>tx i. \<exists>a. length a = 32 \<and> tx_account tx = base64_encode A a \<and>
        i = \<lparr>pb_account_address = show_int wc @ '':'' @ hex_encode A a, pb_lt = tx_lt tx, pb_hash = tx_hash tx\<rparr>) xs ids"
proof -
  have one: "\<exists>a. length a = 32 \<and> tx_account tx = base64_encode A a \<and> transaction_id_of_short A wc tx =
      Some \<lparr>pb_account_address = show_int wc @ '':'' @ hex_encode A a, pb_lt = tx_lt tx, pb_hash = tx_hash tx\<rparr>"
    if "tx \<in> set xs" for tx
    using assms(2,3) that transaction_id_of_short_base64 [OF assms(1)] by blast
  show "map (transaction_id_of_short A wc) xs = map Some ids"
    unfolding assms(4) by (auto dest!: one)
  show "list_all2 (\<lambda>tx i. \<exists>a. length a = 32 \<and> tx_account tx = base64_encode A a \<and>
      i = \<lparr>pb_account_address = show_int wc @ '':'' @ hex_encode A a, pb_lt = tx_lt tx, pb_hash = tx_hash tx\<rparr>) xs ids"
    unfolding assms(4) list_all2_map2 list_all2_same by (auto dest!: one)
qed

text \<open>
  C7. In every order, the stream of the identifiers of a block's transactions ends without an error
  and without a panic, and has yielded the identifier of every transaction of the block exactly once,
  in the order of the block, in the reverse order, or in some order when none is asked for, whatever
  the number of pages and the order in which the two directions are polled. An identifier has the raw
  form of the account's address in the requested workchain, the logical time and the hash. The block
  is found, the server answers requests about it page by page from one list of transactions with
  different accounts or logical times, and every account is the base64 form of 32 bytes.
\<close>

theorem transaction_ids_complete:
  fixes T :: "('c, 'e, 'v) ton_ops"
  assumes "addr_crates A" and "map_err OfClient (extend_block_id T bid) c = (Ok b, c1)"
    and "serves_pages T b txs" and "distinct (map account_tx_of_short txs)"
    and "\<forall>tx\<in>set txs. \<exists>a. length a = 32 \<and> tx_account tx = base64_encode A a"
  shows "\<exists>yielded ids c'. get_transaction_ids A T sched (Some bid) order c = Some (Ok (map Some ids, None), c') \<and>
    mset yielded = mset txs \<and> (order = IdsAsc \<longrightarrow> yielded = txs) \<and> (order = IdsDesc \<longrightarrow> yielded = rev txs) \<and>
    list_all2 (\<lambda>tx i. \<exists>a. length a = 32 \<and> tx_account tx = base64_encode A a \<and>
        i = \<lparr>pb_account_address = show_int (workchain bid) @ '':'' @ hex_encode A a, pb_lt = tx_lt tx, pb_hash = tx_hash tx\<rparr>)
      yielded ids"
proof -
  note col = id_stream_collects [OF assms(3,4)]
  obtain ys where ys: "mset ys = mset txs"
    "get_block_tx_stream_unordered sched (stream_items (txs, None :: 'e ton_error option, c1))
       (stream_items (rev txs, None, c1)) = (ys, None)"
    using unordered_each_once [OF assms(3,4), of c1 "(txs, None, c1)" c1 "(rev txs, None, c1)" sched] col by auto
  define yielded where "yielded = (case order of IdsAsc \<Rightarrow> txs | IdsDesc \<Rightarrow> rev txs | IdsUnordered \<Rightarrow> ys)"
  have m: "mset yielded = mset txs" using ys(1) by (simp add: yielded_def split: IdsOrder.split)
  have run: "\<exists>c'. get_transaction_ids A T sched (Some bid) order c =
      Some (Ok (map (transaction_id_of_short A (workchain bid)) yielded, None), c')"
    by (cases order) (use ys in \<open>auto simp: get_transaction_ids_def assms(2) col yielded_def\<close>)
  have "set yielded \<subseteq> set txs" using mset_eq_setD [OF m] by simp
  note ids = transaction_ids_of_shorts [OF assms(1,5) this refl, of "workchain bid"]
  from run obtain c' where "get_transaction_ids A T sched (Some bid) order c =
      Some (Ok (map Some (map (\<lambda>tx. the (transaction_id_of_short A (workchain bid) tx)) yielded), None), c')"
    unfolding ids(1) by blast
  moreover have "order = IdsAsc \<longrightarrow> yielded = txs" "order = IdsDesc \<longrightarrow> yielded = rev txs" by (simp_all add: yielded_def)
  ultimately show ?thesis using m ids(2) by blast
qed

text \<open>A block of 40 transactions, more than a page, of two accounts.\<close>

definition account_txs :: "BlocksShortTxId list" where
  "account_txs = map (\<lambda>l. \<lparr>tx_account = base64_encode std_addr (replicate 32 (if l < 20 then 7 else 9)), tx_hash = ''h'', tx_lt = l\<rparr>) [1..40]"

theorem transaction_ids_complete_witness:
  "\<exists>ids c'. get_transaction_ids std_addr (example_ton account_txs (\<lambda>_. ([], None))) [True] (Some (example_pb_block 5)) IdsDesc () =
      Some (Ok (map Some ids, None), c') \<and> length ids = 40 \<and> map pb_lt ids = rev [1..40]"
proof -
  let ?T = "example_ton account_txs (\<lambda>_. ([], None))"
  have "map_err OfClient (extend_block_id ?T (example_pb_block 5)) () =
      (Ok \<lparr>workchain = - 1, shard = - 9223372036854775808, seqno = 5, root_hash = [], file_hash = []\<rparr>, ())"
    by (simp add: map_err_def extend_block_id_def example_pb_block_def look_up_block_by_seqno_def oneshot_def example_ton_def
      lookup_seqno_def)
  note block = this
  have "distinct (map account_tx_of_short account_txs)"
    by (simp add: account_txs_def distinct_map inj_on_def account_tx_of_short_def del: upto_rec_numeral)
  moreover have "\<forall>tx\<in>set account_txs. \<exists>a. length a = 32 \<and> tx_account tx = base64_encode std_addr a"
    unfolding account_txs_def by (auto simp del: upto_rec_numeral) (metis length_replicate)+
  ultimately obtain yielded ids c' where ids: "get_transaction_ids std_addr ?T [True] (Some (example_pb_block 5)) IdsDesc () =
      Some (Ok (map Some ids, None), c')" "IdsDesc = IdsDesc \<longrightarrow> yielded = rev account_txs"
    "list_all2 (\<lambda>tx i. \<exists>a. length a = 32 \<and> tx_account tx = base64_encode std_addr a \<and>
        i = \<lparr>pb_account_address = show_int (workchain (example_pb_block 5)) @ '':'' @ hex_encode std_addr a, pb_lt = tx_lt tx, pb_hash = tx_hash tx\<rparr>)
      yielded ids"
    using transaction_ids_complete [OF std_addr.addr_crates_axioms block serves_example, of "[True]" IdsDesc] by blast
  have "list_all2 (\<lambda>tx i. pb_lt i = tx_lt tx) yielded ids" by (rule list_all2_mono [OF ids(3)]) auto
  then have "map pb_lt ids = map tx_lt yielded" by (induction rule: list_all2_induct) auto
  also have "\<dots> = map tx_lt (rev account_txs)" using ids(2) by simp
  also have "\<dots> = rev [1..40]" by (simp add: account_txs_def rev_map comp_def del: upto_rec_numeral)
  finally have "map pb_lt ids = rev [1..40]" .
  moreover from arg_cong [OF this, of length] have "length ids = 40" by (simp del: upto_rec_numeral)
  ultimately show ?thesis using ids(1) by blast
qed

text \<open>
  C38. The stream of the addresses of a block ends without an error and without a panic, and has
  yielded the raw address of every account that has a transaction in the block exactly once, and no
  other, however many transactions an account has, whatever the number of pages and the order in
  which the two directions are polled. The block is found, its transactions are grouped by account,
  the server answers requests about it page by page from one list of transactions with different
  accounts or logical times, and every account is the base64 form of 32 bytes.
\<close>

theorem account_addresses_complete:
  fixes T :: "('c, 'e, 'v) ton_ops"
  assumes "addr_crates A" and "map_err OfClient (extend_block_id T bid) c = (Ok b, c1)"
    and "serves_pages T b txs" and "distinct (map account_tx_of_short txs)" and "grouped (map tx_account txs)"
    and "\<forall>tx\<in>set txs. \<exists>a. length a = 32 \<and> tx_account tx = base64_encode A a"
  shows "\<exists>accounts c'. get_account_addresses A T sched bid c =
      Some (Ok (map (\<lambda>a. Some (show_int (workchain b) @ '':'' @ hex_encode A a)) accounts, None), c') \<and>
    distinct accounts \<and> set accounts = {a. length a = 32 \<and> base64_encode A a \<in> tx_account ` set txs}"
proof -
  note dec = addr_crates.base64_decode_encode [OF assms(1)]
  note col = id_stream_collects [OF assms(3,4)]
  obtain strs where strs: "distinct strs" "set strs = tx_account ` set txs"
    "get_accounts_in_block_stream A (workchain b) sched (stream_items (txs, None :: 'e ton_error option, c1))
       (stream_items (rev txs, None, c1)) =
       (map (\<lambda>a. map_option (\<lambda>x. into_internal x (workchain b)) (ok_of (shard_from_str A a))) strs, None)"
    using accounts_stream_each_once [OF assms(3-5), of c1 "(txs, None, c1)" c1 "(rev txs, None, c1)" A "workchain b" sched] col
    by auto
  define accounts where "accounts = map (\<lambda>s. the (base64_decode A s)) strs"
  have str: "\<exists>a. length a = 32 \<and> s = base64_encode A a" if "s \<in> set strs" for s using assms(6) strs(2) that by auto
  have "map (\<lambda>a. map_option (\<lambda>x. into_internal x (workchain b)) (ok_of (shard_from_str A a))) strs =
      map (\<lambda>a. Some \<lparr>internal_chain_id = workchain b, internal_bytes = a\<rparr>) accounts"
    unfolding accounts_def by (auto dest!: str simp: shard_from_str_def into_internal_def dec)
  then have "\<exists>c'. get_account_addresses A T sched bid c =
      Some (Ok (map (\<lambda>a. Some (show_int (workchain b) @ '':'' @ hex_encode A a)) accounts, None), c')"
    using strs(3) by (simp add: get_account_addresses_def assms(2) col comp_def internal_to_string_def)
  moreover have "distinct accounts"
    using strs(1) by (auto simp: accounts_def distinct_map inj_on_def dest!: str simp: dec)
  moreover have "set accounts = {a. length a = 32 \<and> base64_encode A a \<in> tx_account ` set txs}"
  proof (intro set_eqI iffI)
    fix a
    assume "a \<in> set accounts"
    then obtain s where "s \<in> set strs" "a = the (base64_decode A s)" by (auto simp: accounts_def)
    with str [of s] show "a \<in> {a. length a = 32 \<and> base64_encode A a \<in> tx_account ` set txs}"
      unfolding strs(2) [symmetric] by (auto simp: dec)
  next
    fix a
    assume "a \<in> {a. length a = 32 \<and> base64_encode A a \<in> tx_account ` set txs}"
    then have "base64_encode A a \<in> set strs" "a = the (base64_decode A (base64_encode A a))" using strs(2) dec by auto
    then show "a \<in> set accounts" unfolding accounts_def set_map by (rule rev_image_eqI)
  qed
  ultimately show ?thesis by blast
qed

lemma base64_example: "base64_encode std_addr (replicate 32 7) \<noteq> base64_encode std_addr (replicate 32 9)"
proof
  assume "base64_encode std_addr (replicate 32 7) = base64_encode std_addr (replicate 32 9)"
  then have "Some (replicate 32 (7 :: u8)) = Some (replicate 32 9)"
    using std_addr.base64_decode_encode by metis
  then show False by (simp add: numeral_eq_Suc)
qed

definition two_account_txs :: "BlocksShortTxId list" where
  "two_account_txs = map (\<lambda>(k, l). \<lparr>tx_account = base64_encode std_addr (replicate 32 k), tx_hash = ''h'', tx_lt = l\<rparr>) [(7, 1), (7, 2), (9, 3)]"

theorem account_addresses_complete_witness:
  "\<exists>accounts c'. get_account_addresses std_addr (example_ton two_account_txs (\<lambda>_. ([], None))) [True, False] (example_pb_block 5) () =
      Some (Ok (map (\<lambda>a. Some (show_int (- 1) @ '':'' @ hex_encode std_addr a)) accounts, None), c') \<and>
    distinct accounts \<and> set accounts = {replicate 32 7, replicate 32 9}"
proof -
  let ?T = "example_ton two_account_txs (\<lambda>_. ([], None))"
  have block: "map_err OfClient (extend_block_id ?T (example_pb_block 5)) () =
      (Ok \<lparr>workchain = - 1, shard = - 9223372036854775808, seqno = 5, root_hash = [], file_hash = []\<rparr>, ())"
    by (simp add: map_err_def extend_block_id_def example_pb_block_def look_up_block_by_seqno_def oneshot_def example_ton_def
      lookup_seqno_def)
  have d: "distinct (map account_tx_of_short two_account_txs)" by (simp add: two_account_txs_def account_tx_of_short_def)
  have g: "grouped (map tx_account two_account_txs)"
    using base64_example by (auto simp: two_account_txs_def grouped_def Cons_eq_append_conv)
  have b: "\<forall>tx\<in>set two_account_txs. \<exists>a. length a = 32 \<and> tx_account tx = base64_encode std_addr a"
    unfolding two_account_txs_def by auto (metis length_replicate)+
  from account_addresses_complete [OF std_addr.addr_crates_axioms block serves_example d g b, of "[True, False]"]
  obtain accounts c' where acc: "get_account_addresses std_addr ?T [True, False] (example_pb_block 5) () =
      Some (Ok (map (\<lambda>a. Some (show_int (- 1) @ '':'' @ hex_encode std_addr a)) accounts, None), c')"
    "distinct accounts" "set accounts = {a. length a = 32 \<and> base64_encode std_addr a \<in> tx_account ` set two_account_txs}"
    by auto
  have inj: "base64_encode std_addr a = base64_encode std_addr b \<longleftrightarrow> a = b" for a b
    using std_addr.base64_decode_encode by (metis option.inject)
  have "set accounts = {replicate 32 7, replicate 32 9}" unfolding acc(3) by (auto simp: two_account_txs_def inj)
  with acc(1,2) show ?thesis by blast
qed

end
