(* ===== verification/Liteserver_Client.thy ===== *)
theory Liteserver_Client
  imports Adnl
begin

text \<open>
  The client of \<^verbatim>\<open>ton-liteserver-client/src/client.rs\<close>: a handle that turns requests into messages,
  an actor that owns the connection, and futures that wait for answers. The actor stores the sender
  of a one-shot channel under the identifier of the query, sends the query as a packet, and hands
  each answer that arrives to the stored sender. A channel lives in the future that holds its
  receiver, and a sender is the number of that future. \<^verbatim>\<open>wait_seqno.rs\<close> prefixes a request.
  The serializers of the TL types that the build generates from the schema are parameters.
\<close>

section \<open>State\<close>

datatype 'l LsError =
    LiteServerError 'l | Deserialize | ChannelClosed | OneshotClosed | Elapsed | Connection string

record AdnlMessageQuery =
  query_id :: bytes
  query :: bytes

record AdnlMessageAnswer =
  answer_query_id :: bytes
  answer :: bytes

datatype oneshot_receiver = RxWaiting | RxAnswer bytes | RxClosed | RxTaken

datatype 'l LsResponseState = LsFailed "'l LsError option" | LsRx oneshot_receiver

record ClientActorMessage =
  msg_query :: AdnlMessageQuery
  msg_oneshot :: nat

datatype actor_state = Running | Stopped | Panicked

record 'l LiteServerClient =
  mailbox :: "ClientActorMessage list"
  ls_responses :: "bytes \<rightharpoonup> nat"
  ls_futures :: "nat \<rightharpoonup> 'l LsResponseState"
  ls_next :: nat
  actor :: actor_state
  handle_alive :: bool

definition ls_connect :: "'l LiteServerClient" where
  "ls_connect = \<lparr>mailbox = [], ls_responses = Map.empty, ls_futures = Map.empty, ls_next = 0, actor = Running,
     handle_alive = True\<rparr>"

section \<open>The handle and the futures\<close>

definition ls_add_future :: "'l LiteServerClient \<Rightarrow> 'l LsResponseState \<Rightarrow> nat \<times> 'l LiteServerClient" where
  "ls_add_future st f =
     (ls_next st, st\<lparr>ls_futures := (ls_futures st)(ls_next st \<mapsto> f), ls_next := Suc (ls_next st)\<rparr>)"

definition ls_poll_ready :: "'l LiteServerClient \<Rightarrow> ('l LsError, unit) res poll" where
  "ls_poll_ready st = (if actor st \<noteq> Running then Ready (Err ChannelClosed) else Ready (Ok ()))"

text \<open>\<open>call\<close> with the random identifier \<open>rid\<close>. The receiving end of the channel to the actor is gone
  when the actor is not running.\<close>

definition ls_call ::
    "(Serializer \<Rightarrow> 'r \<Rightarrow> Serializer) \<Rightarrow> (Serializer \<Rightarrow> bytes \<Rightarrow> Serializer) \<Rightarrow>
     'l LiteServerClient \<Rightarrow> bytes \<Rightarrow> 'r \<Rightarrow> nat \<times> 'l LiteServerClient" where
  "ls_call ser_request ser_query st rid req =
     (let message = to_bytes_boxed ser_query (to_bytes_boxed ser_request req)
      in if actor st \<noteq> Running then ls_add_future st (LsFailed (Some ChannelClosed))
         else ls_add_future
           (st\<lparr>mailbox := mailbox st @ [\<lparr>msg_query = \<lparr>query_id = rid, query = message\<rparr>, msg_oneshot = ls_next st\<rparr>]\<rparr>)
           (LsRx RxWaiting))"

text \<open>\<open>None\<close> when polling panics: after an error was taken, after the channel was read, or when the
  deserializer reads past the end of the answer.\<close>

definition ls_poll ::
    "buf_ops \<Rightarrow> (u32 \<Rightarrow> (DeserializerBoxedError, 'a) parser) \<Rightarrow> (u32 \<Rightarrow> (DeserializerBoxedError, 'l) parser) \<Rightarrow>
     'l LiteServerClient \<Rightarrow> nat \<Rightarrow> (('l LsError, 'a) res poll \<times> 'l LiteServerClient) may_panic" where
  "ls_poll B de_response de_error st n =
     (case ls_futures st n of
        Some (LsFailed (Some e)) \<Rightarrow> Some (Ready (Err e), st\<lparr>ls_futures := (ls_futures st)(n \<mapsto> LsFailed None)\<rparr>)
      | Some (LsRx RxWaiting) \<Rightarrow> Some (Pending, st)
      | Some (LsRx (RxAnswer response)) \<Rightarrow>
          (case from_bytes_boxed B (deserialize_boxed_result de_response de_error) response of
             None \<Rightarrow> None
           | Some r \<Rightarrow>
               Some (Ready (case r of Err _ \<Rightarrow> Err Deserialize | Ok (Err e) \<Rightarrow> Err (LiteServerError e) | Ok (Ok a) \<Rightarrow> Ok a),
                 st\<lparr>ls_futures := (ls_futures st)(n \<mapsto> LsRx RxTaken)\<rparr>))
      | Some (LsRx RxClosed) \<Rightarrow>
          Some (Ready (Err OneshotClosed), st\<lparr>ls_futures := (ls_futures st)(n \<mapsto> LsRx RxTaken)\<rparr>)
      | _ \<Rightarrow> None)"

text \<open>Dropping a future drops its receiver; the sender stays where it is.\<close>

definition ls_drop :: "'l LiteServerClient \<Rightarrow> nat \<Rightarrow> 'l LiteServerClient" where
  "ls_drop st n = st\<lparr>ls_futures := (ls_futures st)(n := None)\<rparr>"

section \<open>The actor\<close>

definition close_senders :: "'l LiteServerClient \<Rightarrow> nat set \<Rightarrow> 'l LiteServerClient" where
  "close_senders st ns = st\<lparr>ls_futures := (\<lambda>n.
     if n \<in> ns \<and> ls_futures st n = Some (LsRx RxWaiting) then Some (LsRx RxClosed) else ls_futures st n)\<rparr>"

text \<open>The actor's task ends: the receiver of messages and the stored senders are dropped.\<close>

definition actor_end :: "actor_state \<Rightarrow> 'l LiteServerClient \<Rightarrow> 'l LiteServerClient" where
  "actor_end how st =
     (close_senders st (set (map msg_oneshot (mailbox st)) \<union> ran (ls_responses st)))
       \<lparr>mailbox := [], ls_responses := Map.empty, actor := how\<rparr>"

text \<open>The branch of \<open>select!\<close> for what the connection delivers: a packet or a reading error.\<close>

definition actor_received ::
    "buf_ops \<Rightarrow> (u32 \<Rightarrow> (DeserializerBoxedError, AdnlMessageAnswer) parser) \<Rightarrow>
     'l LiteServerClient \<Rightarrow> (unit, Packet) res \<Rightarrow> 'l LiteServerClient" where
  "actor_received B de_answer st response =
     (case response of
        Err _ \<Rightarrow> actor_end Stopped st
      | Ok packet \<Rightarrow>
          if is_pong_packet packet then st
          else (case from_bytes_boxed B de_answer (data packet) of
                  Some (Ok adnl_answer) \<Rightarrow>
                    (case ls_responses st (answer_query_id adnl_answer) of
                       None \<Rightarrow> st
                     | Some n \<Rightarrow>
                         (let st = st\<lparr>ls_responses := (ls_responses st)(answer_query_id adnl_answer := None)\<rparr>
                          in if ls_futures st n = Some (LsRx RxWaiting)
                             then st\<lparr>ls_futures := (ls_futures st)(n \<mapsto> LsRx (RxAnswer (answer adnl_answer)))\<rparr>
                             else st))
                | _ \<Rightarrow> actor_end Panicked st))"

text \<open>The branch for the next message, or the tick of the interval; the second component is the packet
  that is sent. A failure to send panics.\<close>

definition actor_query ::
    "('c, 'seed, 'pk, 'sk) crypto_ops \<Rightarrow> (Serializer \<Rightarrow> AdnlMessageQuery \<Rightarrow> Serializer) \<Rightarrow> bytes \<Rightarrow> bool \<Rightarrow>
     'l LiteServerClient \<Rightarrow> ClientActorMessage \<Rightarrow> 'l LiteServerClient \<times> Packet" where
  "actor_query C ser_message rnd sent_ok st m =
     (let old = ls_responses st (query_id (msg_query m));
          st = (case old of Some n \<Rightarrow> close_senders st {n} | None \<Rightarrow> st);
          st = st\<lparr>ls_responses := (ls_responses st)(query_id (msg_query m) \<mapsto> msg_oneshot m)\<rparr>
      in (if sent_ok then st else actor_end Panicked st,
          packet_new C rnd (to_bytes_boxed ser_message (msg_query m))))"

definition actor_ping ::
    "('c, 'seed, 'pk, 'sk) crypto_ops \<Rightarrow> bytes \<Rightarrow> u64 \<Rightarrow> bool \<Rightarrow> 'l LiteServerClient \<Rightarrow> 'l LiteServerClient \<times> Packet" where
  "actor_ping C rnd rnd64 sent_ok st = (if sent_ok then st else actor_end Panicked st, ping_packet C rnd rnd64)"

section \<open>Waiting for a block\<close>

record LiteServerWaitMasterchainSeqno =
  wait_seqno :: i32
  wait_timeout_ms :: i32

record 'r WaitSeqno =
  wait_prefix :: LiteServerWaitMasterchainSeqno
  wait_request :: 'r

definition wait_with_timeout :: "'r \<Rightarrow> i32 \<Rightarrow> nat \<Rightarrow> 'r WaitSeqno" where
  "wait_with_timeout request q timeout_ms =
     \<lparr>wait_prefix = \<lparr>wait_seqno = q, wait_timeout_ms = wrap_i32 (int timeout_ms)\<rparr>, wait_request = request\<rparr>"

definition wait_new :: "'r \<Rightarrow> i32 \<Rightarrow> 'r WaitSeqno" where
  "wait_new request q = wait_with_timeout request q 3000"

definition wait_serialize_boxed ::
    "(Serializer \<Rightarrow> LiteServerWaitMasterchainSeqno \<Rightarrow> Serializer) \<Rightarrow> (Serializer \<Rightarrow> 'r \<Rightarrow> Serializer) \<Rightarrow>
     Serializer \<Rightarrow> 'r WaitSeqno \<Rightarrow> Serializer" where
  "wait_serialize_boxed ser_prefix ser_request se w = ser_request (ser_prefix se (wait_prefix w)) (wait_request w)"

definition wait_to_timeout :: "'r WaitSeqno \<Rightarrow> nat option" where
  "wait_to_timeout w = Some 10000"

section \<open>Runs\<close>

text \<open>
  A run carries along the identifiers drawn for the futures and the answers that have arrived. The
  token of the actor is cancelled when the handle and every future that waits on a channel are gone.
\<close>

record run_log =
  ids :: "nat \<rightharpoonup> bytes"
  arrived :: "AdnlMessageAnswer set"

definition answers_in ::
    "buf_ops \<Rightarrow> (u32 \<Rightarrow> (DeserializerBoxedError, AdnlMessageAnswer) parser) \<Rightarrow> (unit, Packet) res \<Rightarrow> AdnlMessageAnswer set" where
  "answers_in B de_answer r =
     (case r of Ok p \<Rightarrow> {a. from_bytes_boxed B de_answer (data p) = Some (Ok a)} | Err _ \<Rightarrow> {})"

inductive ls_step ::
    "buf_ops \<Rightarrow> ('c, 'seed, 'pk, 'sk) crypto_ops \<Rightarrow> (u32 \<Rightarrow> (DeserializerBoxedError, AdnlMessageAnswer) parser) \<Rightarrow>
     (u32 \<Rightarrow> (DeserializerBoxedError, 'l) parser) \<Rightarrow> (u32 \<Rightarrow> (DeserializerBoxedError, 'a) parser) \<Rightarrow>
     (Serializer \<Rightarrow> 'r \<Rightarrow> Serializer) \<Rightarrow> 'l LiteServerClient \<times> run_log \<Rightarrow> 'l LiteServerClient \<times> run_log \<Rightarrow> bool"
  for B C de_answer de_error de_response ser_request where
  call: "handle_alive st \<Longrightarrow>
    ls_step B C de_answer de_error de_response ser_request (st, l) (snd (ls_call ser_request ser_query st rid req), l\<lparr>ids := (ids l)(ls_next st \<mapsto> rid)\<rparr>)"
| message: "actor st = Running \<Longrightarrow> mailbox st = m # ms \<Longrightarrow>
    ls_step B C de_answer de_error de_response ser_request (st, l) (fst (actor_query C ser_message rnd sent_ok (st\<lparr>mailbox := ms\<rparr>) m), l)"
| ping: "actor st = Running \<Longrightarrow> ls_step B C de_answer de_error de_response ser_request (st, l) (fst (actor_ping C rnd rnd64 sent_ok st), l)"
| received: "actor st = Running \<Longrightarrow>
    ls_step B C de_answer de_error de_response ser_request (st, l) (actor_received B de_answer st r, l\<lparr>arrived := arrived l \<union> answers_in B de_answer r\<rparr>)"
| cancel: "actor st = Running \<Longrightarrow> \<not> handle_alive st \<Longrightarrow> (\<And>n c. ls_futures st n \<noteq> Some (LsRx c)) \<Longrightarrow>
    ls_step B C de_answer de_error de_response ser_request (st, l) (actor_end Stopped st, l)"
| poll: "ls_poll B de_response de_error st n = Some (p, st') \<Longrightarrow> ls_step B C de_answer de_error de_response ser_request (st, l) (st', l)"
| drop: "ls_step B C de_answer de_error de_response ser_request (st, l) (ls_drop st n, l)"
| drop_handle: "ls_step B C de_answer de_error de_response ser_request (st, l) (st\<lparr>handle_alive := False\<rparr>, l)"

text \<open>Every sender is of the future of its query, a waiting future has its sender somewhere in a running
  actor, and an answer in a future is an answer that arrived to its query.\<close>

definition ls_inv :: "'l LiteServerClient \<Rightarrow> run_log \<Rightarrow> bool" where
  "ls_inv st l \<longleftrightarrow>
     (\<forall>n. ls_next st \<le> n \<longrightarrow> ls_futures st n = None) \<and>
     (\<forall>m \<in> set (mailbox st). ids l (msg_oneshot m) = Some (query_id (msg_query m)) \<and> msg_oneshot m < ls_next st) \<and>
     (\<forall>rid n. ls_responses st rid = Some n \<longrightarrow> ids l n = Some rid \<and> n < ls_next st) \<and>
     (\<forall>n. ls_futures st n = Some (LsRx RxWaiting) \<longrightarrow>
        actor st = Running \<and> (n \<in> msg_oneshot ` set (mailbox st) \<or> (\<exists>rid. ls_responses st rid = Some n))) \<and>
     (\<forall>n b. ls_futures st n = Some (LsRx (RxAnswer b)) \<longrightarrow>
        (\<exists>rid. ids l n = Some rid \<and> \<lparr>answer_query_id = rid, answer = b\<rparr> \<in> arrived l))"

lemma ls_invD:
  assumes "ls_inv st l"
  shows "ls_next st \<le> n \<Longrightarrow> ls_futures st n = None"
    and "m \<in> set (mailbox st) \<Longrightarrow> ids l (msg_oneshot m) = Some (query_id (msg_query m)) \<and> msg_oneshot m < ls_next st"
    and "ls_responses st rid = Some n \<Longrightarrow> ids l n = Some rid \<and> n < ls_next st"
    and "ls_futures st n = Some (LsRx RxWaiting) \<Longrightarrow>
        actor st = Running \<and> (n \<in> msg_oneshot ` set (mailbox st) \<or> (\<exists>rid. ls_responses st rid = Some n))"
    and "ls_futures st n = Some (LsRx (RxAnswer b)) \<Longrightarrow>
        \<exists>rid. ids l n = Some rid \<and> \<lparr>answer_query_id = rid, answer = b\<rparr> \<in> arrived l"
  using assms unfolding ls_inv_def by blast+

lemma ls_invI:
  assumes "\<And>n. ls_next st \<le> n \<Longrightarrow> ls_futures st n = None"
    and "\<And>m. m \<in> set (mailbox st) \<Longrightarrow> ids l (msg_oneshot m) = Some (query_id (msg_query m)) \<and> msg_oneshot m < ls_next st"
    and "\<And>rid n. ls_responses st rid = Some n \<Longrightarrow> ids l n = Some rid \<and> n < ls_next st"
    and "\<And>n. ls_futures st n = Some (LsRx RxWaiting) \<Longrightarrow>
        actor st = Running \<and> (n \<in> msg_oneshot ` set (mailbox st) \<or> (\<exists>rid. ls_responses st rid = Some n))"
    and "\<And>n b. ls_futures st n = Some (LsRx (RxAnswer b)) \<Longrightarrow>
        \<exists>rid. ids l n = Some rid \<and> \<lparr>answer_query_id = rid, answer = b\<rparr> \<in> arrived l"
  shows "ls_inv st l"
  using assms unfolding ls_inv_def by blast

lemma ls_inv_connect: "ls_inv ls_connect \<lparr>ids = Map.empty, arrived = {}\<rparr>"
  by (simp add: ls_inv_def ls_connect_def)

lemma actor_end_inv:
  assumes "ls_inv st l"
  shows "ls_inv (actor_end how st) l" and "ls_futures (actor_end how st) n \<noteq> Some (LsRx RxWaiting)"
proof -
  note D = ls_invD [OF assms]
  show w: "ls_futures (actor_end how st) n \<noteq> Some (LsRx RxWaiting)" for n
    using D(4) [of n] by (auto simp: actor_end_def close_senders_def ran_def)
  show "ls_inv (actor_end how st) l"
    by (rule ls_invI) (use w D(1,5) in \<open>auto simp: actor_end_def close_senders_def split: if_splits\<close>)
qed

lemma ls_call_inv:
  assumes "ls_inv st l"
  shows "ls_inv (snd (ls_call ser_request ser_query st rid req)) (l\<lparr>ids := (ids l)(ls_next st \<mapsto> rid)\<rparr>)"
proof -
  note D = ls_invD [OF assms]
  show ?thesis
  proof (rule ls_invI, goal_cases)
    case (4 n)
    then show ?case using D(4) [of n] by (auto simp: ls_call_def ls_add_future_def Let_def split: if_splits)
  next
    case (5 n b)
    then show ?case using D(1) [of "ls_next st"] D(5) [of n b] by (auto simp: ls_call_def ls_add_future_def Let_def split: if_splits)
  qed (use D(1-3) in \<open>fastforce simp: ls_call_def ls_add_future_def Let_def split: if_splits\<close>)+
qed

lemma actor_received_cases:
  obtains (same) "actor_received B de_answer st r = st"
    | (ended) how where "actor_received B de_answer st r = actor_end how st"
    | (answered) p a n where "r = Ok p" "from_bytes_boxed B de_answer (data p) = Some (Ok a)"
        "ls_responses st (answer_query_id a) = Some n"
        "actor_received B de_answer st r =
          (let st = st\<lparr>ls_responses := (ls_responses st)(answer_query_id a := None)\<rparr>
           in if ls_futures st n = Some (LsRx RxWaiting)
              then st\<lparr>ls_futures := (ls_futures st)(n \<mapsto> LsRx (RxAnswer (answer a)))\<rparr> else st)"
proof (cases "\<exists>p a n. r = Ok p \<and> \<not> is_pong_packet p \<and> from_bytes_boxed B de_answer (data p) = Some (Ok a) \<and>
    ls_responses st (answer_query_id a) = Some n")
  case True
  then obtain p a n where "r = Ok p" "\<not> is_pong_packet p" "from_bytes_boxed B de_answer (data p) = Some (Ok a)"
    "ls_responses st (answer_query_id a) = Some n" by blast
  then show thesis using answered [of p a n] by (simp add: actor_received_def)
next
  case False
  then have "actor_received B de_answer st r = st \<or> (\<exists>how. actor_received B de_answer st r = actor_end how st)"
    by (auto simp: actor_received_def split: res.splits option.splits)
  then show thesis using same ended by blast
qed

lemma actor_received_inv:
  assumes "ls_inv st l" and run: "actor st = Running"
  shows "ls_inv (actor_received B de_answer st r) (l\<lparr>arrived := arrived l \<union> answers_in B de_answer r\<rparr>)"
proof -
  note D = ls_invD [OF assms(1)]
  let ?l = "l\<lparr>arrived := arrived l \<union> answers_in B de_answer r\<rparr>"
  have more: "ls_inv st' l \<Longrightarrow> ls_inv st' ?l" for st' :: "'a LiteServerClient"
    unfolding ls_inv_def by fastforce
  show ?thesis
  proof (cases rule: actor_received_cases [of B de_answer st r])
    case same
    with more assms(1) show ?thesis by simp
  next
    case (ended how)
    with more actor_end_inv(1) [OF assms(1)] show ?thesis by simp
  next
    case (answered p a n)
    have other: "rid = answer_query_id a" if "ls_responses st rid = Some n" for rid
      using D(3) [OF that] D(3) [OF answered(3)] by simp
    have "\<lparr>answer_query_id = answer_query_id a, answer = answer a\<rparr> \<in> answers_in B de_answer r"
      using answered(1,2) by (simp add: answers_in_def)
    moreover have "n' \<in> msg_oneshot ` set (mailbox st) \<or> (\<exists>rid. rid \<noteq> answer_query_id a \<and> ls_responses st rid = Some n')"
      if "ls_futures st n' = Some (LsRx RxWaiting)" "n' \<noteq> n" for n'
      using D(4) [OF that(1)] that(2) answered(3) by (metis option.inject)
    ultimately show ?thesis
      unfolding answered(4) Let_def
      using D(1) D(3) [OF answered(3)] run
      by (intro ls_invI) (auto dest: D(2,3,5) split: if_splits)
  qed
qed

lemma actor_query_inv:
  assumes "ls_inv st l" and run: "actor st = Running" and m: "mailbox st = m # ms"
  shows "ls_inv (fst (actor_query C ser_message rnd sent_ok (st\<lparr>mailbox := ms\<rparr>) m)) l"
proof -
  note D = ls_invD [OF assms(1)]
  let ?id = "query_id (msg_query m)" and ?n = "msg_oneshot m"
  let ?st = "(case ls_responses st ?id of Some n \<Rightarrow> close_senders (st\<lparr>mailbox := ms\<rparr>) {n} | None \<Rightarrow> st\<lparr>mailbox := ms\<rparr>)
    \<lparr>ls_responses := (ls_responses st)(?id \<mapsto> ?n)\<rparr>"
  have "ls_inv ?st l"
  proof (rule ls_invI, goal_cases)
    case (4 n)
    then have w: "ls_futures st n = Some (LsRx RxWaiting)" and "ls_responses st ?id \<noteq> Some n"
      by (auto simp: close_senders_def split: option.splits if_splits)
    moreover have "actor ?st = Running" using run by (simp add: close_senders_def split: option.split)
    moreover have "mailbox ?st = ms" by (simp add: close_senders_def split: option.split)
    moreover have "ls_responses ?st = (ls_responses st)(?id \<mapsto> ?n)" by simp
    moreover from D(4) [OF w] m consider "n = ?n" | "n \<in> msg_oneshot ` set ms" | rid where "ls_responses st rid = Some n"
      by auto
    then have "n \<in> msg_oneshot ` set ms \<or> (\<exists>rid. ((ls_responses st)(?id \<mapsto> ?n)) rid = Some n)"
    proof cases
      case (3 rid)
      with \<open>ls_responses st ?id \<noteq> Some n\<close> show ?thesis by (intro disjI2 exI [of _ rid]) auto
    qed auto
    ultimately show ?case by simp
  qed (use D(1,5) D(2) [of m] D(2,3) m in \<open>auto simp: close_senders_def split: option.splits if_splits\<close>)
  then show ?thesis
    using actor_end_inv(1) [of ?st l Panicked]
    by (cases "ls_responses st ?id"; cases sent_ok) (simp_all add: actor_query_def Let_def close_senders_def)
qed

lemma ls_poll_inv:
  assumes "ls_inv st l" and "ls_poll B de_response de_error st n = Some (p, st')"
  shows "ls_inv st' l"
proof -
  note D = ls_invD [OF assms(1)]
  have "st' = st \<or> (\<exists>f f'. ls_futures st n = Some f' \<and> f \<noteq> LsRx RxWaiting \<and> (\<forall>b. f \<noteq> LsRx (RxAnswer b)) \<and>
      st' = st\<lparr>ls_futures := (ls_futures st)(n \<mapsto> f)\<rparr>)"
    using assms(2)
    by (auto simp: ls_poll_def split: option.splits LsResponseState.splits oneshot_receiver.splits)
  then show ?thesis
  proof (elim disjE exE conjE)
    fix f f'
    assume f: "ls_futures st n = Some f'" "f \<noteq> LsRx RxWaiting" "\<forall>b. f \<noteq> LsRx (RxAnswer b)"
      and st': "st' = st\<lparr>ls_futures := (ls_futures st)(n \<mapsto> f)\<rparr>"
    then have "n < ls_next st" using D(1) [of n] by (cases "n < ls_next st") auto
    with f D show ?thesis unfolding st' by (intro ls_invI) (auto split: if_splits)
  qed (use assms(1) in simp)
qed

lemma ls_step_inv:
  assumes "ls_step B C de_answer de_error de_response ser_request (st, l) (st', l')" and "ls_inv st l"
  shows "ls_inv st' l'"
  using assms(1)
proof (cases rule: ls_step.cases)
  case (drop n)
  with assms(2) show ?thesis by (auto simp: ls_drop_def ls_inv_def)
next
  case drop_handle
  with assms(2) show ?thesis by (auto simp: ls_inv_def)
next
  case (ping rnd rnd64 sent_ok)
  with assms(2) actor_end_inv(1) show ?thesis by (auto simp: actor_ping_def)
qed (use assms(2) in \<open>auto intro: ls_call_inv actor_query_inv actor_received_inv actor_end_inv(1) ls_poll_inv\<close>)

lemma ls_run_inv:
  assumes "(ls_step B C de_answer de_error de_response ser_request)\<^sup>*\<^sup>* (ls_connect, \<lparr>ids = Map.empty, arrived = {}\<rparr>) s"
  shows "ls_inv (fst s) (snd s)"
  using assms
proof (induction rule: rtranclp_induct)
  case base
  then show ?case by (simp add: ls_inv_connect)
next
  case (step y z)
  then show ?case using ls_step_inv by (metis prod.collapse)
qed

text \<open>The sender of a query is in one place: one message, or the table.\<close>

definition senders_once :: "'l LiteServerClient \<Rightarrow> bool" where
  "senders_once st \<longleftrightarrow> distinct (map msg_oneshot (mailbox st)) \<and>
     (\<forall>m \<in> set (mailbox st). \<forall>rid. ls_responses st rid \<noteq> Some (msg_oneshot m))"

lemma actor_end_once: "senders_once (actor_end how st)"
  by (simp add: senders_once_def actor_end_def)

lemma ls_call_once:
  assumes "ls_inv st l" and "senders_once st"
  shows "senders_once (snd (ls_call ser_request ser_query st rid req))"
  using assms(2) ls_invD(2,3) [OF assms(1)]
  by (fastforce simp: senders_once_def ls_call_def ls_add_future_def Let_def)

lemma actor_query_once:
  assumes "senders_once st" and "mailbox st = m # ms"
  shows "senders_once (fst (actor_query C ser_message rnd sent_ok (st\<lparr>mailbox := ms\<rparr>) m))"
  using assms
  by (auto simp: senders_once_def actor_query_def Let_def close_senders_def actor_end_once [unfolded senders_once_def]
      split: option.split)

lemma actor_received_once:
  assumes "senders_once st"
  shows "senders_once (actor_received B de_answer st r)"
proof (cases rule: actor_received_cases [of B de_answer st r])
  case (answered p a n)
  with assms show ?thesis by (auto simp: senders_once_def Let_def)
qed (use assms actor_end_once in auto)

lemma ls_step_once:
  assumes "ls_step B C de_answer de_error de_response ser_request (st, l) (st', l')" and "ls_inv st l" and "senders_once st"
  shows "senders_once st'"
  using assms(1)
proof (cases rule: ls_step.cases)
  case (poll n p)
  with assms(3) show ?thesis
    by (auto simp: ls_poll_def senders_once_def split: option.splits LsResponseState.splits oneshot_receiver.splits)
qed (use assms(2,3) in \<open>auto simp: actor_ping_def ls_drop_def senders_once_def [of "_\<lparr>ls_futures := _\<rparr>"]
    senders_once_def [of "_\<lparr>handle_alive := _\<rparr>"] senders_once_def [of st]
    intro: ls_call_once actor_query_once actor_received_once actor_end_once\<close>)

lemma ls_run_once:
  assumes "(ls_step B C de_answer de_error de_response ser_request)\<^sup>*\<^sup>* (ls_connect, \<lparr>ids = Map.empty, arrived = {}\<rparr>) s"
  shows "senders_once (fst s)"
  using assms
proof (induction rule: rtranclp_induct)
  case base
  then show ?case by (simp add: senders_once_def ls_connect_def)
next
  case (step y z)
  then show ?case using ls_step_once [of B C de_answer de_error de_response ser_request "fst y" "snd y" "fst z" "snd z"]
      ls_run_inv [OF step(1)] by simp
qed

section \<open>Properties\<close>

abbreviation ls_start :: "'l LiteServerClient \<times> run_log" where
  "ls_start \<equiv> (ls_connect, \<lparr>ids = Map.empty, arrived = {}\<rparr>)"

text \<open>Concrete serializers: an identifier or a number is one byte after a constructor number.\<close>

definition de_byte :: "(DeserializerBoxedError, u8) parser" where
  "de_byte de = (case input_buf de of [] \<Rightarrow> Some (Err (DeserializeError FromUtf8Error), de)
     | b # rest \<Rightarrow> Some (Ok b, \<lparr>input_buf = rest\<rparr>))"

definition de_demo_answer :: "u32 \<Rightarrow> (DeserializerBoxedError, AdnlMessageAnswer) parser" where
  "de_demo_answer c de =
     (if c = 7 then
        (case input_buf de of
           i # rest \<Rightarrow> Some (Ok \<lparr>answer_query_id = [i], answer = rest\<rparr>, \<lparr>input_buf = []\<rparr>)
         | [] \<Rightarrow> Some (Err (DeserializeError FromUtf8Error), de))
      else Some (Err (UnexpectedConstructorNumber c), de))"

definition de_demo :: "u32 \<Rightarrow> u32 \<Rightarrow> (DeserializerBoxedError, u8) parser" where
  "de_demo expected c de = (if c = expected then de_byte de else Some (Err (UnexpectedConstructorNumber c), de))"

definition ser_demo :: "Serializer \<Rightarrow> bytes \<Rightarrow> Serializer" where
  "ser_demo se bs = se\<lparr>output_buf := output_buf se @ bs\<rparr>"

definition called :: "u8 LiteServerClient" where
  "called = snd (ls_call ser_demo ser_demo ls_connect [9] [1])"

definition called_log :: run_log where
  "called_log = \<lparr>ids = [0 \<mapsto> [9]], arrived = {}\<rparr>"

lemma called_run:
  "(ls_step std_buf demo_crypto de_demo_answer (de_demo 2) (de_demo 1) ser_demo)\<^sup>*\<^sup>* ls_start (called, called_log)"
proof (rule r_into_rtranclp)
  show "ls_step std_buf demo_crypto de_demo_answer (de_demo 2) (de_demo 1) ser_demo ls_start (called, called_log)"
    using ls_step.call [of ls_connect std_buf demo_crypto de_demo_answer "de_demo 2" "de_demo 1" ser_demo
        "\<lparr>ids = Map.empty, arrived = {}\<rparr>" ser_demo "[9]" "[1]"]
    by (simp add: called_def called_log_def ls_connect_def)
qed

definition boxed_bytes :: "u32 \<Rightarrow> bytes \<Rightarrow> bytes" where
  "boxed_bytes c rest = be_bytes 4 (unat c) @ rest"

lemma length_boxed_bytes: "length (boxed_bytes c rest) = 4 + length rest"
  by (simp add: boxed_bytes_def)

lemma from_bytes_std:
  "from_bytes_boxed std_buf de (boxed_bytes c rest) =
     Option.bind (de c \<lparr>input_buf = rest\<rparr>) (\<lambda>(t, de). Some (case t of
        Err e \<Rightarrow> Err (FromBoxed e)
      | Ok t \<Rightarrow> if input_buf de = [] then Ok t else Err (Message ''input is not empty'')))"
  unfolding boxed_bytes_def using tl_codec.de_enc [OF std.constructor_number_codec, of c rest]
  by (simp add: from_bytes_boxed_def lift_parser_def split_beta split: Option.bind_splits)

definition demo_packet :: "bytes \<Rightarrow> Packet" where
  "demo_packet bs = \<lparr>nonce = [], checksum = [], data = bs\<rparr>"

lemmas demo_simps = from_bytes_std length_boxed_bytes demo_packet_def is_pong_packet_def de_demo_answer_def
  deserialize_boxed_result_def de_demo_def de_byte_def

lemma called_fields:
  "ls_futures called 0 = Some (LsRx RxWaiting)" "actor called = Running" "ls_responses called = Map.empty"
  "mailbox called = [\<lparr>msg_query = \<lparr>query_id = [9], query = [1]\<rparr>, msg_oneshot = 0\<rparr>]"
  by (simp_all add: called_def ls_call_def ls_connect_def ls_add_future_def to_bytes_boxed_def ser_demo_def)

text \<open>
  C20. In every run of the liteserver client, an answer that a future holds is one that arrived to the
  query of that future, and a future that waits has its sender in the mailbox or the table of a
  running actor: no future is left waiting for an actor that has ended.
\<close>

theorem answers_reach_their_queries:
  assumes "(ls_step B C de_answer de_error de_response ser_request)\<^sup>*\<^sup>* ls_start (st, l)"
    and "ls_futures st n = Some (LsRx c)"
  shows "(\<forall>b. c = RxAnswer b \<longrightarrow> (\<exists>rid. ids l n = Some rid \<and> \<lparr>answer_query_id = rid, answer = b\<rparr> \<in> arrived l)) \<and>
    (c = RxWaiting \<longrightarrow> actor st = Running \<and> (n \<in> msg_oneshot ` set (mailbox st) \<or> (\<exists>rid. ls_responses st rid = Some n)))"
  using ls_invD(4,5) [OF ls_run_inv [OF assms(1), simplified]] assms(2) by blast

theorem answers_reach_their_queries_witness: "actor called = Running \<and> 0 \<in> msg_oneshot ` set (mailbox called)"
  using answers_reach_their_queries [OF called_run called_fields(1)] by (simp add: called_fields(3))

text \<open>
  C21. In every run, a query at the head of the mailbox whose future still waits is answered: when the
  actor takes it and sending succeeds, and the next packet is an answer to its identifier, polling the
  future gives the value in the answer, or the error of the liteserver, or a deserialization error; it
  panics when the reader of the answer does, as it does on a truncated one. This holds even when
  another query waits under the same identifier; that one loses its sender, and polling its future
  reports the closed channel.
\<close>

theorem query_is_answered:
  assumes "(ls_step B C de_answer de_error de_response ser_request)\<^sup>*\<^sup>* ls_start (st, l)"
    and "mailbox st = m # ms" and "ls_futures st (msg_oneshot m) = Some (LsRx RxWaiting)"
    and "\<not> is_pong_packet p" and "from_bytes_boxed B de_answer (data p) = Some (Ok a)"
    and "answer_query_id a = query_id (msg_query m)"
    and "st1 = fst (actor_query C ser_message rnd True (st\<lparr>mailbox := ms\<rparr>) m)"
  shows "map_option fst (ls_poll B de_response de_error (actor_received B de_answer st1 (Ok p)) (msg_oneshot m)) =
      (case from_bytes_boxed B (deserialize_boxed_result de_response de_error) (answer a) of
         None \<Rightarrow> None
       | Some (Err _) \<Rightarrow> Some (Ready (Err Deserialize))
       | Some (Ok (Err e)) \<Rightarrow> Some (Ready (Err (LiteServerError e)))
       | Some (Ok (Ok v)) \<Rightarrow> Some (Ready (Ok v))) \<and>
    (\<forall>n. ls_responses st (query_id (msg_query m)) = Some n \<and> ls_futures st n = Some (LsRx RxWaiting) \<longrightarrow>
      map_option fst (ls_poll B de_response de_error (actor_received B de_answer st1 (Ok p)) n) =
        Some (Ready (Err OneshotClosed)))"
proof -
  have once: "ls_responses st rid \<noteq> Some (msg_oneshot m)" for rid
    using ls_run_once [OF assms(1)] assms(2) by (simp add: senders_once_def)
  let ?st' = "actor_received B de_answer st1 (Ok p)"
  have fut: "ls_futures ?st' = (\<lambda>n. if n = msg_oneshot m then Some (LsRx (RxAnswer (answer a)))
      else if ls_responses st (query_id (msg_query m)) = Some n \<and> ls_futures st n = Some (LsRx RxWaiting)
      then Some (LsRx RxClosed) else ls_futures st n)"
    using once [of "query_id (msg_query m)"] assms(3-7)
    by (cases "ls_responses st (query_id (msg_query m))")
      (auto simp: actor_query_def actor_received_def close_senders_def Let_def fun_eq_iff)
  show ?thesis
    using once [of "query_id (msg_query m)"]
    by (auto simp: ls_poll_def fut split: option.split res.split)
qed

theorem query_is_answered_witness:
  "map_option fst (ls_poll std_buf (de_demo 1) (de_demo 2)
     (actor_received std_buf de_demo_answer
       (fst (actor_query demo_crypto (\<lambda>se m. se) [] True (called\<lparr>mailbox := []\<rparr>)
          \<lparr>msg_query = \<lparr>query_id = [9], query = [1]\<rparr>, msg_oneshot = 0\<rparr>))
       (Ok (demo_packet (boxed_bytes 7 (9 # boxed_bytes 1 [5]))))) 0) =
   Some (Ready (Ok 5))"
proof -
  let ?a = "\<lparr>answer_query_id = [9], answer = boxed_bytes 1 [5]\<rparr>" and ?p = "demo_packet (boxed_bytes 7 (9 # boxed_bytes 1 [5]))"
  have "from_bytes_boxed std_buf de_demo_answer (data ?p) = Some (Ok ?a)" "\<not> is_pong_packet ?p"
    "from_bytes_boxed std_buf (deserialize_boxed_result (de_demo 1) (de_demo 2)) (answer ?a) = Some (Ok (Ok 5))"
    by (simp_all add: demo_simps)
  then show ?thesis
    using query_is_answered [OF called_run called_fields(4), of ?p ?a _ "\<lambda>se m. se" "[]"]
    by (simp add: called_fields)
qed

text \<open>
  C33. Any packet that is neither a pong nor an answer makes the actor panic, and with it every request
  that is under way fails: no future waits any more, and each one that waited reports the closed channel.
\<close>

theorem unexpected_packet_fails_all:
  assumes "(ls_step B C de_answer de_error de_response ser_request)\<^sup>*\<^sup>* ls_start (st, l)"
    and "\<not> is_pong_packet p" and "\<And>a. from_bytes_boxed B de_answer (data p) \<noteq> Some (Ok a)"
    and "st' = actor_received B de_answer st (Ok p)"
  shows "actor st' = Panicked \<and> ls_poll_ready st' = Ready (Err ChannelClosed) \<and>
    (\<forall>n. ls_futures st n = Some (LsRx RxWaiting) \<longrightarrow>
       map_option fst (ls_poll B de_response de_error st' n) = Some (Ready (Err OneshotClosed))) \<and>
    (\<forall>n. ls_futures st' n \<noteq> Some (LsRx RxWaiting))"
proof -
  note inv = ls_run_inv [OF assms(1), simplified]
  have st': "st' = actor_end Panicked st"
    using assms(2-4) by (auto simp: actor_received_def split: option.splits res.splits)
  then have closed: "ls_futures st' n = Some (LsRx RxClosed)" if "ls_futures st n = Some (LsRx RxWaiting)" for n
    using ls_invD(4) [OF inv that] that by (auto simp: actor_end_def close_senders_def ran_def)
  show ?thesis
    using actor_end_inv(2) [OF inv] closed unfolding st'
    by (auto simp: ls_poll_ready_def ls_poll_def) (simp_all add: actor_end_def)
qed

theorem unexpected_packet_fails_all_witness:
  "actor (actor_received std_buf de_demo_answer called (Ok (demo_packet (boxed_bytes 8 [])))) = Panicked"
proof -
  have "from_bytes_boxed std_buf de_demo_answer (data (demo_packet (boxed_bytes 8 []))) \<noteq> Some (Ok a)"
    "\<not> is_pong_packet (demo_packet (boxed_bytes 8 []))" for a
    by (simp_all add: demo_simps)
  with unexpected_packet_fails_all [OF called_run] show ?thesis by blast
qed

section \<open>Connecting again\<close>

text \<open>
  \<open>MakeClient\<close>, \<^verbatim>\<open>make.rs\<close>: the factory of connections. Every call arms a timer with the next delay of
  the retry strategy, and the factory is ready again when the timer has fired. The delays of
  \<^verbatim>\<open>tokio_retry\<close> are the list \<open>retry_strategy\<close>, time is in milliseconds.
\<close>

record MakeClient =
  retry_strategy :: "nat list"
  sleep_until :: "nat option"

definition make_client_new :: "nat list \<Rightarrow> MakeClient" where
  "make_client_new delays = \<lparr>retry_strategy = delays, sleep_until = None\<rparr>"

definition make_client_poll_ready :: "MakeClient \<Rightarrow> nat \<Rightarrow> ('e, unit) res poll" where
  "make_client_poll_ready m now =
     (case sleep_until m of
        None \<Rightarrow> Ready (Ok ())
      | Some t \<Rightarrow> if t \<le> now then Ready (Ok ()) else Pending)"

definition make_client_call :: "MakeClient \<Rightarrow> nat \<Rightarrow> 'conn \<Rightarrow> 'conn \<times> MakeClient" where
  "make_client_call m now connect =
     (connect, case retry_strategy m of
        [] \<Rightarrow> m
      | d # ds \<Rightarrow> m\<lparr>retry_strategy := ds, sleep_until := Some (now + d)\<rparr>)"

text \<open>Between two attempts at least the delay of the strategy passes.\<close>

lemma make_client_waits:
  assumes "retry_strategy m = d # ds"
  shows "make_client_poll_ready (snd (make_client_call m now connect)) t = Ready (Ok ()) \<longleftrightarrow> now + d \<le> t"
  using assms by (simp add: make_client_call_def make_client_poll_ready_def)

end
