(* ===== verification/Tlb.thy ===== *)
theory Tlb
  imports Prelude
begin

text \<open>
  The TL-B decoders of \<^verbatim>\<open>ton-liteserver-client/src/tlb\<close>: block headers inside Merkle proofs and
  the descriptions of shards. The crate \<^verbatim>\<open>toner\<close>, which reads bits, bytes and references from a
  cell, is a parameter. A decoder returns an error of the crate, or panics (\<open>None\<close>) where the code
  meets a tag it takes for impossible. The schemas in the comments of the sources are written out as
  encoders, against which the decoders are proved.
\<close>

section \<open>The \<^verbatim>\<open>toner\<close> crate as a parameter\<close>

record CurrencyCollection =
  grams :: nat
  other_currencies :: "(u32 \<times> nat) list"

type_synonym ('p, 'e, 'a) reader = "'p \<Rightarrow> ('e, 'a \<times> 'p) res may_panic"

text \<open>
  \<open>unpack_uint n\<close> reads an unsigned integer of \<open>n\<close> bits, \<open>unpack_bytes n\<close> an array of \<open>n\<close> bytes,
  \<open>take_ref\<close> returns a parser of the next reference, \<open>ensure_empty\<close> is the check of \<open>ParseFully\<close>,
  \<open>parse_cells\<close> reads an array of cells.
\<close>

record ('p, 'e) toner =
  unpack_uint :: "nat \<Rightarrow> 'p \<Rightarrow> ('e, nat \<times> 'p) res"
  unpack_bytes :: "nat \<Rightarrow> 'p \<Rightarrow> ('e, bytes \<times> 'p) res"
  take_ref :: "'p \<Rightarrow> ('e, 'p \<times> 'p) res"
  ensure_empty :: "'p \<Rightarrow> ('e, unit) res"
  parse_cells :: "nat \<Rightarrow> 'p \<Rightarrow> ('e, 'p) res"
  parse_currency :: "'p \<Rightarrow> ('e, CurrencyCollection \<times> 'p) res"

definition rpure :: "'a \<Rightarrow> ('p, 'e, 'a) reader" where
  "rpure a p = Some (Ok (a, p))"

definition rbind :: "('p, 'e, 'a) reader \<Rightarrow> ('a \<Rightarrow> ('p, 'e, 'b) reader) \<Rightarrow> ('p, 'e, 'b) reader" where
  "rbind m f p =
     (case m p of
        None \<Rightarrow> None
      | Some (Err e) \<Rightarrow> Some (Err e)
      | Some (Ok (a, p)) \<Rightarrow> f a p)"

definition rpanic :: "('p, 'e, 'a) reader" where
  "rpanic p = None"

definition uint_of :: "('p, 'e) toner \<Rightarrow> nat \<Rightarrow> ('p, 'e, nat) reader" where
  "uint_of T n p = Some (unpack_uint T n p)"

definition unpack_u8 :: "('p, 'e) toner \<Rightarrow> nat \<Rightarrow> ('p, 'e, u8) reader" where
  "unpack_u8 T n = rbind (uint_of T n) (\<lambda>v. rpure (of_nat v))"

definition unpack_u16 :: "('p, 'e) toner \<Rightarrow> ('p, 'e, u16) reader" where
  "unpack_u16 T = rbind (uint_of T 16) (\<lambda>v. rpure (of_nat v))"

definition unpack_u32 :: "('p, 'e) toner \<Rightarrow> nat \<Rightarrow> ('p, 'e, u32) reader" where
  "unpack_u32 T n = rbind (uint_of T n) (\<lambda>v. rpure (of_nat v))"

definition unpack_u64 :: "('p, 'e) toner \<Rightarrow> ('p, 'e, u64) reader" where
  "unpack_u64 T = rbind (uint_of T 64) (\<lambda>v. rpure (of_nat v))"

definition unpack_i32 :: "('p, 'e) toner \<Rightarrow> ('p, 'e, i32) reader" where
  "unpack_i32 T = rbind (uint_of T 32) (\<lambda>v. rpure (wrap_i32 (int v)))"

definition unpack_bool :: "('p, 'e) toner \<Rightarrow> ('p, 'e, bool) reader" where
  "unpack_bool T = rbind (uint_of T 1) (\<lambda>v. rpure (v = 1))"

definition unpack_hash :: "('p, 'e) toner \<Rightarrow> ('p, 'e, bytes) reader" where
  "unpack_hash T p = Some (unpack_bytes T 32 p)"

definition currency :: "('p, 'e) toner \<Rightarrow> ('p, 'e, CurrencyCollection) reader" where
  "currency T p = Some (parse_currency T p)"

text \<open>\<open>Ref<Same>\<close> and \<open>Ref<Data<Same>>\<close> read the next reference, \<open>Ref<ParseFully>\<close> reads all of it.\<close>

definition in_ref :: "('p, 'e) toner \<Rightarrow> ('p, 'e, 'a) reader \<Rightarrow> ('p, 'e, 'a) reader" where
  "in_ref T m p =
     (case take_ref T p of
        Err e \<Rightarrow> Some (Err e)
      | Ok (child, p) \<Rightarrow> rbind m (\<lambda>a _. Some (Ok (a, p))) child)"

definition fully :: "('p, 'e) toner \<Rightarrow> ('p, 'e, 'a) reader \<Rightarrow> ('p, 'e, 'a) reader" where
  "fully T m = rbind m (\<lambda>a p. case ensure_empty T p of Err e \<Rightarrow> Some (Err e) | Ok _ \<Rightarrow> Some (Ok (a, p)))"

section \<open>Data and decoders\<close>

record ExtBlkRef =
  ext_end_lt :: u64
  ext_seq_no :: u32
  ext_root_hash :: bytes
  ext_file_hash :: bytes

definition parse_ext_blk_ref :: "('p, 'e) toner \<Rightarrow> ('p, 'e, ExtBlkRef) reader" where
  "parse_ext_blk_ref T =
     rbind (unpack_u64 T) (\<lambda>end_lt.
     rbind (unpack_u32 T 32) (\<lambda>seq_no.
     rbind (unpack_hash T) (\<lambda>root_hash.
     rbind (unpack_hash T) (\<lambda>file_hash.
       rpure \<lparr>ext_end_lt = end_lt, ext_seq_no = seq_no, ext_root_hash = root_hash, ext_file_hash = file_hash\<rparr>))))"

record BlkMasterInfo =
  master :: ExtBlkRef

definition parse_blk_master_info :: "('p, 'e) toner \<Rightarrow> ('p, 'e, BlkMasterInfo) reader" where
  "parse_blk_master_info T = rbind (parse_ext_blk_ref T) (\<lambda>m. rpure \<lparr>master = m\<rparr>)"

datatype BlkPrevInfo = Ref ExtBlkRef | RefPair ExtBlkRef ExtBlkRef

definition parse_blk_prev_info :: "('p, 'e) toner \<Rightarrow> bool \<Rightarrow> ('p, 'e, BlkPrevInfo) reader" where
  "parse_blk_prev_info T args =
     (if args then
        rbind (in_ref T (parse_ext_blk_ref T)) (\<lambda>prev1.
        rbind (in_ref T (parse_ext_blk_ref T)) (\<lambda>prev2. rpure (RefPair prev1 prev2)))
      else rbind (parse_ext_blk_ref T) (\<lambda>prev. rpure (Ref prev)))"

record ShardIdent =
  shard_pfx_bits :: u8
  workchain_id :: i32
  shard_prefix :: u64

definition parse_shard_ident :: "('p, 'e) toner \<Rightarrow> ('p, 'e, ShardIdent) reader" where
  "parse_shard_ident T =
     rbind (unpack_u8 T 2) (\<lambda>tag.
     if tag \<noteq> 0 then rpanic
     else
       rbind (unpack_u8 T 6) (\<lambda>pfx_bits.
       rbind (unpack_i32 T) (\<lambda>wc.
       rbind (unpack_u64 T) (\<lambda>pfx.
         rpure \<lparr>shard_pfx_bits = pfx_bits, workchain_id = wc, shard_prefix = pfx\<rparr>))))"

record BlockIdExt =
  bid_shard_id :: ShardIdent
  bid_seq_no :: u32
  bid_root_hash :: bytes
  bid_file_hash :: bytes

definition parse_block_id_ext :: "('p, 'e) toner \<Rightarrow> ('p, 'e, BlockIdExt) reader" where
  "parse_block_id_ext T =
     rbind (parse_shard_ident T) (\<lambda>shard_id.
     rbind (unpack_u32 T 32) (\<lambda>seq_no.
     rbind (unpack_hash T) (\<lambda>root_hash.
     rbind (unpack_hash T) (\<lambda>file_hash.
       rpure \<lparr>bid_shard_id = shard_id, bid_seq_no = seq_no, bid_root_hash = root_hash, bid_file_hash = file_hash\<rparr>))))"

record GlobalVersion =
  gv_version :: u32
  gv_capabilities :: u64

definition parse_global_version :: "('p, 'e) toner \<Rightarrow> ('p, 'e, GlobalVersion) reader" where
  "parse_global_version T =
     rbind (unpack_u8 T 8) (\<lambda>tag.
     if tag \<noteq> 0xC4 then rpanic
     else
       rbind (unpack_u32 T 32) (\<lambda>version.
       rbind (unpack_u64 T) (\<lambda>capabilities.
         rpure \<lparr>gv_version = version, gv_capabilities = capabilities\<rparr>)))"

record BlockInfo =
  info_version :: u32
  info_flags :: u16
  info_seq_no :: u32
  info_vert_seq_no :: u32
  info_shard :: ShardIdent
  info_gen_utime :: u32
  info_start_lt :: u64
  info_end_lt :: u64
  info_gen_validator_list_hash_short :: u32
  info_gen_catchain_seqno :: u32
  info_min_ref_mc_seqno :: u32
  info_prev_key_block_seqno :: u32
  info_gen_software :: "GlobalVersion option"
  info_master_ref :: "BlkMasterInfo option"
  info_prev_ref :: BlkPrevInfo
  info_prev_vert_ref :: "BlkPrevInfo option"

definition optional :: "bool \<Rightarrow> ('p, 'e, 'a) reader \<Rightarrow> ('p, 'e, 'a option) reader" where
  "optional present m = (if present then rbind m (\<lambda>a. rpure (Some a)) else rpure None)"

definition parse_block_info :: "('p, 'e) toner \<Rightarrow> ('p, 'e, BlockInfo) reader" where
  "parse_block_info T =
     rbind (unpack_u32 T 32) (\<lambda>tag.
     if tag \<noteq> 0x9bc7a987 then rpanic
     else
       rbind (unpack_u32 T 32) (\<lambda>version.
       rbind (unpack_u16 T) (\<lambda>fl.
       rbind (unpack_u32 T 32) (\<lambda>seq_no.
       rbind (unpack_u32 T 32) (\<lambda>vert_seq_no.
       rbind (parse_shard_ident T) (\<lambda>shard.
       rbind (unpack_u32 T 32) (\<lambda>gen_utime.
       rbind (unpack_u64 T) (\<lambda>start_lt.
       rbind (unpack_u64 T) (\<lambda>end_lt.
       rbind (unpack_u32 T 32) (\<lambda>gen_validator_list_hash_short.
       rbind (unpack_u32 T 32) (\<lambda>gen_catchain_seqno.
       rbind (unpack_u32 T 32) (\<lambda>min_ref_mc_seqno.
       rbind (unpack_u32 T 32) (\<lambda>prev_key_block_seqno.
       rbind (optional (fl AND push_bit 0 1 \<noteq> 0) (parse_global_version T)) (\<lambda>gen_software.
       rbind (optional (fl AND push_bit 15 1 \<noteq> 0) (in_ref T (parse_blk_master_info T))) (\<lambda>master_ref.
       rbind (in_ref T (parse_blk_prev_info T (fl AND push_bit 14 1 \<noteq> 0))) (\<lambda>prev_ref.
       rbind (optional (fl AND push_bit 8 1 \<noteq> 0) (in_ref T (parse_blk_prev_info T False))) (\<lambda>prev_vert_ref.
         rpure \<lparr>info_version = version, info_flags = fl, info_seq_no = seq_no, info_vert_seq_no = vert_seq_no,
           info_shard = shard, info_gen_utime = gen_utime, info_start_lt = start_lt, info_end_lt = end_lt,
           info_gen_validator_list_hash_short = gen_validator_list_hash_short,
           info_gen_catchain_seqno = gen_catchain_seqno, info_min_ref_mc_seqno = min_ref_mc_seqno,
           info_prev_key_block_seqno = prev_key_block_seqno, info_gen_software = gen_software,
           info_master_ref = master_ref, info_prev_ref = prev_ref, info_prev_vert_ref = prev_vert_ref\<rparr>)))))))))))))))))"

record BlockHeader =
  global_id :: i32
  info :: BlockInfo

definition parse_block_header :: "('p, 'e) toner \<Rightarrow> ('p, 'e, BlockHeader) reader" where
  "parse_block_header T =
     rbind (unpack_u32 T 32) (\<lambda>tag.
     if tag \<noteq> 0x11ef55aa then rpanic
     else
       rbind (unpack_i32 T) (\<lambda>gid.
       rbind (in_ref T (fully T (parse_block_info T))) (\<lambda>inf p.
         case parse_cells T 3 p of
           Err e \<Rightarrow> Some (Err e)
         | Ok p \<Rightarrow> rpure \<lparr>global_id = gid, info = inf\<rparr> p)))"

record MerkleProof =
  virtual_hash :: bytes
  depth :: u16
  virtual_root :: BlockHeader

definition parse_merkle_proof :: "('p, 'e) toner \<Rightarrow> ('p, 'e, MerkleProof) reader" where
  "parse_merkle_proof T =
     rbind (unpack_u8 T 8) (\<lambda>tag.
     if tag \<noteq> 0x03 then rpanic
     else
       rbind (unpack_hash T) (\<lambda>hash.
       rbind (unpack_u16 T) (\<lambda>dep.
       rbind (in_ref T (parse_block_header T)) (\<lambda>root.
         rpure \<lparr>virtual_hash = hash, depth = dep, virtual_root = root\<rparr>))))"

datatype FutureSplitMerge = FsmNone | FsmSplit u32 u32 | FsmMerge u32 u32

definition parse_future_split_merge :: "('p, 'e) toner \<Rightarrow> ('p, 'e, FutureSplitMerge) reader" where
  "parse_future_split_merge T =
     rbind (unpack_bool T) (\<lambda>b.
     if \<not> b then rpure FsmNone
     else rbind (unpack_bool T) (\<lambda>b.
       if \<not> b then
         rbind (unpack_u32 T 32) (\<lambda>split_utime. rbind (unpack_u32 T 32) (\<lambda>interval. rpure (FsmSplit split_utime interval)))
       else
         rbind (unpack_u32 T 32) (\<lambda>merge_utime. rbind (unpack_u32 T 32) (\<lambda>interval. rpure (FsmMerge merge_utime interval)))))"

record ShardDescr =
  descr_seq_no :: u32
  descr_reg_mc_seqno :: u32
  descr_start_lt :: u64
  descr_end_lt :: u64
  descr_root_hash :: bytes
  descr_file_hash :: bytes
  descr_before_split :: bool
  descr_before_merge :: bool
  descr_want_split :: bool
  descr_want_merge :: bool
  descr_nx_cc_updated :: bool
  descr_flags :: u32
  descr_next_catchain_seqno :: u32
  next_validator_shard :: u64
  descr_min_ref_mc_seqno :: u32
  descr_gen_utime :: u32
  descr_split_merge_at :: FutureSplitMerge
  descr_fees_collected :: CurrencyCollection
  descr_funds_created :: CurrencyCollection

definition two_currencies :: "('p, 'e) toner \<Rightarrow> ('p, 'e, CurrencyCollection \<times> CurrencyCollection) reader" where
  "two_currencies T = rbind (currency T) (\<lambda>a. rbind (currency T) (\<lambda>b. rpure (a, b)))"

definition parse_shard_descr :: "('p, 'e) toner \<Rightarrow> ('p, 'e, ShardDescr) reader" where
  "parse_shard_descr T =
     rbind (unpack_u8 T 4) (\<lambda>tag.
     rbind (unpack_u32 T 32) (\<lambda>seq_no.
     rbind (unpack_u32 T 32) (\<lambda>reg_mc_seqno.
     rbind (unpack_u64 T) (\<lambda>start_lt.
     rbind (unpack_u64 T) (\<lambda>end_lt.
     rbind (unpack_hash T) (\<lambda>root_hash.
     rbind (unpack_hash T) (\<lambda>file_hash.
     rbind (unpack_bool T) (\<lambda>before_split.
     rbind (unpack_bool T) (\<lambda>before_merge.
     rbind (unpack_bool T) (\<lambda>want_split.
     rbind (unpack_bool T) (\<lambda>want_merge.
     rbind (unpack_bool T) (\<lambda>nx_cc_updated.
     rbind (unpack_u32 T 3) (\<lambda>fl.
     rbind (unpack_u32 T 32) (\<lambda>next_catchain_seqno.
     rbind (unpack_u64 T) (\<lambda>nvs.
     rbind (unpack_u32 T 32) (\<lambda>min_ref_mc_seqno.
     rbind (unpack_u32 T 32) (\<lambda>gen_utime.
     rbind (parse_future_split_merge T) (\<lambda>split_merge_at.
     rbind (if tag = 0xa then in_ref T (fully T (two_currencies T))
            else if tag = 0xb then two_currencies T
            else rpanic) (\<lambda>(fees_collected, funds_created).
       rpure \<lparr>descr_seq_no = seq_no, descr_reg_mc_seqno = reg_mc_seqno, descr_start_lt = start_lt, descr_end_lt = end_lt,
         descr_root_hash = root_hash, descr_file_hash = file_hash, descr_before_split = before_split,
         descr_before_merge = before_merge, descr_want_split = want_split, descr_want_merge = want_merge,
         descr_nx_cc_updated = nx_cc_updated, descr_flags = fl, descr_next_catchain_seqno = next_catchain_seqno,
         next_validator_shard = nvs, descr_min_ref_mc_seqno = min_ref_mc_seqno, descr_gen_utime = gen_utime,
         descr_split_merge_at = split_merge_at, descr_fees_collected = fees_collected,
         descr_funds_created = funds_created\<rparr>)))))))))))))))))))"

text \<open>
  The hash map of the shards: the dictionary and the binary trees in it are read by the crate, which
  calls the decoder of a shard; the keys are bit strings, most significant bit first.
\<close>

record ('p, 'e) toner_maps =
  hashmap_e :: "nat \<Rightarrow> ('p, 'e, ShardDescr list) reader \<Rightarrow> ('p, 'e, (bool list \<times> ShardDescr list) list) reader"
  bin_tree :: "('p, 'e, ShardDescr) reader \<Rightarrow> ('p, 'e, ShardDescr list) reader"

definition load_be_u32 :: "bool list \<Rightarrow> u32" where
  "load_be_u32 bs = foldl (\<lambda>a b. 2 * a + of_bool b) 0 bs"

definition parse_shard_hashes_cell ::
    "('p, 'e) toner \<Rightarrow> ('p, 'e) toner_maps \<Rightarrow> ('p, 'e, (u32 \<times> ShardDescr list) list) reader" where
  "parse_shard_hashes_cell T H =
     rbind (hashmap_e H 32 (in_ref T (fully T (bin_tree H (parse_shard_descr T))))) (\<lambda>hashmap.
       rpure (map (\<lambda>(k, v). (load_be_u32 k, v)) hashmap))"

section \<open>Cells and the contract of the crate\<close>

datatype cell = Cell "bool list" "cell list"

definition uint_bits :: "nat \<Rightarrow> nat \<Rightarrow> bool list" where
  "uint_bits n v = rev (map (bit v) [0..<n])"

definition i32_bits :: "i32 \<Rightarrow> bool list" where
  "i32_bits v = uint_bits 32 (nat (v mod 2 ^ 32))"

definition bytes_bits :: "bytes \<Rightarrow> bool list" where
  "bytes_bits b = concat (map (\<lambda>w. uint_bits 8 (unat w)) b)"

section \<open>The schemas as encoders\<close>

text \<open>What the comments of the sources define: the bits and the references of a value.\<close>

definition ext_blk_ref_bits :: "ExtBlkRef \<Rightarrow> bool list" where
  "ext_blk_ref_bits r = uint_bits 64 (unat (ext_end_lt r)) @ uint_bits 32 (unat (ext_seq_no r)) @
     bytes_bits (ext_root_hash r) @ bytes_bits (ext_file_hash r)"

definition ext_blk_ref_ok :: "ExtBlkRef \<Rightarrow> bool" where
  "ext_blk_ref_ok r \<longleftrightarrow> length (ext_root_hash r) = 32 \<and> length (ext_file_hash r) = 32"

fun prev_info_cell :: "BlkPrevInfo \<Rightarrow> cell" where
  "prev_info_cell (Ref p) = Cell (ext_blk_ref_bits p) []"
| "prev_info_cell (RefPair p q) = Cell [] [Cell (ext_blk_ref_bits p) [], Cell (ext_blk_ref_bits q) []]"

fun prev_info_ok :: "bool \<Rightarrow> BlkPrevInfo \<Rightarrow> bool" where
  "prev_info_ok after_merge (Ref p) \<longleftrightarrow> \<not> after_merge \<and> ext_blk_ref_ok p"
| "prev_info_ok after_merge (RefPair p q) \<longleftrightarrow> after_merge \<and> ext_blk_ref_ok p \<and> ext_blk_ref_ok q"

definition shard_ident_bits :: "ShardIdent \<Rightarrow> bool list" where
  "shard_ident_bits s = uint_bits 2 0 @ uint_bits 6 (unat (shard_pfx_bits s)) @
     i32_bits (workchain_id s) @ uint_bits 64 (unat (shard_prefix s))"

definition shard_ident_ok :: "ShardIdent \<Rightarrow> bool" where
  "shard_ident_ok s \<longleftrightarrow> unat (shard_pfx_bits s) \<le> 60 \<and> in_i32 (workchain_id s)"

definition block_id_ext_bits :: "BlockIdExt \<Rightarrow> bool list" where
  "block_id_ext_bits b = shard_ident_bits (bid_shard_id b) @ uint_bits 32 (unat (bid_seq_no b)) @
     bytes_bits (bid_root_hash b) @ bytes_bits (bid_file_hash b)"

definition global_version_bits :: "GlobalVersion \<Rightarrow> bool list" where
  "global_version_bits g = uint_bits 8 0xC4 @ uint_bits 32 (unat (gv_version g)) @ uint_bits 64 (unat (gv_capabilities g))"

text \<open>
  The eight flags in front of \<open>flags\<close> and \<open>flags\<close> itself are one word: \<open>not_master\<close> is bit 15,
  \<open>after_merge\<close> bit 14, \<open>vert_seqno_incr\<close> bit 8, \<open>flags.0\<close> bit 0.
\<close>

definition block_info_cell :: "BlockInfo \<Rightarrow> cell" where
  "block_info_cell i =
     Cell (uint_bits 32 0x9bc7a987 @ uint_bits 32 (unat (info_version i)) @ uint_bits 16 (unat (info_flags i)) @
         uint_bits 32 (unat (info_seq_no i)) @ uint_bits 32 (unat (info_vert_seq_no i)) @ shard_ident_bits (info_shard i) @
         uint_bits 32 (unat (info_gen_utime i)) @ uint_bits 64 (unat (info_start_lt i)) @ uint_bits 64 (unat (info_end_lt i)) @
         uint_bits 32 (unat (info_gen_validator_list_hash_short i)) @ uint_bits 32 (unat (info_gen_catchain_seqno i)) @
         uint_bits 32 (unat (info_min_ref_mc_seqno i)) @ uint_bits 32 (unat (info_prev_key_block_seqno i)) @
         (case info_gen_software i of None \<Rightarrow> [] | Some g \<Rightarrow> global_version_bits g))
       ((case info_master_ref i of None \<Rightarrow> [] | Some m \<Rightarrow> [Cell (ext_blk_ref_bits (master m)) []]) @
        [prev_info_cell (info_prev_ref i)] @
        (case info_prev_vert_ref i of None \<Rightarrow> [] | Some p \<Rightarrow> [prev_info_cell p]))"

definition block_info_ok :: "BlockInfo \<Rightarrow> bool" where
  "block_info_ok i \<longleftrightarrow> shard_ident_ok (info_shard i) \<and>
     (bit (info_flags i) 0 \<longleftrightarrow> info_gen_software i \<noteq> None) \<and>
     (bit (info_flags i) 15 \<longleftrightarrow> info_master_ref i \<noteq> None) \<and>
     (case info_master_ref i of None \<Rightarrow> True | Some m \<Rightarrow> ext_blk_ref_ok (master m)) \<and>
     prev_info_ok (bit (info_flags i) 14) (info_prev_ref i) \<and>
     (bit (info_flags i) 8 \<longleftrightarrow> info_prev_vert_ref i \<noteq> None) \<and>
     (case info_prev_vert_ref i of None \<Rightarrow> True | Some p \<Rightarrow> prev_info_ok False p)"

text \<open>The three other references of a block are pruned branches.\<close>

definition block_header_cell :: "BlockHeader \<Rightarrow> cell list \<Rightarrow> cell" where
  "block_header_cell h pruned =
     Cell (uint_bits 32 0x11ef55aa @ i32_bits (global_id h)) (block_info_cell (info h) # pruned)"

definition merkle_proof_bits :: "MerkleProof \<Rightarrow> bool list" where
  "merkle_proof_bits m = uint_bits 8 3 @ bytes_bits (virtual_hash m) @ uint_bits 16 (unat (depth m))"

definition merkle_proof_refs :: "MerkleProof \<Rightarrow> cell list \<Rightarrow> cell list" where
  "merkle_proof_refs m pruned = [block_header_cell (virtual_root m) pruned]"

definition merkle_proof_ok :: "MerkleProof \<Rightarrow> bool" where
  "merkle_proof_ok m \<longleftrightarrow> length (virtual_hash m) = 32 \<and> in_i32 (global_id (virtual_root m)) \<and>
     block_info_ok (info (virtual_root m))"

fun fsm_bits :: "FutureSplitMerge \<Rightarrow> bool list" where
  "fsm_bits FsmNone = [False]"
| "fsm_bits (FsmSplit t i) = [True, False] @ uint_bits 32 (unat t) @ uint_bits 32 (unat i)"
| "fsm_bits (FsmMerge t i) = [True, True] @ uint_bits 32 (unat t) @ uint_bits 32 (unat i)"

text \<open>The two forms of a shard description: with the currencies in a reference, or in the cell.\<close>

definition shard_descr_bits :: "nat \<Rightarrow> ShardDescr \<Rightarrow> bool list" where
  "shard_descr_bits tag s = uint_bits 4 tag @ uint_bits 32 (unat (descr_seq_no s)) @
     uint_bits 32 (unat (descr_reg_mc_seqno s)) @ uint_bits 64 (unat (descr_start_lt s)) @ uint_bits 64 (unat (descr_end_lt s)) @
     bytes_bits (descr_root_hash s) @ bytes_bits (descr_file_hash s) @
     [descr_before_split s, descr_before_merge s, descr_want_split s, descr_want_merge s, descr_nx_cc_updated s] @
     uint_bits 3 (unat (descr_flags s)) @ uint_bits 32 (unat (descr_next_catchain_seqno s)) @
     uint_bits 64 (unat (next_validator_shard s)) @ uint_bits 32 (unat (descr_min_ref_mc_seqno s)) @
     uint_bits 32 (unat (descr_gen_utime s)) @ fsm_bits (descr_split_merge_at s)"

definition shard_descr_ok :: "ShardDescr \<Rightarrow> bool" where
  "shard_descr_ok s \<longleftrightarrow> length (descr_root_hash s) = 32 \<and> length (descr_file_hash s) = 32 \<and> unat (descr_flags s) < 2 ^ 3"

section \<open>The decoders read what the schemas define\<close>

lemma unat_bound: "unat v < 2 ^ LENGTH('a)" for v :: "'a::len word"
  by (rule unsigned_less)

lemma flag_bit: "(w AND push_bit n 1 \<noteq> 0) \<longleftrightarrow> bit w n" for w :: "'a::len word"
  by (simp add: and_exp_eq_0_iff_not_bit push_bit_eq_mult)

locale toner_crate =
  fixes T :: "('p, 'e) toner" and parser_of :: "bool list \<Rightarrow> cell list \<Rightarrow> 'p"
    and currency_bits :: "CurrencyCollection \<Rightarrow> bool list" and currency_ok :: "CurrencyCollection \<Rightarrow> bool"
  assumes uint: "v < 2 ^ n \<Longrightarrow> unpack_uint T n (parser_of (uint_bits n v @ bs) rs) = Ok (v, parser_of bs rs)"
    and bytes: "length b = n \<Longrightarrow> unpack_bytes T n (parser_of (bytes_bits b @ bs) rs) = Ok (b, parser_of bs rs)"
    and ref: "take_ref T (parser_of bs (Cell cb cr # rs)) = Ok (parser_of cb cr, parser_of bs rs)"
    and empty: "ensure_empty T (parser_of [] []) = Ok ()"
    and cells: "length rs = n \<Longrightarrow> parse_cells T n (parser_of [] rs) = Ok (parser_of [] [])"
    and money: "currency_ok c \<Longrightarrow> parse_currency T (parser_of (currency_bits c @ bs) rs) = Ok (c, parser_of bs rs)"
begin

lemma reads_u8: "unat v < 2 ^ n \<Longrightarrow> unpack_u8 T n (parser_of (uint_bits n (unat v) @ bs) rs) = Some (Ok (v, parser_of bs rs))"
  by (simp add: unpack_u8_def rbind_def rpure_def uint_of_def uint)

lemma reads_u32: "unat v < 2 ^ n \<Longrightarrow> unpack_u32 T n (parser_of (uint_bits n (unat v) @ bs) rs) = Some (Ok (v, parser_of bs rs))"
  by (simp add: unpack_u32_def rbind_def rpure_def uint_of_def uint)

lemma reads_u16: "unpack_u16 T (parser_of (uint_bits 16 (unat v) @ bs) rs) = Some (Ok (v, parser_of bs rs))"
  using unat_bound [of v] by (simp add: unpack_u16_def rbind_def rpure_def uint_of_def uint)

lemma reads_word32: "unpack_u32 T 32 (parser_of (uint_bits 32 (unat v) @ bs) rs) = Some (Ok (v, parser_of bs rs))"
  using unat_bound [of v] by (intro reads_u32) simp

lemma reads_u64: "unpack_u64 T (parser_of (uint_bits 64 (unat v) @ bs) rs) = Some (Ok (v, parser_of bs rs))"
  using unat_bound [of v] by (simp add: unpack_u64_def rbind_def rpure_def uint_of_def uint)

lemma reads_i32:
  assumes "in_i32 v"
  shows "unpack_i32 T (parser_of (i32_bits v @ bs) rs) = Some (Ok (v, parser_of bs rs))"
proof -
  have "wrap_i32 (v mod 2 ^ 32) = wrap_i32 v" by (simp add: wrap_i32_def mod_simps)
  moreover have "nat (v mod 2 ^ 32) < 2 ^ 32" by (simp add: nat_less_iff)
  ultimately show ?thesis
    using assms by (simp add: unpack_i32_def rbind_def rpure_def uint_of_def uint wrap_i32_id i32_bits_def)
qed

lemma reads_bool: "unpack_bool T (parser_of (b # bs) rs) = Some (Ok (b, parser_of bs rs))"
proof -
  have "uint_bits (Suc 0) (of_bool b) @ bs = b # bs" by (simp add: uint_bits_def bit_0)
  moreover have "unpack_uint T (Suc 0) (parser_of (uint_bits (Suc 0) (of_bool b) @ bs) rs) = Ok (of_bool b, parser_of bs rs)"
    by (rule uint) simp
  ultimately show ?thesis by (simp add: unpack_bool_def rbind_def rpure_def uint_of_def)
qed

lemma reads_hash: "length b = 32 \<Longrightarrow> unpack_hash T (parser_of (bytes_bits b @ bs) rs) = Some (Ok (b, parser_of bs rs))"
  by (simp add: unpack_hash_def bytes)

lemma reads_currency: "currency_ok c \<Longrightarrow> currency T (parser_of (currency_bits c @ bs) rs) = Some (Ok (c, parser_of bs rs))"
  by (simp add: currency_def money)

lemma reads_in_ref:
  assumes "m (parser_of b r) = Some (Ok (a, q))"
  shows "in_ref T m (parser_of bs (Cell b r # rs)) = Some (Ok (a, parser_of bs rs))"
  using assms by (simp add: in_ref_def ref rbind_def)

lemma reads_fully: "m p = Some (Ok (a, parser_of [] [])) \<Longrightarrow> fully T m p = Some (Ok (a, parser_of [] []))"
  by (simp add: fully_def rbind_def empty)

lemmas reads = reads_u16 reads_word32 reads_u64 reads_bool rbind_def rpure_def

lemma reads_ext_blk_ref:
  "ext_blk_ref_ok r \<Longrightarrow> parse_ext_blk_ref T (parser_of (ext_blk_ref_bits r @ bs) rs) = Some (Ok (r, parser_of bs rs))"
  by (simp add: parse_ext_blk_ref_def ext_blk_ref_bits_def ext_blk_ref_ok_def reads reads_hash)

lemma reads_prev_info:
  assumes "prev_info_ok am p"
  shows "in_ref T (parse_blk_prev_info T am) (parser_of bs (prev_info_cell p # rs)) = Some (Ok (p, parser_of bs rs))"
proof (cases p)
  case (Ref r)
  with assms have "parse_blk_prev_info T am (parser_of (ext_blk_ref_bits r) []) = Some (Ok (p, parser_of [] []))"
    using reads_ext_blk_ref [of r "[]" "[]"] by (simp add: parse_blk_prev_info_def reads)
  with Ref show ?thesis by (simp add: reads_in_ref)
next
  case (RefPair q r)
  have "in_ref T (parse_ext_blk_ref T) (parser_of bs (Cell (ext_blk_ref_bits x) [] # rs)) = Some (Ok (x, parser_of bs rs))"
    if "ext_blk_ref_ok x" for x bs rs
    using reads_ext_blk_ref [OF that, of "[]" "[]"] by (simp add: reads_in_ref)
  with assms RefPair have "parse_blk_prev_info T am (parser_of [] [Cell (ext_blk_ref_bits q) [], Cell (ext_blk_ref_bits r) []]) =
      Some (Ok (p, parser_of [] []))"
    by (simp add: parse_blk_prev_info_def reads)
  with RefPair show ?thesis by (simp add: reads_in_ref)
qed

lemma reads_master_ref:
  "ext_blk_ref_ok (master m) \<Longrightarrow>
   in_ref T (parse_blk_master_info T) (parser_of bs (Cell (ext_blk_ref_bits (master m)) [] # rs)) = Some (Ok (m, parser_of bs rs))"
  using reads_ext_blk_ref [of "master m" "[]" "[]"]
  by (intro reads_in_ref [where q = "parser_of [] []"]) (simp add: parse_blk_master_info_def reads)

lemma reads_tag: "v < 2 ^ n \<Longrightarrow> uint_of T n (parser_of (uint_bits n v @ bs) rs) = Some (Ok (v, parser_of bs rs))"
  by (simp add: uint_of_def uint)

lemma reads_tag32:
  "v < 2 ^ 32 \<Longrightarrow> unpack_u32 T 32 (parser_of (uint_bits 32 v @ bs) rs) = Some (Ok (of_nat v, parser_of bs rs))"
  by (simp add: unpack_u32_def rbind_def rpure_def reads_tag)

lemma reads_tag8:
  "v < 2 ^ n \<Longrightarrow> unpack_u8 T n (parser_of (uint_bits n v @ bs) rs) = Some (Ok (of_nat v, parser_of bs rs))"
  by (simp add: unpack_u8_def rbind_def rpure_def reads_tag)

lemma reads_shard_ident:
  "shard_ident_ok s \<Longrightarrow> parse_shard_ident T (parser_of (shard_ident_bits s @ bs) rs) = Some (Ok (s, parser_of bs rs))"
  by (simp add: parse_shard_ident_def shard_ident_bits_def shard_ident_ok_def reads reads_i32 reads_u8 reads_tag8)

lemma reads_block_id_ext:
  "shard_ident_ok (bid_shard_id b) \<Longrightarrow> length (bid_root_hash b) = 32 \<Longrightarrow> length (bid_file_hash b) = 32 \<Longrightarrow>
   parse_block_id_ext T (parser_of (block_id_ext_bits b @ bs) rs) = Some (Ok (b, parser_of bs rs))"
  by (simp add: parse_block_id_ext_def block_id_ext_bits_def reads reads_shard_ident reads_hash)

lemma reads_global_version:
  "parse_global_version T (parser_of (global_version_bits g @ bs) rs) = Some (Ok (g, parser_of bs rs))"
  by (simp add: parse_global_version_def global_version_bits_def reads reads_tag8)

lemma reads_optional:
  assumes "\<And>a. x = Some a \<Longrightarrow> m p = Some (Ok (a, q))" and "x = None \<Longrightarrow> q = p" and "present \<longleftrightarrow> x \<noteq> None"
  shows "optional present m p = Some (Ok (x, q))"
  using assms by (cases x) (simp_all add: optional_def rbind_def rpure_def)

lemma reads_gen_software:
  "present \<longleftrightarrow> x \<noteq> None \<Longrightarrow>
   optional present (parse_global_version T)
     (parser_of ((case x of None \<Rightarrow> [] | Some g \<Rightarrow> global_version_bits g)) rs) = Some (Ok (x, parser_of [] rs))"
  using reads_global_version [of _ "[]" rs] by (intro reads_optional) auto

lemma reads_opt_master:
  "present \<longleftrightarrow> x \<noteq> None \<Longrightarrow> case x of None \<Rightarrow> True | Some m \<Rightarrow> ext_blk_ref_ok (master m) \<Longrightarrow>
   optional present (in_ref T (parse_blk_master_info T))
     (parser_of bs ((case x of None \<Rightarrow> [] | Some m \<Rightarrow> [Cell (ext_blk_ref_bits (master m)) []]) @ rs)) = Some (Ok (x, parser_of bs rs))"
  by (intro reads_optional) (auto simp: reads_master_ref)

lemma reads_opt_prev:
  "present \<longleftrightarrow> x \<noteq> None \<Longrightarrow> case x of None \<Rightarrow> True | Some p \<Rightarrow> prev_info_ok False p \<Longrightarrow>
   optional present (in_ref T (parse_blk_prev_info T False))
     (parser_of bs (case x of None \<Rightarrow> [] | Some p \<Rightarrow> [prev_info_cell p])) = Some (Ok (x, parser_of bs []))"
  by (intro reads_optional) (auto simp: reads_prev_info)

lemma reads_block_info:
  assumes "block_info_ok i"
  shows "\<exists>b r. block_info_cell i = Cell b r \<and> parse_block_info T (parser_of b r) = Some (Ok (i, parser_of [] []))"
  using assms unfolding parse_block_info_def flag_bit
  by (simp add: block_info_cell_def block_info_ok_def reads reads_tag32 reads_shard_ident
    reads_gen_software reads_opt_master reads_prev_info reads_opt_prev)

lemma reads_fsm: "parse_future_split_merge T (parser_of (fsm_bits f @ bs) rs) = Some (Ok (f, parser_of bs rs))"
  by (cases f) (simp_all add: parse_future_split_merge_def reads)


lemma reads_block_header:
  assumes "in_i32 (global_id h)" and "block_info_ok (info h)" and "length pruned = 3"
  shows "\<exists>b r. block_header_cell h pruned = Cell b r \<and> parse_block_header T (parser_of b r) = Some (Ok (h, parser_of [] []))"
proof -
  obtain b r where "block_info_cell (info h) = Cell b r" and "parse_block_info T (parser_of b r) = Some (Ok (info h, parser_of [] []))"
    using reads_block_info [OF assms(2)] by blast
  then have "in_ref T (fully T (parse_block_info T)) (parser_of [] (block_info_cell (info h) # pruned)) =
      Some (Ok (info h, parser_of [] pruned))"
    by (simp add: reads_in_ref [OF reads_fully])
  then show ?thesis
    using assms(1,3) reads_i32 [of "global_id h" "[]"]
    by (simp add: block_header_cell_def parse_block_header_def reads reads_tag32 cells)
qed

lemma reads_merkle_proof:
  assumes "merkle_proof_ok m" and "length pruned = 3"
  shows "parse_merkle_proof T (parser_of (merkle_proof_bits m) (merkle_proof_refs m pruned)) = Some (Ok (m, parser_of [] []))"
proof -
  obtain b r where "block_header_cell (virtual_root m) pruned = Cell b r"
    and "parse_block_header T (parser_of b r) = Some (Ok (virtual_root m, parser_of [] []))"
    using reads_block_header assms by (metis merkle_proof_ok_def)
  then have "in_ref T (parse_block_header T) (parser_of [] (merkle_proof_refs m pruned)) = Some (Ok (virtual_root m, parser_of [] []))"
    by (simp add: merkle_proof_refs_def reads_in_ref)
  then show ?thesis
    using assms(1) reads_u16 [of "depth m" "[]"]
    by (simp add: merkle_proof_bits_def merkle_proof_ok_def parse_merkle_proof_def reads reads_tag8 reads_hash)
qed

lemma reads_two_currencies:
  "currency_ok f \<Longrightarrow> currency_ok c \<Longrightarrow>
   two_currencies T (parser_of (currency_bits f @ currency_bits c @ bs) rs) = Some (Ok ((f, c), parser_of bs rs))"
  by (simp add: two_currencies_def reads reads_currency)

lemma reads_shard_descr:
  assumes "shard_descr_ok s" and "currency_ok (descr_fees_collected s)" "currency_ok (descr_funds_created s)"
  shows "parse_shard_descr T (parser_of (shard_descr_bits 0xa s @ bs)
      (Cell (currency_bits (descr_fees_collected s) @ currency_bits (descr_funds_created s)) [] # rs)) =
      Some (Ok (s, parser_of bs rs))"
    and "parse_shard_descr T (parser_of (shard_descr_bits 0xb s @
      currency_bits (descr_fees_collected s) @ currency_bits (descr_funds_created s) @ bs) rs) = Some (Ok (s, parser_of bs rs))"
proof -
  let ?f = "descr_fees_collected s" and ?c = "descr_funds_created s"
  have "in_ref T (fully T (two_currencies T)) (parser_of bs (Cell (currency_bits ?f @ currency_bits ?c) [] # rs)) =
      Some (Ok ((?f, ?c), parser_of bs rs))" for bs
    using reads_two_currencies [OF assms(2,3), of "[]" "[]"] by (simp add: reads_in_ref [OF reads_fully])
  moreover note reads_two_currencies [OF assms(2,3)]
  ultimately show "parse_shard_descr T (parser_of (shard_descr_bits 0xa s @ bs)
      (Cell (currency_bits ?f @ currency_bits ?c) [] # rs)) = Some (Ok (s, parser_of bs rs))"
    and "parse_shard_descr T (parser_of (shard_descr_bits 0xb s @ currency_bits ?f @ currency_bits ?c @ bs) rs) =
      Some (Ok (s, parser_of bs rs))"
    using assms(1)
    by (simp_all add: parse_shard_descr_def shard_descr_bits_def shard_descr_ok_def reads reads_hash reads_tag8 reads_u32
      reads_fsm)
qed

end

section \<open>A model of the contract\<close>

definition bits_val :: "bool list \<Rightarrow> nat" where
  "bits_val bs = horner_sum of_bool 2 (rev bs)"

fun take_bytes :: "nat \<Rightarrow> bool list \<Rightarrow> bytes" where
  "take_bytes 0 bs = []"
| "take_bytes (Suc n) bs = of_nat (bits_val (take 8 bs)) # take_bytes n (drop 8 bs)"

definition std_toner :: "(bool list \<times> cell list, unit) toner" where
  "std_toner =
     \<lparr>unpack_uint = (\<lambda>n (bs, rs). if n \<le> length bs then Ok (bits_val (take n bs), drop n bs, rs) else Err ()),
      unpack_bytes = (\<lambda>n (bs, rs). if 8 * n \<le> length bs then Ok (take_bytes n bs, drop (8 * n) bs, rs) else Err ()),
      take_ref = (\<lambda>(bs, rs). case rs of [] \<Rightarrow> Err () | Cell b r # rs \<Rightarrow> Ok ((b, r), bs, rs)),
      ensure_empty = (\<lambda>(bs, rs). if bs = [] \<and> rs = [] then Ok () else Err ()),
      parse_cells = (\<lambda>n (bs, rs). if length rs < n then Err () else Ok ([], [])),
      parse_currency = (\<lambda>(bs, rs). if length bs < 121 then Err ()
        else Ok (\<lparr>grams = bits_val (take 120 bs), other_currencies = []\<rparr>, drop 121 bs, rs))\<rparr>"

definition std_currency_bits :: "CurrencyCollection \<Rightarrow> bool list" where
  "std_currency_bits c = uint_bits 120 (grams c) @ [False]"

definition std_currency_ok :: "CurrencyCollection \<Rightarrow> bool" where
  "std_currency_ok c \<longleftrightarrow> grams c < 2 ^ 120 \<and> other_currencies c = []"

lemma uint_bits_length [simp]: "length (uint_bits n v) = n"
  by (simp add: uint_bits_def)

lemma bits_val_uint: "v < 2 ^ n \<Longrightarrow> bits_val (uint_bits n v) = v"
  by (simp add: bits_val_def uint_bits_def horner_sum_bit_eq_take_bit take_bit_nat_eq_self)

lemma take_bytes_bits: "take_bytes (length b) (bytes_bits b @ bs) = b \<and> drop (8 * length b) (bytes_bits b @ bs) = bs
    \<and> length (bytes_bits b) = 8 * length b"
proof (induction b)
  case (Cons w b)
  have "unat w < 2 ^ 8" using unat_bound [of w] by simp
  with Cons show ?case by (simp add: bytes_bits_def bits_val_uint)
qed (simp add: bytes_bits_def)

interpretation std_toner: toner_crate std_toner Pair std_currency_bits std_currency_ok
proof
  show "unpack_uint std_toner n (uint_bits n v @ bs, rs) = Ok (v, bs, rs)" if "v < 2 ^ n" for v n bs and rs :: "cell list"
    using that by (simp add: std_toner_def bits_val_uint)
  show "unpack_bytes std_toner n (bytes_bits b @ bs, rs) = Ok (b, bs, rs)" if "length b = n" for b n bs and rs :: "cell list"
    using that take_bytes_bits [of b bs] by (auto simp: std_toner_def)
qed (simp_all add: std_toner_def std_currency_bits_def std_currency_ok_def bits_val_uint)

section \<open>Properties\<close>

text \<open>
  C8. The decoders of block headers and of shard descriptions invert the schemas written in their
  sources: a Merkle proof of a well-formed header, with its three pruned branches, and both forms of
  a shard description are read back in full, every optional part, both forms of the previous blocks
  and every reference included.
\<close>

theorem tlb_decoders_invert_schemas:
  assumes "toner_crate T parser_of currency_bits currency_ok"
    and "merkle_proof_ok m" "length pruned = 3"
    and "shard_descr_ok s" "currency_ok (descr_fees_collected s)" "currency_ok (descr_funds_created s)"
  shows "parse_merkle_proof T (parser_of (merkle_proof_bits m) (merkle_proof_refs m pruned)) = Some (Ok (m, parser_of [] []))
    \<and> parse_shard_descr T (parser_of (shard_descr_bits 0xa s)
        [Cell (currency_bits (descr_fees_collected s) @ currency_bits (descr_funds_created s)) []]) =
        Some (Ok (s, parser_of [] []))
    \<and> parse_shard_descr T (parser_of (shard_descr_bits 0xb s @
        currency_bits (descr_fees_collected s) @ currency_bits (descr_funds_created s)) []) = Some (Ok (s, parser_of [] []))"
  using toner_crate.reads_merkle_proof [OF assms(1-3)]
    toner_crate.reads_shard_descr [OF assms(1,4-6), of "[]" "[]"] by simp

definition example_ref :: "u32 \<Rightarrow> ExtBlkRef" where
  "example_ref q = \<lparr>ext_end_lt = 9, ext_seq_no = q, ext_root_hash = replicate 32 1, ext_file_hash = replicate 32 2\<rparr>"

definition example_info :: BlockInfo where
  "example_info = \<lparr>info_version = 0, info_flags = 0xC001, info_seq_no = 8, info_vert_seq_no = 0,
     info_shard = \<lparr>shard_pfx_bits = 1, workchain_id = 0, shard_prefix = 0x8000000000000000\<rparr>,
     info_gen_utime = 100, info_start_lt = 5, info_end_lt = 9, info_gen_validator_list_hash_short = 0,
     info_gen_catchain_seqno = 0, info_min_ref_mc_seqno = 0, info_prev_key_block_seqno = 0,
     info_gen_software = Some \<lparr>gv_version = 3, gv_capabilities = 1\<rparr>, info_master_ref = Some \<lparr>master = example_ref 40\<rparr>,
     info_prev_ref = RefPair (example_ref 6) (example_ref 7), info_prev_vert_ref = None\<rparr>"

definition example_proof :: MerkleProof where
  "example_proof = \<lparr>virtual_hash = replicate 32 3, depth = 2, virtual_root = \<lparr>global_id = - 239, info = example_info\<rparr>\<rparr>"

definition example_shard :: ShardDescr where
  "example_shard = \<lparr>descr_seq_no = 8, descr_reg_mc_seqno = 40, descr_start_lt = 5, descr_end_lt = 9,
     descr_root_hash = replicate 32 1, descr_file_hash = replicate 32 2, descr_before_split = False,
     descr_before_merge = False, descr_want_split = True, descr_want_merge = False, descr_nx_cc_updated = False,
     descr_flags = 0, descr_next_catchain_seqno = 0, next_validator_shard = 0x8000000000000000,
     descr_min_ref_mc_seqno = 0, descr_gen_utime = 100, descr_split_merge_at = FsmSplit 7 1,
     descr_fees_collected = \<lparr>grams = 5, other_currencies = []\<rparr>, descr_funds_created = \<lparr>grams = 6, other_currencies = []\<rparr>\<rparr>"

lemma example_proof_ok: "merkle_proof_ok example_proof"
  by (simp add: merkle_proof_ok_def example_proof_def example_info_def block_info_ok_def shard_ident_ok_def in_i32_def
    example_ref_def ext_blk_ref_ok_def)

lemma example_shard_ok: "shard_descr_ok example_shard \<and> std_currency_ok (descr_fees_collected example_shard)
    \<and> std_currency_ok (descr_funds_created example_shard)"
  by (simp add: example_shard_def shard_descr_ok_def std_currency_ok_def)

theorem tlb_decoders_invert_schemas_witness:
  "parse_merkle_proof std_toner (merkle_proof_bits example_proof, merkle_proof_refs example_proof (replicate 3 (Cell [] []))) =
     Some (Ok (example_proof, [], []))
   \<and> parse_shard_descr std_toner (shard_descr_bits 0xb example_shard @
       std_currency_bits (descr_fees_collected example_shard) @ std_currency_bits (descr_funds_created example_shard), []) =
     Some (Ok (example_shard, [], []))"
  using tlb_decoders_invert_schemas [OF std_toner.toner_crate_axioms example_proof_ok, of "replicate 3 (Cell [] [])" example_shard]
    example_shard_ok by simp

text \<open>A cell with another tag is not refused: the decoder panics.\<close>

lemma other_tag_panics:
  assumes "toner_crate T parser_of currency_bits currency_ok" and "v < 256" "v \<noteq> 3"
  shows "parse_merkle_proof T (parser_of (uint_bits 8 v @ bs) rs) = None"
proof -
  have "of_nat v \<noteq> (3 :: u8)"
    using assms(2,3) word_of_nat_eq_iff [where 'a = 8, of v 3] by (simp add: take_bit_eq_mod)
  then show ?thesis
    using toner_crate.reads_tag8 [OF assms(1), of v 8 bs rs] assms(2) by (simp add: parse_merkle_proof_def rbind_def rpanic_def)
qed

end
