(* ===== verification/Trackers.thy ===== *)
theory Trackers
  imports Liteserver_Client Cursor Tlb
begin

text \<open>
  The block trackers of \<^verbatim>\<open>ton-liteserver-client\<close> and the client that routes by them: the search for
  the first block a liteserver has (\<^verbatim>\<open>tracker/find_first_block.rs\<close>), one turn of the loop of each
  tracker's actor (\<^verbatim>\<open>tracker/*.rs\<close>), and \<open>TrackedClient\<close> (\<^verbatim>\<open>tracked_client.rs\<close>). What the
  liteserver answers is the parameter \<open>ls_ops\<close>, and so is the decoding of the bytes of a proof or of
  the hashes of the shards, which panics where the code unwraps; the headers and the descriptions are
  those of the theory \<open>Tlb\<close>. The state that the actors
  share is an association list, in the order in which it is iterated. Instants are numbers of seconds.
\<close>

section \<open>Data\<close>

record LiteServerErrorData =
  error_code :: i32
  error_message :: string

type_synonym ls_err = "LiteServerErrorData LsError"

record LiteServerBlockHeader =
  ls_header_id :: TonNodeBlockIdExt
  header_proof :: bytes

record 'c ls_ops =
  ls_info :: "'c \<Rightarrow> (ls_err, TonNodeBlockIdExt) res \<times> 'c"
  ls_wait_info :: "'c \<Rightarrow> unit WaitSeqno \<Rightarrow> (ls_err, TonNodeBlockIdExt) res \<times> 'c"
  ls_lookup :: "'c \<Rightarrow> LiteServerLookupBlock \<Rightarrow> (ls_err, LiteServerBlockHeader) res \<times> 'c"
  ls_block :: "'c \<Rightarrow> LiteServerRequest \<Rightarrow> (ls_err, bytes) res \<times> 'c"
  ls_block_header :: "'c \<Rightarrow> LiteServerRequest \<Rightarrow> (ls_err, bytes) res \<times> 'c"
  ls_all_shards :: "'c \<Rightarrow> LiteServerRequest \<Rightarrow> (ls_err, bytes) res \<times> 'c"
  parse_proof :: "bytes \<Rightarrow> BlockHeader may_panic"
  parse_proof_prefix :: "bytes \<Rightarrow> BlockHeader may_panic"
  parse_shard_hashes :: "bytes \<Rightarrow> (u32 \<times> ShardDescr list) list may_panic"

text \<open>
  What the trackers do with the bytes of an answer: the crate unpacks the bag of cells and returns a
  parser of its only root (\<open>None\<close> where one of the two is unwrapped), which is read in full. The
  tracker of the first masterchain block unpacks with \<^verbatim>\<open>unpack_bytes\<close>, which allows bytes after the bag,
  the others with \<^verbatim>\<open>unpack_bytes_fully\<close>: these are the fields \<open>parse_proof_prefix\<close> and \<open>parse_proof\<close>,
  with the same reading of the root.
\<close>

definition proof_header :: "(bytes \<Rightarrow> 'p may_panic) \<Rightarrow> ('p, 'e) toner \<Rightarrow> bytes \<Rightarrow> BlockHeader may_panic" where
  "proof_header boc_root T header_bytes =
     (case boc_root header_bytes of
        None \<Rightarrow> None
      | Some root \<Rightarrow>
          (case fully T (parse_merkle_proof T) root of
             Some (Ok (header, _)) \<Rightarrow> Some (virtual_root header)
           | _ \<Rightarrow> None))"

definition shard_hashes_of ::
    "(bytes \<Rightarrow> 'p may_panic) \<Rightarrow> ('p, 'e) toner \<Rightarrow> ('p, 'e) toner_maps \<Rightarrow> bytes \<Rightarrow> (u32 \<times> ShardDescr list) list may_panic" where
  "shard_hashes_of boc_root T H bs =
     (case boc_root bs of
        None \<Rightarrow> None
      | Some root \<Rightarrow>
          (case fully T (parse_shard_hashes_cell T H) root of
             Some (Ok (shard_hashes, _)) \<Rightarrow> Some shard_hashes
           | _ \<Rightarrow> None))"

section \<open>The first block of a liteserver\<close>

definition ls_check_block_available ::
    "'c ls_ops \<Rightarrow> 'c \<Rightarrow> TonBlockId \<Rightarrow> (ls_err, LiteServerBlockHeader \<times> bytes) res \<times> 'c" where
  "ls_check_block_available L c block_id =
     (case ls_lookup L c (ls_lookup_seqno block_id) of
        (Err e, c) \<Rightarrow> (Err e, c)
      | (Ok block_header, c) \<Rightarrow>
          (case ls_block L c (get_block_new (ls_header_id block_header)) of
             (Err e, c) \<Rightarrow> (Err e, c)
           | (Ok block, c) \<Rightarrow> (Ok (block_header, block), c)))"

fun block_not_found :: "ls_err \<Rightarrow> bool" where
  "block_not_found (LiteServerError d) = (error_code d = 651)"
| "block_not_found _ = False"

text \<open>The result of the loop is \<open>Inl\<close> for an early return.\<close>

partial_function (option) ls_find_loop ::
    "'c ls_ops \<Rightarrow> i32 \<Rightarrow> i64 \<Rightarrow> i32 \<Rightarrow> i32 \<Rightarrow> i32 \<Rightarrow> (ls_err, LiteServerBlockHeader \<times> bytes) res \<Rightarrow>
     (LiteServerBlockHeader \<times> bytes) option \<Rightarrow> 'c \<Rightarrow>
     ((ls_err + i32 \<times> (ls_err, LiteServerBlockHeader \<times> bytes) res \<times> (LiteServerBlockHeader \<times> bytes) option) \<times> 'c) option"
  where
  "ls_find_loop L wc sh lhs rhs cur block success c =
     (if lhs < rhs then
        (case (case block of
                 Ok _ \<Rightarrow> Ok (lhs, cur)
               | Err e \<Rightarrow> if block_not_found e then Ok (wrap_i32 (cur + 1), rhs) else Err e) of
           Err e \<Rightarrow> Some (Inl e, c)
         | Ok (lhs', rhs') \<Rightarrow>
             let cur' = rust_div (wrap_i32 (lhs' + rhs')) 2
             in if cur' = 0 then Some (Inr (cur', block, success), c)
                else
                  let r = ls_check_block_available L c (ton_node_block_id_new wc sh cur')
                  in ls_find_loop L wc sh lhs' rhs' cur' (fst r)
                       (case fst r of Ok b \<Rightarrow> Some b | Err _ \<Rightarrow> success) (snd r))
      else Some (Inr (cur, block, success), c))"

definition find_first_block_header ::
    "'c ls_ops \<Rightarrow> 'c \<Rightarrow> TonNodeBlockIdExt \<Rightarrow> i32 option \<Rightarrow> i32 option \<Rightarrow>
     ((ls_err, LiteServerBlockHeader) res \<times> 'c) option" where
  "find_first_block_header L c start lhs cur =
     (let cur = case_option (wrap_i32 (seqno start - 200000)) (\<lambda>k. k) cur;
          (block, c) = ls_check_block_available L c (ton_node_block_id_new (workchain start) (shard start) cur)
      in case ls_find_loop L (workchain start) (shard start) (case_option 1 (\<lambda>l. l) lhs) (seqno start) cur block None c of
           None \<Rightarrow> None
         | Some (Inl e, c) \<Rightarrow> Some (Err e, c)
         | Some (Inr (cur, block, success), c) \<Rightarrow>
             Some (case block of
                     Ok b \<Rightarrow> (Ok (fst b), c)
                   | Err e \<Rightarrow>
                       (case success of
                          Some b \<Rightarrow>
                            if wrap_i32 (seqno (ls_header_id (fst b)) - cur) \<le> 4 then (Ok (fst b), c) else (Err e, c)
                        | None \<Rightarrow> (Err e, c))))"

section \<open>Trackers\<close>

text \<open>One turn of the loop of \<open>MasterchainLastBlockTrackerActor::run\<close>: the sequence number to wait
  behind, what is published, and the client.\<close>

definition last_tracker_turn ::
    "'c ls_ops \<Rightarrow> i32 option \<Rightarrow> 'c \<Rightarrow> i32 option \<times> TonNodeBlockIdExt option \<times> 'c" where
  "last_tracker_turn L current_seqno c =
     (case (case current_seqno of
              None \<Rightarrow> ls_info L c
            | Some q \<Rightarrow> ls_wait_info L c (wait_with_timeout () (wrap_i32 (q + 1)) 5000)) of
        (Ok b, c) \<Rightarrow> (Some (seqno b), Some b, c)
      | (Err _, c) \<Rightarrow> (current_seqno, None, c))"

text \<open>The blocks that the first \<open>n\<close> turns publish.\<close>

fun last_tracker_run :: "'c ls_ops \<Rightarrow> nat \<Rightarrow> i32 option \<Rightarrow> 'c \<Rightarrow> TonNodeBlockIdExt list" where
  "last_tracker_run L 0 current c = []"
| "last_tracker_run L (Suc n) current c =
     (case last_tracker_turn L current c of
        (current', published, c') \<Rightarrow>
          (case published of Some b \<Rightarrow> [b] | None \<Rightarrow> []) @ last_tracker_run L n current' c')"

record 's TrackedClient =
  tracked_inner :: 's
  tc_last_block :: "TonNodeBlockIdExt option"
  tc_last_header :: "BlockHeader option"
  tc_first_header :: "BlockHeader option"
  tc_last_shards :: "(ShardId \<times> ShardDescr) list"
  tc_first_shards :: "(ShardId \<times> BlockHeader) list"

definition tracked_new :: "'s \<Rightarrow> 's TrackedClient" where
  "tracked_new inner = \<lparr>tracked_inner = inner, tc_last_block = None, tc_last_header = None, tc_first_header = None,
     tc_last_shards = [], tc_first_shards = []\<rparr>"

text \<open>One turn of \<open>MasterchainLastBlockHeaderTrackerActor::run\<close>, after the last block has changed.\<close>

definition last_header_turn :: "'c ls_ops \<Rightarrow> 'c TrackedClient \<Rightarrow> 'c TrackedClient may_panic" where
  "last_header_turn L t =
     (case tc_last_block t of
        None \<Rightarrow> None
      | Some b \<Rightarrow>
          (case ls_block_header L (tracked_inner t) (get_block_header_new b) of
             (Err _, c) \<Rightarrow> Some (t\<lparr>tracked_inner := c\<rparr>)
           | (Ok proof_bytes, c) \<Rightarrow>
               map_option (\<lambda>h. t\<lparr>tracked_inner := c, tc_last_header := Some h\<rparr>) (parse_proof L proof_bytes)))"

text \<open>One turn of \<open>MasterchainFirstBlockTrackerActor::run\<close>, which searches below the last block known
  when the actor started.\<close>

definition first_tracker_turn ::
    "'c ls_ops \<Rightarrow> TonNodeBlockIdExt \<Rightarrow> i32 option \<Rightarrow> 'c TrackedClient \<Rightarrow> (i32 option \<times> 'c TrackedClient) may_panic" where
  "first_tracker_turn L last_block_id current_seqno t =
     (case find_first_block_header L (tracked_inner t) last_block_id current_seqno
             (map_option (\<lambda>q. wrap_i32 (q + 1024)) current_seqno) of
        None \<Rightarrow> None
      | Some (Err _, c) \<Rightarrow> Some (current_seqno, t\<lparr>tracked_inner := c\<rparr>)
      | Some (Ok h, c) \<Rightarrow>
          map_option (\<lambda>hd. (Some (seqno (ls_header_id h)), t\<lparr>tracked_inner := c, tc_first_header := Some hd\<rparr>))
            (parse_proof_prefix L (header_proof h)))"

text \<open>One turn of \<open>WorkchainsLastBlocksTrackerActor::run\<close>; the second component is the blocks that are
  broadcast.\<close>

definition shard_block :: "u32 \<Rightarrow> ShardDescr \<Rightarrow> TonNodeBlockIdExt" where
  "shard_block chid s =
     \<lparr>workchain = wrap_i32 (uint chid), shard = wrap_i64 (uint (next_validator_shard s)),
      seqno = wrap_i32 (uint (descr_seq_no s)), node_root_hash = descr_root_hash s, node_file_hash = descr_file_hash s\<rparr>"

definition last_shards_turn ::
    "'c ls_ops \<Rightarrow> 'c TrackedClient \<Rightarrow> ('c TrackedClient \<times> TonNodeBlockIdExt list) may_panic" where
  "last_shards_turn L t =
     (case tc_last_block t of
        None \<Rightarrow> None
      | Some b \<Rightarrow>
          (case ls_all_shards L (tracked_inner t) (get_all_shards_info_new b) of
             (Err _, c) \<Rightarrow> Some (t\<lparr>tracked_inner := c\<rparr>, [])
           | (Ok bs, c) \<Rightarrow>
               map_option
                 (\<lambda>hashes.
                    let all = concat (map (\<lambda>(chid, shards). map (\<lambda>s. (chid, s)) shards) hashes)
                    in (t\<lparr>tracked_inner := c,
                          tc_last_shards := fold (\<lambda>(chid, s). AList.update
                            (wrap_i32 (uint chid), wrap_i64 (uint (next_validator_shard s))) s) all (tc_last_shards t)\<rparr>,
                        map (\<lambda>(chid, s). shard_block chid s) all))
                 (parse_shard_hashes L bs)))"

text \<open>The two branches of \<open>WorkchainsFirstBlocksTrackerActor::run\<close>: a block of a shard starts a search
  unless one was started less than 60 seconds ago, and a search that has ended is stored.\<close>

definition first_shards_received ::
    "(ShardId \<rightharpoonup> nat) \<Rightarrow> nat \<Rightarrow> TonNodeBlockIdExt \<Rightarrow> (ShardId \<rightharpoonup> nat) \<times> TonNodeBlockIdExt option" where
  "first_shards_received timeouts now block_id =
     (let shard_id = (workchain block_id, shard block_id)
      in if (case timeouts shard_id of Some time \<Rightarrow> now - time < 60 | None \<Rightarrow> False) then (timeouts, None)
         else (timeouts(shard_id \<mapsto> now), Some block_id))"

definition first_shards_resolved ::
    "'c ls_ops \<Rightarrow> 'c TrackedClient \<Rightarrow> (ls_err, LiteServerBlockHeader) res \<Rightarrow> 'c TrackedClient may_panic" where
  "first_shards_resolved L t result =
     (case result of
        Err _ \<Rightarrow> Some t
      | Ok resolved \<Rightarrow>
          map_option
            (\<lambda>h. t\<lparr>tc_first_shards := AList.update
               (workchain (ls_header_id resolved), shard (ls_header_id resolved)) h (tc_first_shards t)\<rparr>)
            (parse_proof L (header_proof resolved)))"

section \<open>The client that routes by the trackers\<close>

fun lts_by_address :: "bitvec_ops \<Rightarrow> ('h \<Rightarrow> u64) \<Rightarrow> (ShardId \<times> 'h) list \<Rightarrow> i32 \<Rightarrow> bytes \<Rightarrow> u64 list may_panic" where
  "lts_by_address V lt [] chain address = Some []"
| "lts_by_address V lt ((sid, h) # rest) chain address =
     (if fst sid = chain then
        (case from_shard_id V (word_of_int (snd sid)) of
           None \<Rightarrow> None
         | Some prefix \<Rightarrow>
             map_option (\<lambda>lts. if matches V prefix address then lt h # lts else lts)
               (lts_by_address V lt rest chain address))
      else lts_by_address V lt rest chain address)"

definition find_min_lt_by_address :: "bitvec_ops \<Rightarrow> 's TrackedClient \<Rightarrow> i32 \<Rightarrow> bytes \<Rightarrow> u64 option may_panic" where
  "find_min_lt_by_address V t chain address =
     map_option (\<lambda>lts. if lts = [] then None else Some (Min (set lts)))
       (lts_by_address V (\<lambda>h. info_start_lt (info h)) (tc_first_shards t) chain address)"

definition find_max_lt_by_address :: "bitvec_ops \<Rightarrow> 's TrackedClient \<Rightarrow> i32 \<Rightarrow> bytes \<Rightarrow> u64 option may_panic" where
  "find_max_lt_by_address V t chain address =
     map_option (\<lambda>lts. if lts = [] then None else Some (Max (set lts)))
       (lts_by_address V descr_end_lt (tc_last_shards t) chain address)"

fun zip_some :: "'a option \<Rightarrow> 'b option \<Rightarrow> ('a \<times> 'b) option" where
  "zip_some (Some a) (Some b) = Some (a, b)"
| "zip_some _ _ = None"

definition tracked_contains :: "bitvec_ops \<Rightarrow> 's TrackedClient \<Rightarrow> i32 \<Rightarrow> BlockCriteria \<Rightarrow> bool may_panic" where
  "tracked_contains V t chain criteria =
     (if chain = - 1 then
        Some (case zip_some (tc_first_header t) (tc_last_header t) of
                None \<Rightarrow> False
              | Some (lhs, rhs) \<Rightarrow>
                  (case criteria of
                     Seqno _ q \<Rightarrow> wrap_i32 (uint (info_seq_no (info lhs))) \<le> q \<and> q \<le> wrap_i32 (uint (info_seq_no (info rhs)))
                   | LogicalTime _ lt \<Rightarrow> sint (info_start_lt (info lhs)) \<le> lt \<and> lt \<le> sint (info_end_lt (info rhs))))
      else
        (case criteria of
           Seqno sh q \<Rightarrow>
             Some (case zip_some (map_of (tc_first_shards t) (chain, sh)) (map_of (tc_last_shards t) (chain, sh)) of
                     None \<Rightarrow> False
                   | Some (lhs, rhs) \<Rightarrow> info_seq_no (info lhs) \<le> word_of_int q \<and> word_of_int q \<le> descr_seq_no rhs)
         | LogicalTime address lt \<Rightarrow>
             (case find_min_lt_by_address V t chain address of
                None \<Rightarrow> None
              | Some lhs \<Rightarrow>
                  (case find_max_lt_by_address V t chain address of
                     None \<Rightarrow> None
                   | Some rhs \<Rightarrow>
                       Some (case zip_some lhs rhs of
                               None \<Rightarrow> False
                             | Some (l, r) \<Rightarrow> l \<le> word_of_int lt \<and> word_of_int lt \<le> r)))))"

definition tracked_last_seqno :: "'s TrackedClient \<Rightarrow> i32 option" where
  "tracked_last_seqno t = map_option seqno (tc_last_block t)"

definition tracked_routed :: "bitvec_ops \<Rightarrow> 's TrackedClient routed" where
  "tracked_routed V = \<lparr>
     contains = (\<lambda>t chain criteria. tracked_contains V t chain criteria = Some True),
     contains_not_available = (\<lambda>t chain criteria. tracked_contains V t chain criteria = Some True),
     last_seqno = tracked_last_seqno\<rparr>"

definition tracked_poll_ready :: "('s \<Rightarrow> ('e, unit) res poll) \<Rightarrow> 's TrackedClient \<Rightarrow> ('e, unit) res poll" where
  "tracked_poll_ready inner_ready t = (if tc_last_block t = None then Pending else inner_ready (tracked_inner t))"

interpretation tracked_service: routed_service "tracked_routed std_bitvec" "\<lambda>_. True"
  by unfold_locales (simp add: tracked_routed_def)

section \<open>The search finds the first block\<close>

text \<open>The liteserver has the blocks from \<open>t\<close> on, and answers that a block below is not found.\<close>

definition ls_available_from :: "'c ls_ops \<Rightarrow> i32 \<Rightarrow> i64 \<Rightarrow> i32 \<Rightarrow> bool" where
  "ls_available_from L wc sh t \<longleftrightarrow>
     (\<forall>c n. if t \<le> n
        then \<exists>h b. fst (ls_check_block_available L c (ton_node_block_id_new wc sh n)) = Ok (h, b) \<and>
               seqno (ls_header_id h) = n
        else \<exists>e. fst (ls_check_block_available L c (ton_node_block_id_new wc sh n)) = Err e \<and> block_not_found e)"

definition ls_block_at :: "i32 \<Rightarrow> i32 \<Rightarrow> (ls_err, LiteServerBlockHeader \<times> bytes) res \<Rightarrow> bool" where
  "ls_block_at t n block \<longleftrightarrow>
     (if t \<le> n then \<exists>h b. block = Ok (h, b) \<and> seqno (ls_header_id h) = n else \<exists>e. block = Err e \<and> block_not_found e)"

lemma ls_available_block_at:
  "ls_available_from L wc sh t \<Longrightarrow> ls_block_at t n (fst (ls_check_block_available L c (ton_node_block_id_new wc sh n)))"
  unfolding ls_available_from_def ls_block_at_def by blast

lemma ls_find_loop_finds:
  assumes "ls_available_from L wc sh t"
  shows "1 \<le> lhs \<Longrightarrow> lhs \<le> t \<Longrightarrow> t \<le> rhs \<Longrightarrow> rhs < 2 ^ 30 \<Longrightarrow> lhs \<le> cur \<Longrightarrow>
    cur < rhs \<or> lhs = rhs \<and> cur = rhs \<Longrightarrow> ls_block_at t cur block \<Longrightarrow>
    \<exists>h b suc c'. ls_find_loop L wc sh lhs rhs cur block success c = Some (Inr (t, Ok (h, b), suc), c') \<and>
      seqno (ls_header_id h) = t"
proof (induction "nat (rhs - lhs)" arbitrary: lhs rhs cur block success c rule: less_induct)
  case less
  show ?case
  proof (cases "lhs < rhs")
    case False
    with less.prems have "t = cur" by auto
    with False less.prems show ?thesis by (subst ls_find_loop.simps) (auto simp: ls_block_at_def)
  next
    case True
    define l u where "l = (if t \<le> cur then lhs else cur + 1)" and "u = (if t \<le> cur then cur else rhs)"
    have lu: "1 \<le> l" "l \<le> t" "t \<le> u" "u < 2 ^ 30" "u - l < rhs - lhs"
      using less.prems(1-6) True by (auto simp: l_def u_def)
    let ?k = "(l + u) div 2"
    have k: "l \<le> ?k" "?k < u \<or> l = u \<and> ?k = u" "?k \<noteq> 0" using lu by auto
    have w: "wrap_i32 (cur + 1) = cur + 1" "rust_div (wrap_i32 (l + u)) 2 = ?k"
      using less.prems(1-6) True lu by (auto simp: wrap_simps in_i32_def)
    have m: "(case block of Ok _ \<Rightarrow> Ok (lhs, cur)
        | Err e \<Rightarrow> if block_not_found e then Ok (wrap_i32 (cur + 1), rhs) else Err e) = Ok (l, u)"
      using less.prems(7) w(1) by (auto simp: ls_block_at_def l_def u_def split: if_splits)
    let ?r = "ls_check_block_available L c (ton_node_block_id_new wc sh ?k)"
    have "ls_find_loop L wc sh lhs rhs cur block success c =
        ls_find_loop L wc sh l u ?k (fst ?r) (case fst ?r of Ok b \<Rightarrow> Some b | Err _ \<Rightarrow> success) (snd ?r)"
      using True k(3) w(2) m by (subst ls_find_loop.simps) (simp add: Let_def)
    moreover have "\<exists>h b suc c'. ls_find_loop L wc sh l u ?k (fst ?r) (case fst ?r of Ok b \<Rightarrow> Some b | Err _ \<Rightarrow> success) (snd ?r) =
        Some (Inr (t, Ok (h, b), suc), c') \<and> seqno (ls_header_id h) = t"
      by (rule less.hyps) (use lu k True ls_available_block_at [OF assms, of ?k c] in auto)
    ultimately show ?thesis by simp
  qed
qed

section \<open>Published blocks\<close>

text \<open>A liteserver answers a request that waits for a block with a state that has the block.\<close>

definition waits_for_seqno :: "'c ls_ops \<Rightarrow> bool" where
  "waits_for_seqno L \<longleftrightarrow>
     (\<forall>c w b c'. ls_wait_info L c w = (Ok b, c') \<longrightarrow> wait_seqno (wait_prefix w) \<le> seqno b \<and> in_i32 (seqno b + 1)) \<and>
     (\<forall>c b c'. ls_info L c = (Ok b, c') \<longrightarrow> in_i32 (seqno b + 1))"

lemma last_tracker_turn_later:
  assumes "waits_for_seqno L" and "case current of Some q \<Rightarrow> in_i32 (q + 1) | None \<Rightarrow> True"
    and "last_tracker_turn L current c = (current', published, c')"
  shows "(case published of
        Some b \<Rightarrow> current' = Some (seqno b) \<and> in_i32 (seqno b + 1) \<and> (case current of Some q \<Rightarrow> q < seqno b | None \<Rightarrow> True)
      | None \<Rightarrow> current' = current)"
proof (cases current)
  case None
  then show ?thesis using assms by (fastforce simp: last_tracker_turn_def waits_for_seqno_def split: prod.splits res.splits)
next
  case (Some q)
  then have "wrap_i32 (q + 1) = q + 1" using assms(2) by (simp add: wrap_i32_id)
  with Some assms(1,3) show ?thesis
    by (fastforce simp: last_tracker_turn_def waits_for_seqno_def wait_with_timeout_def split: prod.splits res.splits)
qed

lemma last_tracker_run_increasing:
  assumes "waits_for_seqno L"
  shows "(case current of Some q \<Rightarrow> in_i32 (q + 1) | None \<Rightarrow> True) \<Longrightarrow>
    sorted_wrt (<) (map seqno (last_tracker_run L n current c)) \<and>
    (\<forall>b \<in> set (last_tracker_run L n current c). case current of Some q \<Rightarrow> q < seqno b | None \<Rightarrow> True)"
proof (induction n arbitrary: current c)
  case (Suc n)
  obtain current' published c' where t: "last_tracker_turn L current c = (current', published, c')" by (cases rule: prod_cases3)
  note later = last_tracker_turn_later [OF assms Suc.prems t]
  show ?case
  proof (cases published)
    case None
    with later t Suc show ?thesis by simp
  next
    case (Some b)
    with later have c': "current' = Some (seqno b)" "in_i32 (seqno b + 1)" by auto
    from Suc.IH [of current' c'] c' have "sorted_wrt (<) (map seqno (last_tracker_run L n current' c'))"
      "\<forall>b' \<in> set (last_tracker_run L n current' c'). seqno b < seqno b'" by auto
    with later t Some show ?thesis by (fastforce split: option.splits)
  qed
qed simp

section \<open>Searches of the shards\<close>

text \<open>The searches started for a sequence of received blocks, each with the time it arrived at.\<close>

fun first_shards_run :: "(ShardId \<rightharpoonup> nat) \<Rightarrow> (nat \<times> TonNodeBlockIdExt) list \<Rightarrow> (nat \<times> TonNodeBlockIdExt) list" where
  "first_shards_run timeouts [] = []"
| "first_shards_run timeouts ((now, b) # events) =
     (case first_shards_received timeouts now b of
        (timeouts', started) \<Rightarrow>
          (case started of Some b \<Rightarrow> [(now, b)] | None \<Rightarrow> []) @ first_shards_run timeouts' events)"

definition event_shard :: "nat \<times> TonNodeBlockIdExt \<Rightarrow> ShardId" where
  "event_shard e = (workchain (snd e), shard (snd e))"

lemma first_shards_run_spaced:
  "sorted (map fst events) \<Longrightarrow> (\<forall>sid t. timeouts sid = Some t \<longrightarrow> (\<forall>e \<in> set events. t \<le> fst e)) \<Longrightarrow>
   sorted_wrt (\<lambda>a b. event_shard a = event_shard b \<longrightarrow> fst a + 60 \<le> fst b) (first_shards_run timeouts events) \<and>
   (\<forall>e \<in> set (first_shards_run timeouts events). \<forall>t. timeouts (event_shard e) = Some t \<longrightarrow> t + 60 \<le> fst e)"
proof (induction events arbitrary: timeouts)
  case (Cons e events)
  obtain now b where e: "e = (now, b)" by (cases e)
  let ?sid = "event_shard e"
  show ?case
  proof (cases "\<exists>t. timeouts ?sid = Some t \<and> now - t < 60")
    case True
    then have "first_shards_run timeouts (e # events) = first_shards_run timeouts events"
      using e by (auto simp: first_shards_received_def event_shard_def Let_def)
    moreover have "\<forall>sid t. timeouts sid = Some t \<longrightarrow> (\<forall>e \<in> set events. t \<le> fst e)" using Cons.prems(2) by simp
    ultimately show ?thesis using Cons.IH [of timeouts] Cons.prems(1) by simp
  next
    case False
    then have r: "first_shards_run timeouts (e # events) = e # first_shards_run (timeouts(?sid \<mapsto> now)) events"
      using e by (auto simp: first_shards_received_def event_shard_def Let_def split: option.splits)
    let ?rest = "first_shards_run (timeouts(?sid \<mapsto> now)) events"
    have "\<forall>sid t. (timeouts(?sid \<mapsto> now)) sid = Some t \<longrightarrow> (\<forall>e \<in> set events. t \<le> fst e)"
      using Cons.prems e by auto
    moreover have "sorted (map fst events)" using Cons.prems(1) by simp
    ultimately have ih: "sorted_wrt (\<lambda>a b. event_shard a = event_shard b \<longrightarrow> fst a + 60 \<le> fst b) ?rest"
      "\<And>x t. x \<in> set ?rest \<Longrightarrow> (timeouts(?sid \<mapsto> now)) (event_shard x) = Some t \<Longrightarrow> t + 60 \<le> fst x"
      using Cons.IH [of "timeouts(?sid \<mapsto> now)"] by blast+
    have "fst e + 60 \<le> fst x" if "x \<in> set ?rest" "event_shard e = event_shard x" for x
      using ih(2) [OF that(1), of now] that(2) e by simp
    moreover have "t + 60 \<le> fst x" if "x \<in> set ?rest" "timeouts (event_shard x) = Some t" for x t
    proof (cases "event_shard x = ?sid")
      case True
      then have "t \<le> now" using Cons.prems(2) that(2) e by (metis fst_conv list.set_intros(1))
      with ih(2) [OF that(1), of now] True show ?thesis by simp
    next
      case False
      with ih(2) [OF that(1), of t] that(2) show ?thesis by simp
    qed
    moreover have "t + 60 \<le> now" if "timeouts ?sid = Some t" for t
      using False that Cons.prems(2) e by (metis add.commute fst_conv le_diff_conv2 list.set_intros(1) not_less)
    ultimately show ?thesis unfolding r using ih(1) e by auto
  qed
qed simp

section \<open>Routing by logical time\<close>

definition shards_ok :: "(ShardId \<times> 'h) list \<Rightarrow> bool" where
  "shards_ok shards \<longleftrightarrow> (\<forall>(sid, h) \<in> set shards. shard_ok sid)"

context bitvec_crate
begin

lemma lts_by_address_spec:
  assumes "shards_ok shards" and "length address = 32"
  shows "\<exists>lts. lts_by_address V lt shards chain address = Some lts \<and>
    set lts = {lt h | sid h. (sid, h) \<in> set shards \<and> fst sid = chain \<and> in_shard sid address}"
  using assms(1)
proof (induction shards)
  case (Cons e shards)
  obtain sid h where e: "e = (sid, h)" by (cases e)
  from Cons.prems e have ok: "shard_ok sid" and "shards_ok shards" by (auto simp: shards_ok_def)
  with Cons.IH obtain lts where lts: "lts_by_address V lt shards chain address = Some lts"
    "set lts = {lt h | sid h. (sid, h) \<in> set shards \<and> fst sid = chain \<and> in_shard sid address}" by blast
  show ?case
  proof (cases "fst sid = chain")
    case True
    from ok have w: "word_of_int (snd sid) \<noteq> (0 :: u64)" by (simp add: shard_ok_def)
    then obtain prefix where p: "from_shard_id V (word_of_int (snd sid)) = Some prefix"
      using from_shard_id_prefix by blast
    have m: "matches V prefix address \<longleftrightarrow> in_shard sid address"
      using matches_iff [OF w _ p] assms(2) by (simp add: in_shard_def)
    show ?thesis
    proof (intro exI conjI)
      show "lts_by_address V lt (e # shards) chain address = Some (if in_shard sid address then lt h # lts else lts)"
        using True e lts(1) p m by simp
      show "set (if in_shard sid address then lt h # lts else lts) =
          {lt h | sid h. (sid, h) \<in> set (e # shards) \<and> fst sid = chain \<and> in_shard sid address}"
        using True e lts(2) by (cases sid) auto
    qed
  next
    case False
    with e lts show ?thesis by auto
  qed
qed simp

lemma tracked_contains_lt:
  assumes "chain \<noteq> - 1" and "shards_ok (tc_first_shards t)" "shards_ok (tc_last_shards t)" and "length address = 32"
  shows "tracked_contains V t chain (LogicalTime address lt) = Some (
    (\<exists>sid h. (sid, h) \<in> set (tc_first_shards t) \<and> fst sid = chain \<and> in_shard sid address \<and> info_start_lt (info h) \<le> word_of_int lt) \<and>
    (\<exists>sid s. (sid, s) \<in> set (tc_last_shards t) \<and> fst sid = chain \<and> in_shard sid address \<and> word_of_int lt \<le> descr_end_lt s))"
proof -
  obtain ls where ls: "lts_by_address V (\<lambda>h. info_start_lt (info h)) (tc_first_shards t) chain address = Some ls"
    "set ls = {info_start_lt (info h) | sid h. (sid, h) \<in> set (tc_first_shards t) \<and> fst sid = chain \<and> in_shard sid address}"
    using lts_by_address_spec [OF assms(2,4)] by blast
  obtain rs where rs: "lts_by_address V descr_end_lt (tc_last_shards t) chain address = Some rs"
    "set rs = {descr_end_lt s | sid s. (sid, s) \<in> set (tc_last_shards t) \<and> fst sid = chain \<and> in_shard sid address}"
    using lts_by_address_spec [OF assms(3,4)] by blast
  have "tracked_contains V t chain (LogicalTime address lt) =
      Some ((\<exists>l \<in> set ls. l \<le> word_of_int lt) \<and> (\<exists>r \<in> set rs. word_of_int lt \<le> r))"
    using assms(1) ls(1) rs(1)
    by (cases ls; cases rs) (auto simp: tracked_contains_def find_min_lt_by_address_def find_max_lt_by_address_def
      Min_le_iff Max_ge_iff simp del: Min_insert Max_insert)
  then show ?thesis unfolding ls(2) rs(2) by auto
qed

end

section \<open>The ranges in integers\<close>

definition tracked_ok :: "'s TrackedClient \<Rightarrow> bool" where
  "tracked_ok t \<longleftrightarrow> shards_ok (tc_first_shards t) \<and> shards_ok (tc_last_shards t) \<and>
     (\<forall>h \<in> set_option (tc_first_header t) \<union> set_option (tc_last_header t).
        uint (info_seq_no (info h)) < 2 ^ 31 \<and> uint (info_start_lt (info h)) < 2 ^ 63 \<and> uint (info_end_lt (info h)) < 2 ^ 63) \<and>
     (\<forall>(sid, s) \<in> set (tc_last_shards t). uint (descr_seq_no s) < 2 ^ 31 \<and> uint (descr_end_lt s) < 2 ^ 63)"

definition criteria_ok :: "BlockCriteria \<Rightarrow> bool" where
  "criteria_ok criteria =
     (case criteria of
        Seqno _ q \<Rightarrow> in_i32 q
      | LogicalTime address lt \<Rightarrow> in_i64 lt \<and> length address = 32)"

lemma tracked_ok_headers:
  "tracked_ok t \<Longrightarrow> h \<in> set_option (tc_first_header t) \<union> set_option (tc_last_header t) \<Longrightarrow>
   uint (info_seq_no (info h)) < 2 ^ 31 \<and> uint (info_start_lt (info h)) < 2 ^ 63 \<and> uint (info_end_lt (info h)) < 2 ^ 63"
  by (simp add: tracked_ok_def)

lemma tracked_ok_last:
  "tracked_ok t \<Longrightarrow> (sid, s) \<in> set (tc_last_shards t) \<Longrightarrow> uint (descr_seq_no s) < 2 ^ 31 \<and> uint (descr_end_lt s) < 2 ^ 63"
  by (auto simp: tracked_ok_def)

lemma wrap_i32_small: "uint (x :: u32) < 2 ^ 31 \<Longrightarrow> wrap_i32 (uint x) = uint x"
  by (intro wrap_i32_id) (use uint_ge_0 [of x] in \<open>simp add: in_i32_def, linarith\<close>)

lemma sint_small: "uint (x :: u64) < 2 ^ 63 \<Longrightarrow> sint x = uint x"
  by (use uint_ge_0 [of x] in \<open>simp add: sint_uint signed_take_bit_int_eq_self_iff, linarith\<close>)

lemma word_between_i32:
  assumes "in_i32 q" and "uint (r :: u32) < 2 ^ 31"
  shows "(l :: u32) \<le> word_of_int q \<and> word_of_int q \<le> r \<longleftrightarrow> uint l \<le> q \<and> q \<le> uint r"
proof (cases "0 \<le> q")
  case True
  with assms(1) show ?thesis by (simp add: word_le_def uint_word_of_int in_i32_def)
next
  case False
  with assms have "q mod 2 ^ 32 = q + 2 ^ 32"
    using mod_pos_pos_trivial [of "q + 2 ^ 32" "2 ^ 32"] by (simp add: in_i32_def)
  moreover have "\<not> uint l \<le> q" using False uint_ge_0 [of l] by linarith
  ultimately show ?thesis using assms by (auto simp: word_le_def uint_word_of_int in_i32_def)
qed

lemma word_le_i64: "in_i64 q \<Longrightarrow> 0 \<le> q \<Longrightarrow> (r :: u64) \<le> word_of_int q \<longleftrightarrow> uint r \<le> q"
  by (simp add: word_le_def uint_word_of_int in_i64_def)

lemma word_ge_i64:
  assumes "in_i64 q" and "uint (r :: u64) < 2 ^ 63"
  shows "word_of_int q \<le> r \<longleftrightarrow> 0 \<le> q \<and> q \<le> uint r"
proof (cases "0 \<le> q")
  case True
  with assms(1) show ?thesis by (simp add: word_le_def uint_word_of_int in_i64_def)
next
  case False
  with assms have "q mod 2 ^ 64 = q + 2 ^ 64"
    using mod_pos_pos_trivial [of "q + 2 ^ 64" "2 ^ 64"] by (simp add: in_i64_def)
  with False assms show ?thesis by (auto simp: word_le_def uint_word_of_int in_i64_def)
qed

section \<open>Properties\<close>

text \<open>A liteserver that has the blocks that satisfy \<open>P\<close>.\<close>

definition example_ls_server :: "(i32 \<Rightarrow> bool) \<Rightarrow> i32 ls_ops" where
  "example_ls_server P =
     (let node = (\<lambda>q. \<lparr>workchain = - 1, shard = - 9223372036854775808, seqno = q, node_root_hash = [], node_file_hash = []\<rparr>)
      in \<lparr>ls_info = (\<lambda>c. (Ok (node c), c)),
          ls_wait_info = (\<lambda>c w. let q = max c (max 0 (wait_seqno (wait_prefix w))) in
            if q < 1000 then (Ok (node q), q + 1) else (Err Elapsed, c)),
          ls_lookup = (\<lambda>c r. if P (seqno (ls_lookup_id r)) then (Ok \<lparr>ls_header_id = node (seqno (ls_lookup_id r)), header_proof = []\<rparr>, c)
            else (Err (LiteServerError \<lparr>error_code = 651, error_message = ''not found''\<rparr>), c)),
          ls_block = (\<lambda>c r. (Ok [], c)), ls_block_header = (\<lambda>c r. (Ok [], c)), ls_all_shards = (\<lambda>c r. (Ok [], c)),
          parse_proof = (\<lambda>_. None), parse_proof_prefix = (\<lambda>_. None), parse_shard_hashes = (\<lambda>_. None)\<rparr>)"

text \<open>
  C29. The search for the first block of a liteserver ends, and returns the header of the first block
  the liteserver has, when it starts from a probe between its left end and the last block, the left
  end is not above the first block and the sequence numbers are below \<open>2\<^sup>3\<^sup>0\<close>.
\<close>

theorem find_first_block_header_correct:
  assumes "ls_available_from L (workchain start) (shard start) t"
    and "case_option 1 (\<lambda>l. l) lhs = l" and "case_option (wrap_i32 (seqno start - 200000)) (\<lambda>k. k) cur = k"
    and "1 \<le> l" "l \<le> t" "t \<le> seqno start" "seqno start < 2 ^ 30" "l \<le> k" "k < seqno start"
  shows "\<exists>h c'. find_first_block_header L c start lhs cur = Some (Ok h, c') \<and> seqno (ls_header_id h) = t"
proof -
  let ?r = "ls_check_block_available L c (ton_node_block_id_new (workchain start) (shard start) k)"
  obtain h b suc c' where "ls_find_loop L (workchain start) (shard start) l (seqno start) k (fst ?r) None (snd ?r) =
      Some (Inr (t, Ok (h, b), suc), c')" and "seqno (ls_header_id h) = t"
    using ls_find_loop_finds [OF assms(1), of l "seqno start" k "fst ?r" None "snd ?r"]
      ls_available_block_at [OF assms(1), of k c] assms(4-9) by auto
  with assms(2,3) show ?thesis by (auto simp: find_first_block_header_def split_beta)
qed

theorem find_first_block_header_correct_witness:
  "\<exists>h c'. find_first_block_header (example_ls_server (\<lambda>q. 5 \<le> q)) 0
     \<lparr>workchain = - 1, shard = - 9223372036854775808, seqno = 100, node_root_hash = [], node_file_hash = []\<rparr>
     (Some 1) (Some 50) = Some (Ok h, c') \<and> seqno (ls_header_id h) = 5"
proof -
  have "ls_available_from (example_ls_server (\<lambda>q. 5 \<le> q)) (- 1) (- 9223372036854775808) 5"
    by (simp add: ls_available_from_def ls_check_block_available_def example_ls_server_def Let_def ls_lookup_seqno_def
      ton_node_block_id_new_def)
  then show ?thesis
    by (intro find_first_block_header_correct [where l = 1 and k = 50]) simp_all
qed

text \<open>
  C34. The tracker of the last masterchain block publishes blocks with strictly increasing sequence
  numbers, whatever requests fail on the way, when the liteserver answers a request that waits for a
  block with a state that has the block, and never with the last 32-bit sequence number.
\<close>

theorem last_tracker_publishes_increasing:
  assumes "waits_for_seqno L"
  shows "sorted_wrt (<) (map seqno (last_tracker_run L n None c))"
  using last_tracker_run_increasing [OF assms, of None n c] by simp

text \<open>The liteserver of the example has the blocks below 1000 and fails every third request.\<close>

definition example_wait_server :: "i32 ls_ops" where
  "example_wait_server =
     (let node = (\<lambda>q. \<lparr>workchain = - 1, shard = - 9223372036854775808, seqno = q, node_root_hash = [], node_file_hash = []\<rparr>)
      in (example_ls_server (\<lambda>q. 5 \<le> q))\<lparr>
          ls_info := (\<lambda>c. if 0 \<le> c \<and> c < 1000 \<and> c mod 3 \<noteq> 0 then (Ok (node c), c + 1) else (Err Elapsed, c + 1)),
          ls_wait_info := (\<lambda>c w. let q = max c (wait_seqno (wait_prefix w)) in
            if 0 \<le> q \<and> q < 1000 \<and> c mod 3 \<noteq> 0 then (Ok (node q), c + 1) else (Err Elapsed, c + 1))\<rparr>)"

theorem last_tracker_publishes_increasing_witness:
  "map seqno (last_tracker_run example_wait_server 7 None 3) = [4, 5, 7, 8] \<and>
   sorted_wrt (<) (map seqno (last_tracker_run example_wait_server 7 None 3))"
proof -
  have "waits_for_seqno example_wait_server"
    by (auto simp: waits_for_seqno_def example_wait_server_def Let_def in_i32_def split: if_splits)
  note inc = last_tracker_publishes_increasing [OF this, of 7 3]
  have "map seqno (last_tracker_run example_wait_server 7 None 3) = [4, 5, 7, 8]"
    by (simp add: eval_nat_numeral last_tracker_turn_def example_wait_server_def wait_with_timeout_def Let_def wrap_i32_def)
  with inc show ?thesis by simp
qed

text \<open>
  C28. A tracked client routes by the integer ranges its trackers report, and never panics. A
  masterchain request is answered from the two masterchain headers: the sequence number lies between
  theirs, or the logical time between the start of the first and the end of the last. A request by
  sequence number in another chain lies between the first header and the last description of exactly
  the requested shard; one by logical time is answered when some shard of the chain that contains the
  account starts no later and some shard that contains it ends no earlier. So the casts between
  signed and unsigned numbers, which differ in the branches, never misroute, negative requests
  included. This holds when no tracked shard identifier is 0, when the tracked sequence numbers are below
  \<open>2\<^sup>3\<^sup>1\<close> and logical times below \<open>2\<^sup>6\<^sup>3\<close>, and for 32-byte addresses.
\<close>

theorem tracked_contains_spec:
  assumes "bitvec_crate V" and "tracked_ok t" and "criteria_ok criteria"
  shows "tracked_contains V t chain criteria = Some (
    case criteria of
      Seqno sh q \<Rightarrow>
        if chain = - 1 then
          \<exists>f l. tc_first_header t = Some f \<and> tc_last_header t = Some l \<and>
            uint (info_seq_no (info f)) \<le> q \<and> q \<le> uint (info_seq_no (info l))
        else
          \<exists>f l. map_of (tc_first_shards t) (chain, sh) = Some f \<and> map_of (tc_last_shards t) (chain, sh) = Some l \<and>
            uint (info_seq_no (info f)) \<le> q \<and> q \<le> uint (descr_seq_no l)
    | LogicalTime address lt \<Rightarrow>
        if chain = - 1 then
          \<exists>f l. tc_first_header t = Some f \<and> tc_last_header t = Some l \<and>
            uint (info_start_lt (info f)) \<le> lt \<and> lt \<le> uint (info_end_lt (info l))
        else
          (\<exists>sid f. (sid, f) \<in> set (tc_first_shards t) \<and> fst sid = chain \<and> in_shard sid address \<and>
             uint (info_start_lt (info f)) \<le> lt) \<and>
          (\<exists>sid l. (sid, l) \<in> set (tc_last_shards t) \<and> fst sid = chain \<and> in_shard sid address \<and>
             lt \<le> uint (descr_end_lt l)))"
proof (cases criteria)
  case (Seqno sh q)
  with assms(3) have q: "in_i32 q" by (simp add: criteria_ok_def)
  show ?thesis
  proof (cases "chain = - 1")
    case True
    with Seqno show ?thesis using tracked_ok_headers [OF assms(2)]
      by (cases "tc_first_header t"; cases "tc_last_header t") (auto simp: tracked_contains_def wrap_i32_small)
  next
    case False
    with Seqno q show ?thesis using tracked_ok_last [OF assms(2) map_of_SomeD]
      by (cases "map_of (tc_first_shards t) (chain, sh)"; cases "map_of (tc_last_shards t) (chain, sh)")
        (auto simp: tracked_contains_def word_between_i32)
  qed
next
  case (LogicalTime address lt)
  with assms(3) have lt: "in_i64 lt" "length address = 32" by (simp_all add: criteria_ok_def)
  show ?thesis
  proof (cases "chain = - 1")
    case True
    with LogicalTime show ?thesis using tracked_ok_headers [OF assms(2)]
      by (cases "tc_first_header t"; cases "tc_last_header t") (auto simp: tracked_contains_def sint_small)
  next
    case False
    have last: "word_of_int lt \<le> descr_end_lt l \<longleftrightarrow> 0 \<le> lt \<and> lt \<le> uint (descr_end_lt l)"
      if "(sid, l) \<in> set (tc_last_shards t)" for sid l
      using word_ge_i64 [OF lt(1)] tracked_ok_last [OF assms(2) that] by simp
    have first: "info_start_lt (info f) \<le> word_of_int lt \<longleftrightarrow> uint (info_start_lt (info f)) \<le> lt" if "0 \<le> lt" for f
      using word_le_i64 [OF lt(1) that] .
    have neg: "\<not> uint (info_start_lt (info f)) \<le> lt" if "\<not> 0 \<le> lt" for f
      using that uint_ge_0 [of "info_start_lt (info f)"] by linarith
    have sh: "shards_ok (tc_first_shards t)" "shards_ok (tc_last_shards t)" using assms(2) by (simp_all add: tracked_ok_def)
    show ?thesis
      unfolding LogicalTime bitvec_crate.tracked_contains_lt [OF assms(1) False sh lt(2)]
      by (cases "0 \<le> lt") (simp_all add: False first neg last cong: conj_cong)
  qed
qed

definition example_tracked :: "unit TrackedClient" where
  "example_tracked = (tracked_new ())\<lparr>
     tc_first_header := Some \<lparr>global_id = - 239, info = example_info\<lparr>info_seq_no := 3\<rparr>\<rparr>,
     tc_last_header := Some \<lparr>global_id = - 239, info = example_info\<lparr>info_seq_no := 6\<rparr>\<rparr>,
     tc_first_shards := [((0, 1), \<lparr>global_id = - 239, info = example_info\<lparr>info_seq_no := 2\<rparr>\<rparr>)],
     tc_last_shards := [((0, 1), example_shard)]\<rparr>"

theorem tracked_contains_spec_witness:
  "map (\<lambda>q. tracked_contains std_bitvec example_tracked (- 1) (Seqno 1 q)) [2, 3, 6, 7] = map Some [False, True, True, False]
   \<and> map (\<lambda>q. tracked_contains std_bitvec example_tracked 0 (Seqno 1 q)) [- 1, 1, 2, 8, 9] =
       map Some [False, False, True, True, False]
   \<and> tracked_contains std_bitvec example_tracked 1 (LogicalTime (replicate 32 0) 5) = Some False"
proof -
  have ok: "tracked_ok example_tracked"
    by (simp add: tracked_ok_def example_tracked_def tracked_new_def shards_ok_def shard_ok_def example_shard_def example_info_def)
  have sq: "criteria_ok (Seqno 1 q)" if "q \<in> {- 1 .. 9}" for q using that by (simp add: criteria_ok_def in_i32_def)
  have lt: "criteria_ok (LogicalTime (replicate 32 0) 5)" by (simp add: criteria_ok_def in_i64_def)
  note spec = tracked_contains_spec [OF std_bits.bitvec_crate_axioms ok]
  show ?thesis
    by (simp add: spec sq lt) (auto simp: example_tracked_def tracked_new_def example_shard_def example_info_def)
qed

text \<open>
  C35. However often blocks of a shard are announced, the tracker of the first blocks starts at most
  one search for the shard in any 60 seconds.
\<close>

theorem shard_searches_throttled:
  assumes "sorted (map fst events)"
  shows "sorted_wrt (\<lambda>a b. event_shard a = event_shard b \<longrightarrow> fst a + 60 \<le> fst b) (first_shards_run Map.empty events)"
  using first_shards_run_spaced [OF assms, of Map.empty] by simp

definition example_event :: "nat \<Rightarrow> nat \<times> TonNodeBlockIdExt" where
  "example_event now = (now, \<lparr>workchain = 0, shard = 1, seqno = 1, node_root_hash = [], node_file_hash = []\<rparr>)"

theorem shard_searches_throttled_witness:
  "map fst (first_shards_run Map.empty (map example_event [0, 10, 59, 60, 130])) = [0, 60, 130] \<and>
   sorted_wrt (\<lambda>a b. event_shard a = event_shard b \<longrightarrow> fst a + 60 \<le> fst b)
     (first_shards_run Map.empty (map example_event [0, 10, 59, 60, 130]))"
  using shard_searches_throttled [of "map example_event [0, 10, 59, 60, 130]"]
  by (simp add: example_event_def first_shards_received_def Let_def)

end
