(* ===== verification/Tonlib_Sys.thy ===== *)
theory Tonlib_Sys
  imports Address
begin

text \<open>
  The wrapper of the C libraries, \<^verbatim>\<open>tonlibjson-sys\<close>: \<^verbatim>\<open>tonlibjson.rs\<close> and
  \<^verbatim>\<open>tonemulator.rs\<close>. The exported C functions are fields of a record, a null pointer is
  \<open>None\<close>, and a call may change the object it is made on. The strings that cross the boundary are
  sequences of bytes: what the wrapper checks of them on the way in (no zero byte) and on the way
  out (UTF-8) is written out as the standard library does it.
\<close>

section \<open>UTF-8 in the standard library\<close>

text \<open>The number of bytes a lead byte announces after itself, and the range of the first of them.\<close>

definition utf8_lead :: "nat \<Rightarrow> (nat \<times> nat \<times> nat) option" where
  "utf8_lead b =
     (if b < 0x80 then Some (0, 0x80, 0xBF)
      else if 0xC2 \<le> b \<and> b \<le> 0xDF then Some (1, 0x80, 0xBF)
      else if b = 0xE0 then Some (2, 0xA0, 0xBF)
      else if b = 0xED then Some (2, 0x80, 0x9F)
      else if 0xE1 \<le> b \<and> b \<le> 0xEF then Some (2, 0x80, 0xBF)
      else if b = 0xF0 then Some (3, 0x90, 0xBF)
      else if 0xF1 \<le> b \<and> b \<le> 0xF3 then Some (3, 0x80, 0xBF)
      else if b = 0xF4 then Some (3, 0x80, 0x8F)
      else None)"

text \<open>How many of the announced bytes are there.\<close>

fun utf8_tail :: "nat \<Rightarrow> nat \<Rightarrow> nat \<Rightarrow> string \<Rightarrow> nat" where
  "utf8_tail lo hi (Suc n) (c # cs) =
     (if lo \<le> of_char c \<and> of_char c \<le> hi then Suc (utf8_tail 0x80 0xBF n cs) else 0)"
| "utf8_tail lo hi _ _ = 0"

text \<open>
  The character at the head of a string: complete with \<open>n\<close> bytes after the first, or a faulty
  sequence with \<open>n\<close> bytes after the first, which is incomplete when the string ends there.
\<close>

datatype utf8_head = Complete nat | Faulty nat bool

definition utf8_head :: "char \<Rightarrow> string \<Rightarrow> utf8_head" where
  "utf8_head c cs =
     (case utf8_lead (of_char c) of
        None \<Rightarrow> Faulty 0 False
      | Some (n, lo, hi) \<Rightarrow>
          (let k = utf8_tail lo hi n cs in
           if k = n then Complete n else Faulty k (length cs = k)))"

fun valid_utf8 :: "string \<Rightarrow> bool" where
  "valid_utf8 [] = True"
| "valid_utf8 (c # cs) = (case utf8_head c cs of Complete n \<Rightarrow> valid_utf8 (drop n cs) | Faulty _ _ \<Rightarrow> False)"

text \<open>\<open>to_str\<close> of a C string, with the message of \<open>Utf8Error\<close>.\<close>

fun from_utf8 :: "nat \<Rightarrow> string \<Rightarrow> (string, unit) res" where
  "from_utf8 i [] = Ok ()"
| "from_utf8 i (c # cs) =
     (case utf8_head c cs of
        Complete n \<Rightarrow> from_utf8 (Suc (i + n)) (drop n cs)
      | Faulty n True \<Rightarrow> Err (''incomplete utf-8 byte sequence from index '' @ show_nat i)
      | Faulty n False \<Rightarrow>
          Err (''invalid utf-8 sequence of '' @ show_nat (Suc n) @ '' bytes from index '' @ show_nat i))"

definition to_str :: "string \<Rightarrow> (string, string) res" where
  "to_str s = res_bind (from_utf8 0 s) (\<lambda>_. Ok s)"

text \<open>\<open>to_string_lossy\<close>: every faulty sequence becomes one replacement character.\<close>

definition replacement :: string where
  "replacement = [CHR 0xEF, CHR 0xBF, CHR 0xBD]"

fun to_string_lossy :: "string \<Rightarrow> string" where
  "to_string_lossy [] = []"
| "to_string_lossy (c # cs) =
     (case utf8_head c cs of
        Complete n \<Rightarrow> c # take n cs @ to_string_lossy (drop n cs)
      | Faulty n _ \<Rightarrow> replacement @ to_string_lossy (drop n cs))"

section \<open>Strings that cross the boundary\<close>

text \<open>\<open>CString::new\<close>\<close>

definition c_string :: "string \<Rightarrow> (string, string) res" where
  "c_string s =
     (if CHR 0x00 \<in> set s
      then Err (''nul byte found in provided data at position: '' @
        show_nat (length (takeWhile (\<lambda>c. c \<noteq> CHR 0x00) s)))
      else Ok s)"

text \<open>A response of an emulator, copied before its buffer is freed.\<close>

definition c_response :: "string option \<Rightarrow> (string, string) res" where
  "c_response ptr = (case ptr of None \<Rightarrow> Err ''pointer is null'' | Some s \<Rightarrow> Ok (to_string_lossy s))"

lemma utf8_tail_le: "utf8_tail lo hi n cs \<le> n \<and> utf8_tail lo hi n cs \<le> length cs"
  by (induction lo hi n cs rule: utf8_tail.induct) auto

lemma utf8_tail_take: "utf8_tail lo hi n cs = n \<Longrightarrow> utf8_tail lo hi n (take n cs @ ds) = n"
  by (induction lo hi n cs rule: utf8_tail.induct) (auto split: if_splits)

lemma utf8_head_complete: "utf8_head c cs = Complete n \<Longrightarrow> utf8_head c (take n cs @ ds) = Complete n"
  by (auto simp: utf8_head_def Let_def utf8_tail_take split: option.splits if_splits)

lemma utf8_head_length:
  assumes "utf8_head c cs = Complete n"
  shows "n \<le> length cs"
proof -
  from assms obtain lo hi where "utf8_tail lo hi n cs = n"
    by (auto simp: utf8_head_def Let_def split: option.splits if_splits)
  with utf8_tail_le [of lo hi n cs] show ?thesis by simp
qed

lemma valid_replacement: "valid_utf8 (replacement @ s) \<longleftrightarrow> valid_utf8 s"
  by (simp add: replacement_def utf8_head_def utf8_lead_def Let_def numeral_2_eq_2)

lemma valid_lossy: "valid_utf8 (to_string_lossy s)"
proof (induction s rule: to_string_lossy.induct)
  case (2 c cs)
  show ?case
  proof (cases "utf8_head c cs")
    case (Complete n)
    with utf8_head_length [OF Complete] 2(1) [OF Complete] show ?thesis
      by (simp add: utf8_head_complete)
  next
    case (Faulty n e)
    with 2(2) [OF Faulty] show ?thesis by (simp add: valid_replacement)
  qed
qed simp

lemma lossy_valid: "valid_utf8 s \<Longrightarrow> to_string_lossy s = s"
  by (induction s rule: to_string_lossy.induct) (auto split: utf8_head.splits)

lemma from_utf8_ok: "from_utf8 i s = Ok () \<longleftrightarrow> valid_utf8 s"
  by (induction i s rule: from_utf8.induct) (auto split: utf8_head.splits bool.splits)

lemma to_str_ok: "to_str s = Ok t \<longleftrightarrow> t = s \<and> valid_utf8 s"
  by (auto simp: to_str_def from_utf8_ok)

section \<open>The client of tonlib\<close>

record 'p tonlib_ops =
  tonlib_client_json_create :: 'p
  tonlib_client_json_send :: "'p \<Rightarrow> string \<Rightarrow> 'p"
  tonlib_client_json_execute :: "'p \<Rightarrow> string \<Rightarrow> string option \<times> 'p"
  tonlib_client_json_receive :: "'p \<Rightarrow> string option \<times> 'p"

text \<open>The pointer of \<open>create\<close> is taken to be not null.\<close>

definition sys_new :: "'p tonlib_ops \<Rightarrow> 'p" where
  "sys_new L = tonlib_client_json_create L"

definition sys_send :: "'p tonlib_ops \<Rightarrow> 'p \<Rightarrow> string \<Rightarrow> (string, unit) res \<times> 'p" where
  "sys_send L p request =
     (case c_string request of
        Err e \<Rightarrow> (Err e, p)
      | Ok req \<Rightarrow> (Ok (), tonlib_client_json_send L p req))"

definition sys_receive :: "'p tonlib_ops \<Rightarrow> 'p \<Rightarrow> (string, string) res \<times> 'p" where
  "sys_receive L p =
     (case tonlib_client_json_receive L p of
        (None, p) \<Rightarrow> (Err ''null received'', p)
      | (Some response, p) \<Rightarrow> (to_str response, p))"

definition sys_execute :: "'p tonlib_ops \<Rightarrow> 'p \<Rightarrow> string \<Rightarrow> (string, string) res \<times> 'p" where
  "sys_execute L p request =
     (case c_string request of
        Err e \<Rightarrow> (Err e, p)
      | Ok req \<Rightarrow>
          (case tonlib_client_json_execute L p req of
             (None, p) \<Rightarrow> (Err ''null received'', p)
           | (Some response, p) \<Rightarrow> (to_str response, p)))"

section \<open>The TVM emulator\<close>

record 'm tvm_lib =
  tvm_emulator_create :: "string \<Rightarrow> string \<Rightarrow> i32 \<Rightarrow> 'm option"
  tvm_emulator_set_libraries :: "'m \<Rightarrow> string \<Rightarrow> bool \<times> 'm"
  tvm_emulator_set_gas_limit :: "'m \<Rightarrow> i64 \<Rightarrow> bool \<times> 'm"
  tvm_emulator_set_c7 :: "'m \<Rightarrow> string \<Rightarrow> u32 \<Rightarrow> u64 \<Rightarrow> string \<Rightarrow> string \<Rightarrow> bool \<times> 'm"
  tvm_emulator_run_get_method :: "'m \<Rightarrow> i32 \<Rightarrow> string \<Rightarrow> string option \<times> 'm"
  tvm_emulator_send_external_message :: "'m \<Rightarrow> string \<Rightarrow> string option \<times> 'm"
  tvm_emulator_send_internal_message :: "'m \<Rightarrow> string \<Rightarrow> u64 \<Rightarrow> string option \<times> 'm"
  tvm_emulator_emulate_run_method :: "u32 \<Rightarrow> string \<Rightarrow> i64 \<Rightarrow> string option"

definition TvmEmulator_new :: "'m tvm_lib \<Rightarrow> string \<Rightarrow> string \<Rightarrow> i32 \<Rightarrow> (string, 'm) res" where
  "TvmEmulator_new L code data vm_log_verbosity =
     res_bind (c_string code) (\<lambda>code.
     res_bind (c_string data) (\<lambda>data.
       case tvm_emulator_create L code data vm_log_verbosity of
         None \<Rightarrow> Err ''pointer is null''
       | Some pointer \<Rightarrow> Ok pointer))"

definition TvmEmulator_set_libraries :: "'m tvm_lib \<Rightarrow> 'm \<Rightarrow> string \<Rightarrow> (string, bool) res \<times> 'm" where
  "TvmEmulator_set_libraries L p libs_boc =
     (case c_string libs_boc of
        Err e \<Rightarrow> (Err e, p)
      | Ok req \<Rightarrow> apfst Ok (tvm_emulator_set_libraries L p req))"

definition TvmEmulator_set_gas_limit :: "'m tvm_lib \<Rightarrow> 'm \<Rightarrow> i64 \<Rightarrow> bool \<times> 'm" where
  "TvmEmulator_set_gas_limit L p gas_limit = tvm_emulator_set_gas_limit L p gas_limit"

definition TvmEmulator_set_c7 ::
    "'m tvm_lib \<Rightarrow> 'm \<Rightarrow> string \<Rightarrow> u32 \<Rightarrow> u64 \<Rightarrow> string \<Rightarrow> string \<Rightarrow> (string, bool) res \<times> 'm" where
  "TvmEmulator_set_c7 L p address unixtime balance rand_seed_hex config =
     (case res_bind (c_string address) (\<lambda>address.
           res_bind (c_string rand_seed_hex) (\<lambda>rand_seed_hex.
           res_bind (c_string config) (\<lambda>config. Ok (address, rand_seed_hex, config)))) of
        Err e \<Rightarrow> (Err e, p)
      | Ok (address, rand_seed_hex, config) \<Rightarrow>
          apfst Ok (tvm_emulator_set_c7 L p address unixtime balance rand_seed_hex config))"

definition TvmEmulator_run_get_method ::
    "'m tvm_lib \<Rightarrow> 'm \<Rightarrow> i32 \<Rightarrow> string \<Rightarrow> (string, string) res \<times> 'm" where
  "TvmEmulator_run_get_method L p method_id stack_boc =
     (case c_string stack_boc of
        Err e \<Rightarrow> (Err e, p)
      | Ok stack_boc \<Rightarrow> apfst c_response (tvm_emulator_run_get_method L p method_id stack_boc))"

definition TvmEmulator_send_external_message ::
    "'m tvm_lib \<Rightarrow> 'm \<Rightarrow> string \<Rightarrow> (string, string) res \<times> 'm" where
  "TvmEmulator_send_external_message L p message_body_boc =
     (case c_string message_body_boc of
        Err e \<Rightarrow> (Err e, p)
      | Ok body \<Rightarrow> apfst c_response (tvm_emulator_send_external_message L p body))"

definition TvmEmulator_send_internal_message ::
    "'m tvm_lib \<Rightarrow> 'm \<Rightarrow> string \<Rightarrow> u64 \<Rightarrow> (string, string) res \<times> 'm" where
  "TvmEmulator_send_internal_message L p message_body_boc amount =
     (case c_string message_body_boc of
        Err e \<Rightarrow> (Err e, p)
      | Ok body \<Rightarrow> apfst c_response (tvm_emulator_send_internal_message L p body amount))"

definition emulate_run_method :: "'m tvm_lib \<Rightarrow> string \<Rightarrow> i64 \<Rightarrow> (string, string) res" where
  "emulate_run_method L params_boc gas_limit =
     (let len = of_nat (length params_boc) in
      res_bind (c_string params_boc) (\<lambda>params_boc.
        c_response (tvm_emulator_emulate_run_method L len params_boc gas_limit)))"

section \<open>The transaction emulator\<close>

record 'm tx_lib =
  transaction_emulator_create :: "string \<Rightarrow> i32 \<Rightarrow> 'm option"
  transaction_emulator_emulate_transaction :: "'m \<Rightarrow> string \<Rightarrow> string \<Rightarrow> string option \<times> 'm"
  transaction_emulator_set_unixtime :: "'m \<Rightarrow> u32 \<Rightarrow> bool \<times> 'm"
  transaction_emulator_set_lt :: "'m \<Rightarrow> u64 \<Rightarrow> bool \<times> 'm"
  transaction_emulator_set_rand_seed :: "'m \<Rightarrow> string \<Rightarrow> bool \<times> 'm"
  transaction_emulator_set_ignore_chksig :: "'m \<Rightarrow> bool \<Rightarrow> bool \<times> 'm"
  transaction_emulator_set_config :: "'m \<Rightarrow> string \<Rightarrow> bool \<times> 'm"
  transaction_emulator_set_libs :: "'m \<Rightarrow> string \<Rightarrow> bool \<times> 'm"

definition TransactionEmulator_new :: "'m tx_lib \<Rightarrow> string \<Rightarrow> i32 \<Rightarrow> (string, 'm) res" where
  "TransactionEmulator_new L config_boc vm_log_verbosity =
     res_bind (c_string config_boc) (\<lambda>config_boc.
       case transaction_emulator_create L config_boc vm_log_verbosity of
         None \<Rightarrow> Err ''pointer is null''
       | Some pointer \<Rightarrow> Ok pointer)"

definition TransactionEmulator_emulate ::
    "'m tx_lib \<Rightarrow> 'm \<Rightarrow> string \<Rightarrow> string \<Rightarrow> (string, string) res \<times> 'm" where
  "TransactionEmulator_emulate L p shard_account_boc message_boc =
     (case res_bind (c_string shard_account_boc) (\<lambda>a. res_bind (c_string message_boc) (\<lambda>m. Ok (a, m))) of
        Err e \<Rightarrow> (Err e, p)
      | Ok (a, m) \<Rightarrow> apfst c_response (transaction_emulator_emulate_transaction L p a m))"

definition TransactionEmulator_set_unixtime :: "'m tx_lib \<Rightarrow> 'm \<Rightarrow> u32 \<Rightarrow> bool \<times> 'm" where
  "TransactionEmulator_set_unixtime L p unixtime = transaction_emulator_set_unixtime L p unixtime"

definition TransactionEmulator_set_lt :: "'m tx_lib \<Rightarrow> 'm \<Rightarrow> u64 \<Rightarrow> bool \<times> 'm" where
  "TransactionEmulator_set_lt L p lt = transaction_emulator_set_lt L p lt"

definition TransactionEmulator_set_ignore_chksig :: "'m tx_lib \<Rightarrow> 'm \<Rightarrow> bool \<Rightarrow> bool \<times> 'm" where
  "TransactionEmulator_set_ignore_chksig L p b = transaction_emulator_set_ignore_chksig L p b"

definition TransactionEmulator_set_rand_seed :: "'m tx_lib \<Rightarrow> 'm \<Rightarrow> string \<Rightarrow> (string, bool) res \<times> 'm" where
  "TransactionEmulator_set_rand_seed L p seed =
     (case c_string seed of
        Err e \<Rightarrow> (Err e, p)
      | Ok seed \<Rightarrow> apfst Ok (transaction_emulator_set_rand_seed L p seed))"

definition TransactionEmulator_set_config :: "'m tx_lib \<Rightarrow> 'm \<Rightarrow> string \<Rightarrow> (string, bool) res \<times> 'm" where
  "TransactionEmulator_set_config L p config =
     (case c_string config of
        Err e \<Rightarrow> (Err e, p)
      | Ok config \<Rightarrow> apfst Ok (transaction_emulator_set_config L p config))"

definition TransactionEmulator_set_libs :: "'m tx_lib \<Rightarrow> 'm \<Rightarrow> string \<Rightarrow> (string, bool) res \<times> 'm" where
  "TransactionEmulator_set_libs L p libs =
     (case c_string libs of
        Err e \<Rightarrow> (Err e, p)
      | Ok libs \<Rightarrow> apfst Ok (transaction_emulator_set_libs L p libs))"

section \<open>What crosses the boundary\<close>

text \<open>The strings of the wrapper's results: Rust's \<open>String\<close> and \<open>str\<close> must be valid UTF-8.\<close>

definition utf8_result :: "(string, string) res \<Rightarrow> bool" where
  "utf8_result r \<longleftrightarrow> (case r of Ok s \<Rightarrow> valid_utf8 s | Err _ \<Rightarrow> True)"

lemma c_response_utf8: "utf8_result (c_response ptr)"
  by (auto simp: c_response_def utf8_result_def valid_lossy split: option.splits)

lemma to_str_utf8: "utf8_result (to_str s)"
  by (auto simp: utf8_result_def to_str_ok split: res.splits)

lemma utf8_result_Err [simp]: "utf8_result (Err e)"
  by (simp add: utf8_result_def)

lemma utf8_result_bind: "(\<And>a. utf8_result (f a)) \<Longrightarrow> utf8_result (res_bind r f)"
  by (cases r) auto

text \<open>
  Whatever bytes the C libraries return, every string the wrapper hands to Rust code is valid
  UTF-8: the responses of both emulators are repaired, those of tonlib are refused when they are
  not.
\<close>

lemma responses_are_utf8:
  "utf8_result (fst (TvmEmulator_run_get_method L p method_id stack))
   \<and> utf8_result (fst (TvmEmulator_send_external_message L p body))
   \<and> utf8_result (fst (TvmEmulator_send_internal_message L p body amount))
   \<and> utf8_result (emulate_run_method L params gas)
   \<and> utf8_result (fst (TransactionEmulator_emulate T q account message))
   \<and> utf8_result (fst (sys_receive C c))
   \<and> utf8_result (fst (sys_execute C c request))"
  by (auto simp: TvmEmulator_run_get_method_def TvmEmulator_send_external_message_def
      TvmEmulator_send_internal_message_def TransactionEmulator_emulate_def emulate_run_method_def
      sys_receive_def sys_execute_def c_response_utf8 to_str_utf8
      split: res.splits prod.splits option.splits intro!: utf8_result_bind)

text \<open>A string with a zero byte never reaches the library: the call fails and changes nothing.\<close>

lemma c_string_ok [simp]: "CHR 0x00 \<notin> set s \<Longrightarrow> c_string s = Ok s"
  by (simp add: c_string_def)

lemma c_string_Ok_iff: "c_string s = Ok t \<longleftrightarrow> CHR 0x00 \<notin> set s \<and> t = s"
  by (auto simp: c_string_def)

lemma nul_byte_stops_call:
  assumes "CHR 0x00 \<in> set s"
  shows "\<exists>e. sys_send L p s = (Err e, p) \<and> sys_execute L p s = (Err e, p)"
  using assms by (auto simp: c_string_def sys_send_def sys_execute_def)

end
