(* ===== verification/Emulators.thy ===== *)
theory Emulators
  imports Tonlib_Sys
begin

text \<open>
  The emulator services of \<^verbatim>\<open>tvm-grpc\<close>: \<^verbatim>\<open>tvm_emulator.rs\<close>, \<^verbatim>\<open>transaction_emulator.rs\<close>,
  \<^verbatim>\<open>tvm.rs\<close> and \<^verbatim>\<open>threaded.rs\<close>. One thread owns the emulators of all streams and handles their
  commands one after the other; every stream ends with a command that drops its emulator. The C
  functions behind \<^verbatim>\<open>tonlibjson-sys\<close>, the JSON decoder and the bounded cache of configurations
  are parameters. Whether a response can be delivered, that is whether the stream still waits for
  it, is part of the command.
\<close>

section \<open>Results\<close>

datatype Status = Internal string | FailedPrecondition string

record 'a TvmResult =
  tvm_success :: bool
  tvm_error :: "string option"
  tvm_data :: "'a option"

definition tvm_result :: "'a \<Rightarrow> 'a TvmResult \<Rightarrow> (Status, 'a) res" where
  "tvm_result dflt v =
     (if tvm_success v then Ok (case tvm_data v of Some d \<Rightarrow> d | None \<Rightarrow> dflt)
      else Err (Internal (case tvm_error v of Some e \<Rightarrow> e | None \<Rightarrow> ''ambiguous response'')))"

definition internal_err :: "(string, 'a) res \<Rightarrow> (Status, 'a) res" where
  "internal_err r = (case r of Ok a \<Rightarrow> Ok a | Err e \<Rightarrow> Err (Internal e))"

definition not_initialized :: "(Status, 'a) res" where
  "not_initialized = Err (Internal ''emulator not initialized'')"

record 'k cache_ops =
  cache_get :: "'k \<Rightarrow> string \<Rightarrow> string option \<times> 'k"
  cache_insert :: "'k \<Rightarrow> string \<Rightarrow> string \<Rightarrow> 'k"

text \<open>The configuration of a request: given, or taken from the cache when it is empty and has a key.\<close>

definition cached_config :: "'k cache_ops \<Rightarrow> 'k \<Rightarrow> string option \<Rightarrow> string \<Rightarrow> (Status, string) res \<times> 'k" where
  "cached_config K k key config =
     (case key of
        None \<Rightarrow> (Ok config, k)
      | Some key \<Rightarrow>
          if config = [] then
            (case cache_get K k key of
               (Some c, k) \<Rightarrow> (Ok c, k)
             | (None, k) \<Rightarrow> (Err (FailedPrecondition ''config cache miss''), k))
          else (Ok config, cache_insert K k key config))"

section \<open>The TVM emulator\<close>

record ('m, 'g, 'x, 'i) tvm_ops =
  tvm_c :: "'m tvm_lib"
  json_run_get_method :: "string \<Rightarrow> (string, 'g TvmResult) res"
  json_send_external :: "string \<Rightarrow> (string, 'x TvmResult) res"
  json_send_internal :: "string \<Rightarrow> (string, 'i TvmResult) res"
  default_get :: 'g
  default_external :: 'x
  default_internal :: 'i

datatype tvm_request =
    Prepare string string i32
  | RunGetMethod i32 string
  | SendExternalMessage string
  | SendInternalMessage string u64
  | SetLibraries string
  | SetGasLimit i64
  | SetC7 string u32 u64 string "string option" string

datatype ('g, 'x, 'i) tvm_response =
    PrepareResponse bool
  | RunGetMethodResponse 'g
  | SendExternalMessageResponse 'x
  | SendInternalMessageResponse 'i
  | SetLibrariesResponse bool
  | SetGasLimitResponse bool
  | SetC7Response bool

definition tvm_prepare ::
    "('m, 'g, 'x, 'i) tvm_ops \<Rightarrow> 'm option \<Rightarrow> string \<Rightarrow> string \<Rightarrow> i32 \<Rightarrow> (Status, bool) res \<times> 'm option" where
  "tvm_prepare M state code data_boc verbosity =
     (case internal_err (TvmEmulator_new (tvm_c M) code data_boc verbosity) of
        Err e \<Rightarrow> (Err e, state)
      | Ok emulator \<Rightarrow> (Ok True, Some emulator))"

definition tvm_run_get_method ::
    "('m, 'g, 'x, 'i) tvm_ops \<Rightarrow> 'm option \<Rightarrow> i32 \<Rightarrow> string \<Rightarrow> (Status, 'g) res \<times> 'm option" where
  "tvm_run_get_method M state method_id stack_boc =
     (case state of
        None \<Rightarrow> (not_initialized, state)
      | Some emu \<Rightarrow>
          (case TvmEmulator_run_get_method (tvm_c M) emu method_id stack_boc of
             (r, emu) \<Rightarrow>
               (res_bind (internal_err r) (\<lambda>response.
                  res_bind (internal_err (json_run_get_method M response)) (tvm_result (default_get M))), Some emu)))"

definition tvm_send_external_message ::
    "('m, 'g, 'x, 'i) tvm_ops \<Rightarrow> 'm option \<Rightarrow> string \<Rightarrow> (Status, 'x) res \<times> 'm option" where
  "tvm_send_external_message M state body =
     (case state of
        None \<Rightarrow> (not_initialized, state)
      | Some emu \<Rightarrow>
          (case TvmEmulator_send_external_message (tvm_c M) emu body of
             (r, emu) \<Rightarrow>
               (res_bind (internal_err r) (\<lambda>response.
                  res_bind (internal_err (json_send_external M response)) (tvm_result (default_external M))), Some emu)))"

definition tvm_send_internal_message ::
    "('m, 'g, 'x, 'i) tvm_ops \<Rightarrow> 'm option \<Rightarrow> string \<Rightarrow> u64 \<Rightarrow> (Status, 'i) res \<times> 'm option" where
  "tvm_send_internal_message M state body amount =
     (case state of
        None \<Rightarrow> (not_initialized, state)
      | Some emu \<Rightarrow>
          (case TvmEmulator_send_internal_message (tvm_c M) emu body amount of
             (r, emu) \<Rightarrow>
               (res_bind (internal_err r) (\<lambda>response.
                  res_bind (internal_err (json_send_internal M response)) (tvm_result (default_internal M))), Some emu)))"

definition tvm_set_libraries ::
    "('m, 'g, 'x, 'i) tvm_ops \<Rightarrow> 'm option \<Rightarrow> string \<Rightarrow> (Status, bool) res \<times> 'm option" where
  "tvm_set_libraries M state libs =
     (case state of
        None \<Rightarrow> (not_initialized, state)
      | Some emu \<Rightarrow> (case TvmEmulator_set_libraries (tvm_c M) emu libs of (r, emu) \<Rightarrow> (internal_err r, Some emu)))"

definition tvm_set_gas_limit ::
    "('m, 'g, 'x, 'i) tvm_ops \<Rightarrow> 'm option \<Rightarrow> i64 \<Rightarrow> (Status, bool) res \<times> 'm option" where
  "tvm_set_gas_limit M state gas_limit =
     (case state of
        None \<Rightarrow> (not_initialized, state)
      | Some emu \<Rightarrow> (case TvmEmulator_set_gas_limit (tvm_c M) emu gas_limit of (b, emu) \<Rightarrow> (Ok b, Some emu)))"

definition tvm_set_c7 ::
    "'k cache_ops \<Rightarrow> ('m, 'g, 'x, 'i) tvm_ops \<Rightarrow> 'k \<Rightarrow> 'm option \<Rightarrow> string \<Rightarrow> u32 \<Rightarrow> u64 \<Rightarrow> string \<Rightarrow>
     string option \<Rightarrow> string \<Rightarrow> (Status, bool) res \<times> 'm option \<times> 'k" where
  "tvm_set_c7 K M k state address unixtime balance seed key config =
     (case state of
        None \<Rightarrow> (not_initialized, state, k)
      | Some emu \<Rightarrow>
          (case cached_config K k key config of
             (Err e, k) \<Rightarrow> (Err e, state, k)
           | (Ok config, k) \<Rightarrow>
               (case TvmEmulator_set_c7 (tvm_c M) emu address unixtime balance seed config of
                  (r, emu) \<Rightarrow> (internal_err r, Some emu, k))))"

text \<open>The call outside of the streams.\<close>

definition unary_run_get_method ::
    "('m, 'g, 'x, 'i) tvm_ops \<Rightarrow> string \<Rightarrow> i64 \<Rightarrow> (Status, string) res" where
  "unary_run_get_method M params_boc gas_limit = internal_err (emulate_run_method (tvm_c M) params_boc gas_limit)"

fun map_ok :: "('a \<Rightarrow> 'b) \<Rightarrow> ('e, 'a) res \<Rightarrow> ('e, 'b) res" where
  "map_ok f (Ok a) = Ok (f a)"
| "map_ok f (Err e) = Err e"

fun tvm_handle ::
    "'k cache_ops \<Rightarrow> ('m, 'g, 'x, 'i) tvm_ops \<Rightarrow> 'k \<Rightarrow> 'm option \<Rightarrow> tvm_request \<Rightarrow>
     (Status, ('g, 'x, 'i) tvm_response) res \<times> 'm option \<times> 'k" where
  "tvm_handle K M k st (Prepare code d v) = (case tvm_prepare M st code d v of (r, st) \<Rightarrow> (map_ok PrepareResponse r, st, k))"
| "tvm_handle K M k st (RunGetMethod i s) = (case tvm_run_get_method M st i s of (r, st) \<Rightarrow> (map_ok RunGetMethodResponse r, st, k))"
| "tvm_handle K M k st (SendExternalMessage b) =
     (case tvm_send_external_message M st b of (r, st) \<Rightarrow> (map_ok SendExternalMessageResponse r, st, k))"
| "tvm_handle K M k st (SendInternalMessage b a) =
     (case tvm_send_internal_message M st b a of (r, st) \<Rightarrow> (map_ok SendInternalMessageResponse r, st, k))"
| "tvm_handle K M k st (SetLibraries l) = (case tvm_set_libraries M st l of (r, st) \<Rightarrow> (map_ok SetLibrariesResponse r, st, k))"
| "tvm_handle K M k st (SetGasLimit g) = (case tvm_set_gas_limit M st g of (r, st) \<Rightarrow> (map_ok SetGasLimitResponse r, st, k))"
| "tvm_handle K M k st (SetC7 a u b s key c) =
     (case tvm_set_c7 K M k st a u b s key c of (r, st, k) \<Rightarrow> (map_ok SetC7Response r, st, k))"

section \<open>The transaction emulator\<close>

record ('m, 'r) txe_ops =
  tx_c :: "'m tx_lib"
  json_emulate :: "string \<Rightarrow> (string, 'r TvmResult) res"
  default_emulate :: 'r

datatype txe_request =
    TxPrepare "string option" string i32
  | TxEmulate string string
  | TxSetUnixtime u32
  | TxSetLt u64
  | TxSetRandSeed string
  | TxSetIgnoreChksig bool
  | TxSetConfig string
  | TxSetLibs string

datatype 'r txe_response =
    TxPrepareResponse bool
  | TxEmulateResponse 'r
  | TxSetUnixtimeResponse bool
  | TxSetLtResponse bool
  | TxSetRandSeedResponse bool
  | TxSetIgnoreChksigResponse bool
  | TxSetConfigResponse bool
  | TxSetLibsResponse bool

definition txe_prepare ::
    "'k cache_ops \<Rightarrow> ('m, 'r) txe_ops \<Rightarrow> 'k \<Rightarrow> 'm option \<Rightarrow> string option \<Rightarrow> string \<Rightarrow> i32 \<Rightarrow>
     (Status, bool) res \<times> 'm option \<times> 'k" where
  "txe_prepare K M k state key config_boc log_level =
     (case cached_config K k key config_boc of
        (Err e, k) \<Rightarrow> (Err e, state, k)
      | (Ok config, k) \<Rightarrow>
          (case internal_err (TransactionEmulator_new (tx_c M) config log_level) of
             Err e \<Rightarrow> (Err e, state, k)
           | Ok emulator \<Rightarrow> (Ok True, Some emulator, k)))"

definition txe_emulate ::
    "('m, 'r) txe_ops \<Rightarrow> 'm option \<Rightarrow> string \<Rightarrow> string \<Rightarrow> (Status, 'r) res \<times> 'm option" where
  "txe_emulate M state account message =
     (case state of
        None \<Rightarrow> (not_initialized, state)
      | Some emu \<Rightarrow>
          (case TransactionEmulator_emulate (tx_c M) emu account message of
             (r, emu) \<Rightarrow>
               (res_bind (internal_err r) (\<lambda>response.
                  res_bind (internal_err (json_emulate M response)) (tvm_result (default_emulate M))), Some emu)))"

text \<open>What the library returns to a setter is only traced.\<close>

definition txe_set_unixtime :: "('m, 'r) txe_ops \<Rightarrow> 'm option \<Rightarrow> u32 \<Rightarrow> (Status, bool) res \<times> 'm option" where
  "txe_set_unixtime M state v =
     (case state of None \<Rightarrow> (not_initialized, state)
      | Some emu \<Rightarrow> (case TransactionEmulator_set_unixtime (tx_c M) emu v of (_, emu) \<Rightarrow> (Ok True, Some emu)))"

definition txe_set_lt :: "('m, 'r) txe_ops \<Rightarrow> 'm option \<Rightarrow> u64 \<Rightarrow> (Status, bool) res \<times> 'm option" where
  "txe_set_lt M state v =
     (case state of None \<Rightarrow> (not_initialized, state)
      | Some emu \<Rightarrow> (case TransactionEmulator_set_lt (tx_c M) emu v of (_, emu) \<Rightarrow> (Ok True, Some emu)))"

definition txe_set_ignore_chksig :: "('m, 'r) txe_ops \<Rightarrow> 'm option \<Rightarrow> bool \<Rightarrow> (Status, bool) res \<times> 'm option" where
  "txe_set_ignore_chksig M state v =
     (case state of None \<Rightarrow> (not_initialized, state)
      | Some emu \<Rightarrow> (case TransactionEmulator_set_ignore_chksig (tx_c M) emu v of (_, emu) \<Rightarrow> (Ok True, Some emu)))"

definition txe_set_rand_seed :: "('m, 'r) txe_ops \<Rightarrow> 'm option \<Rightarrow> string \<Rightarrow> (Status, bool) res \<times> 'm option" where
  "txe_set_rand_seed M state v =
     (case state of None \<Rightarrow> (not_initialized, state)
      | Some emu \<Rightarrow> (case TransactionEmulator_set_rand_seed (tx_c M) emu v of (r, emu) \<Rightarrow> (res_bind (internal_err r) (\<lambda>_. Ok True), Some emu)))"

definition txe_set_config :: "('m, 'r) txe_ops \<Rightarrow> 'm option \<Rightarrow> string \<Rightarrow> (Status, bool) res \<times> 'm option" where
  "txe_set_config M state v =
     (case state of None \<Rightarrow> (not_initialized, state)
      | Some emu \<Rightarrow> (case TransactionEmulator_set_config (tx_c M) emu v of (r, emu) \<Rightarrow> (res_bind (internal_err r) (\<lambda>_. Ok True), Some emu)))"

definition txe_set_libs :: "('m, 'r) txe_ops \<Rightarrow> 'm option \<Rightarrow> string \<Rightarrow> (Status, bool) res \<times> 'm option" where
  "txe_set_libs M state v =
     (case state of None \<Rightarrow> (not_initialized, state)
      | Some emu \<Rightarrow> (case TransactionEmulator_set_libs (tx_c M) emu v of (r, emu) \<Rightarrow> (res_bind (internal_err r) (\<lambda>_. Ok True), Some emu)))"

fun txe_handle ::
    "'k cache_ops \<Rightarrow> ('m, 'r) txe_ops \<Rightarrow> 'k \<Rightarrow> 'm option \<Rightarrow> txe_request \<Rightarrow>
     (Status, 'r txe_response) res \<times> 'm option \<times> 'k" where
  "txe_handle K M k st (TxPrepare key c l) =
     (case txe_prepare K M k st key c l of (r, st, k) \<Rightarrow> (map_ok TxPrepareResponse r, st, k))"
| "txe_handle K M k st (TxEmulate a m) = (case txe_emulate M st a m of (r, st) \<Rightarrow> (map_ok TxEmulateResponse r, st, k))"
| "txe_handle K M k st (TxSetUnixtime v) = (case txe_set_unixtime M st v of (r, st) \<Rightarrow> (map_ok TxSetUnixtimeResponse r, st, k))"
| "txe_handle K M k st (TxSetLt v) = (case txe_set_lt M st v of (r, st) \<Rightarrow> (map_ok TxSetLtResponse r, st, k))"
| "txe_handle K M k st (TxSetRandSeed v) = (case txe_set_rand_seed M st v of (r, st) \<Rightarrow> (map_ok TxSetRandSeedResponse r, st, k))"
| "txe_handle K M k st (TxSetIgnoreChksig v) =
     (case txe_set_ignore_chksig M st v of (r, st) \<Rightarrow> (map_ok TxSetIgnoreChksigResponse r, st, k))"
| "txe_handle K M k st (TxSetConfig v) = (case txe_set_config M st v of (r, st) \<Rightarrow> (map_ok TxSetConfigResponse r, st, k))"
| "txe_handle K M k st (TxSetLibs v) = (case txe_set_libs M st v of (r, st) \<Rightarrow> (map_ok TxSetLibsResponse r, st, k))"

section \<open>The thread\<close>

text \<open>The flag of a request says whether its response can still be delivered.\<close>

datatype ('s, 'q) Command = Request 's 'q bool | Drop 's

fun command_stream :: "('s, 'q) Command \<Rightarrow> 's" where
  "command_stream (Request sid q alive) = sid"
| "command_stream (Drop sid) = sid"

type_synonym ('k, 'm, 'q, 'r) handler = "'k \<Rightarrow> 'm option \<Rightarrow> 'q \<Rightarrow> (Status, 'r) res \<times> 'm option \<times> 'k"

text \<open>One turn of the loop: the response that is delivered, the states of the streams and the cache.\<close>

fun service_step ::
    "('k, 'm, 'q, 'r) handler \<Rightarrow> ('s \<rightharpoonup> 'm option) \<times> 'k \<Rightarrow> ('s, 'q) Command \<Rightarrow>
     (Status, 'r) res option \<times> ('s \<rightharpoonup> 'm option) \<times> 'k" where
  "service_step handle (states, k) (Request sid q alive) =
     (case handle k (case states sid of Some st \<Rightarrow> st | None \<Rightarrow> None) q of
        (r, st, k) \<Rightarrow>
          if alive then (Some r, states(sid \<mapsto> st), k) else (None, states(sid := None), k))"
| "service_step handle (states, k) (Drop sid) = (None, states(sid := None), k)"

fun service_run ::
    "('k, 'm, 'q, 'r) handler \<Rightarrow> ('s \<rightharpoonup> 'm option) \<times> 'k \<Rightarrow> ('s, 'q) Command list \<Rightarrow>
     ('s \<times> (Status, 'r) res) list \<times> ('s \<rightharpoonup> 'm option) \<times> 'k" where
  "service_run handle s [] = ([], s)"
| "service_run handle s (c # cs) =
     (case service_step handle s c of
        (r, s) \<Rightarrow>
          (case service_run handle s cs of
             (out, s) \<Rightarrow> ((case r of Some r \<Rightarrow> [(command_stream c, r)] | None \<Rightarrow> []) @ out, s)))"

text \<open>
  The commands that \<open>process\<close> sends for the messages of a stream. The drop of \<open>Stop\<close> comes last,
  also when the caller goes away (\<open>Cancelled\<close>: while it waits for the answer to a request, which
  may still be delivered or not).
\<close>

datatype 'q stream_message = Message nat "'q option" | StreamError | StreamElapsed | Cancelled 'q bool

fun stream_commands :: "'s \<Rightarrow> 'q stream_message list \<Rightarrow> ('s, 'q) Command list" where
  "stream_commands sid (Message request_id (Some q) # ms) = Request sid q True # stream_commands sid ms"
| "stream_commands sid (Cancelled q alive # ms) = [Request sid q alive, Drop sid]"
| "stream_commands sid _ = [Drop sid]"

text \<open>The responses of a stream carry the identifiers of its requests.\<close>

fun stream_responses :: "'q stream_message list \<Rightarrow> (Status, 'r) res list \<Rightarrow> (Status, nat \<times> 'r) res list" where
  "stream_responses (Message request_id (Some q) # ms) (r # rs) =
     (case r of Ok a \<Rightarrow> Ok (request_id, a) | Err e \<Rightarrow> Err e) # stream_responses ms rs"
| "stream_responses _ _ = []"

section \<open>The contract of a service\<close>

locale stream_service =
  fixes handle :: "('k, 'm, 'q, 'r) handler" and uncached :: "'q \<Rightarrow> bool"
  assumes handle_uncached: "uncached q \<Longrightarrow> handle k st q = (fst (handle k' st q), fst (snd (handle k' st q)), k)"
begin

lemma step_own:
  assumes "case c of Request sid q alive \<Rightarrow> uncached q | Drop _ \<Rightarrow> True" and "states (command_stream c) = states' (command_stream c)"
  shows "fst (service_step handle (states, k) c) = fst (service_step handle (states', k') c)"
    and "fst (snd (service_step handle (states, k) c)) (command_stream c) =
      fst (snd (service_step handle (states', k') c)) (command_stream c)"
proof -
  have "fst (service_step handle (states, k) c) = fst (service_step handle (states', k') c) \<and>
    fst (snd (service_step handle (states, k) c)) (command_stream c) =
      fst (snd (service_step handle (states', k') c)) (command_stream c)"
  proof (cases c)
    case (Request sid q alive)
    with assms show ?thesis
      using handle_uncached [of q k "case states sid of Some st \<Rightarrow> st | None \<Rightarrow> None" k'] by (simp add: split_beta)
  qed simp
  then show "fst (service_step handle (states, k) c) = fst (service_step handle (states', k') c)"
    and "fst (snd (service_step handle (states, k) c)) (command_stream c) =
      fst (snd (service_step handle (states', k') c)) (command_stream c)" by simp_all
qed

text \<open>Commands of other streams neither change what a stream is answered nor its emulator.\<close>

lemma run_isolated:
  assumes "\<forall>c \<in> set cs. case c of Request sid q alive \<Rightarrow> uncached q | Drop _ \<Rightarrow> True" and "states s = states' s"
  shows "filter (\<lambda>o'. fst o' = s) (fst (service_run handle (states, k) cs)) =
      fst (service_run handle (states', k') (filter (\<lambda>c. command_stream c = s) cs)) \<and>
    fst (snd (service_run handle (states, k) cs)) s =
      fst (snd (service_run handle (states', k') (filter (\<lambda>c. command_stream c = s) cs))) s"
  using assms
proof (induction cs arbitrary: states states' k k')
  case (Cons c cs)
  obtain r states1 k1 where st: "service_step handle (states, k) c = (r, states1, k1)" by (cases rule: prod_cases3)
  show ?case
  proof (cases "command_stream c = s")
    case True
    obtain r' states1' k1' where st': "service_step handle (states', k') c = (r', states1', k1')" by (cases rule: prod_cases3)
    have own: "r = r'" "states1 s = states1' s"
      using step_own [of c states states' k k'] Cons.prems True st st' by auto
    from Cons.IH [of states1 states1' k1 k1'] Cons.prems(1) own(2) True own(1) st st' show ?thesis
      by (auto simp: split_beta split: option.splits)
  next
    case False
    have "states1 s = states s" using st False by (cases c) (auto simp: split_beta split: if_splits)
    with Cons.IH [of states1 states' k1 k'] Cons.prems False st show ?thesis
      by (auto simp: split_beta split: option.splits)
  qed
qed simp

end

section \<open>The two services\<close>

text \<open>The requests that do not use the cache of configurations.\<close>

fun tvm_uncached :: "tvm_request \<Rightarrow> bool" where
  "tvm_uncached (SetC7 a u b s key c) \<longleftrightarrow> key = None"
| "tvm_uncached _ \<longleftrightarrow> True"

fun txe_uncached :: "txe_request \<Rightarrow> bool" where
  "txe_uncached (TxPrepare key c l) \<longleftrightarrow> key = None"
| "txe_uncached _ \<longleftrightarrow> True"

interpretation tvm_service: stream_service "tvm_handle K M" tvm_uncached for K M
proof
  fix q k k' st
  assume "tvm_uncached q"
  then show "tvm_handle K M k st q = (fst (tvm_handle K M k' st q), fst (snd (tvm_handle K M k' st q)), k)"
    by (cases q) (simp_all add: split_beta tvm_set_c7_def cached_config_def split: option.split)
qed

interpretation txe_service: stream_service "txe_handle K M" txe_uncached for K M
proof
  fix q k k' st
  assume "txe_uncached q"
  then show "txe_handle K M k st q = (fst (txe_handle K M k' st q), fst (snd (txe_handle K M k' st q)), k)"
    by (cases q) (simp_all add: split_beta txe_prepare_def cached_config_def split: res.split)
qed

lemma service_run_append:
  "service_run handle s (cs @ ds) =
     (case service_run handle s cs of (out, s) \<Rightarrow>
        (case service_run handle s ds of (out', s) \<Rightarrow> (out @ out', s)))"
  by (induction cs arbitrary: s) (simp_all add: split_beta)

lemma other_streams_keep:
  "\<forall>c \<in> set cs. command_stream c \<noteq> sid \<Longrightarrow> fst (snd (service_run handle (states, k) cs)) sid = states sid"
proof (induction cs arbitrary: states k)
  case (Cons c cs)
  obtain r states1 k1 where st: "service_step handle (states, k) c = (r, states1, k1)" by (cases rule: prod_cases3)
  have "states1 sid = states sid" using st Cons.prems by (cases c) (auto simp: split_beta split: if_splits)
  with Cons.IH [of states1 k1] Cons.prems st show ?case by (simp add: split_beta)
qed simp

lemma stream_commands_last: "\<exists>cs. stream_commands sid ms = cs @ [Drop sid]"
  by (induction sid ms rule: stream_commands.induct) auto

lemma filter_last:
  assumes "filter P xs = ys @ [y]"
  obtains us vs where "xs = us @ y # vs" and "\<forall>v \<in> set vs. \<not> P v"
proof -
  from assms have "filter P (rev xs) = y # rev ys" by (simp add: rev_filter [symmetric])
  then obtain us vs where "rev xs = us @ y # vs" and u: "\<forall>u \<in> set us. \<not> P u"
    by (auto simp: filter_eq_Cons_iff)
  then have "rev (rev xs) = rev vs @ y # rev us" by simp
  then have "xs = rev vs @ y # rev us" by simp
  with u show thesis by (intro that [of "rev vs" "rev us"]) auto
qed

text \<open>Nothing but a preparation is answered without an emulator.\<close>

lemma tvm_unprepared_refused:
  "(\<forall>c d v. q \<noteq> Prepare c d v) \<Longrightarrow> tvm_handle K M k None q = (not_initialized, None, k)"
  by (cases q) (simp_all add: not_initialized_def tvm_run_get_method_def tvm_send_external_message_def
      tvm_send_internal_message_def tvm_set_libraries_def tvm_set_gas_limit_def tvm_set_c7_def)

lemma txe_unprepared_refused:
  "(\<forall>key c l. q \<noteq> TxPrepare key c l) \<Longrightarrow> txe_handle K M k None q = (not_initialized, None, k)"
  by (cases q) (simp_all add: not_initialized_def txe_emulate_def txe_set_unixtime_def txe_set_lt_def
      txe_set_rand_seed_def txe_set_ignore_chksig_def txe_set_config_def txe_set_libs_def)

section \<open>Properties\<close>

text \<open>Emulators that count the calls made on them and answer with their count.\<close>

definition counting_tvm :: "(nat, nat, nat, nat) tvm_ops" where
  "counting_tvm = \<lparr>
     tvm_c = \<lparr>
       tvm_emulator_create = (\<lambda>code d v. Some 0),
       tvm_emulator_set_libraries = (\<lambda>m l. (True, Suc m)),
       tvm_emulator_set_gas_limit = (\<lambda>m g. (0 \<le> g, Suc m)),
       tvm_emulator_set_c7 = (\<lambda>m a u b s c. (True, Suc m)),
       tvm_emulator_run_get_method = (\<lambda>m i s. (Some (replicate m (CHR ''x'')), Suc m)),
       tvm_emulator_send_external_message = (\<lambda>m b. (None, Suc m)),
       tvm_emulator_send_internal_message = (\<lambda>m b a. (None, Suc m)),
       tvm_emulator_emulate_run_method = (\<lambda>len p g. None)\<rparr>,
     json_run_get_method = (\<lambda>s. Ok \<lparr>tvm_success = True, tvm_error = None, tvm_data = Some (length s)\<rparr>),
     json_send_external = (\<lambda>s. Err ''json''),
     json_send_internal = (\<lambda>s. Err ''json''),
     default_get = 0, default_external = 0, default_internal = 0\<rparr>"

definition counting_txe :: "(nat, nat) txe_ops" where
  "counting_txe = \<lparr>
     tx_c = \<lparr>
       transaction_emulator_create = (\<lambda>c v. Some 0),
       transaction_emulator_emulate_transaction = (\<lambda>m a b. (Some (replicate m (CHR ''x'')), Suc m)),
       transaction_emulator_set_unixtime = (\<lambda>m v. (False, m)),
       transaction_emulator_set_lt = (\<lambda>m v. (True, Suc m)),
       transaction_emulator_set_rand_seed = (\<lambda>m v. (False, m)),
       transaction_emulator_set_ignore_chksig = (\<lambda>m v. (False, m)),
       transaction_emulator_set_config = (\<lambda>m v. (False, m)),
       transaction_emulator_set_libs = (\<lambda>m v. (False, m))\<rparr>,
     json_emulate = (\<lambda>s. Ok \<lparr>tvm_success = True, tvm_error = None, tvm_data = Some (length s)\<rparr>),
     default_emulate = 0\<rparr>"

definition map_cache :: "(string \<rightharpoonup> string) cache_ops" where
  "map_cache = \<lparr>cache_get = (\<lambda>k key. (k key, k)), cache_insert = (\<lambda>k key c. k(key \<mapsto> c))\<rparr>"

definition two_streams :: "(nat, tvm_request) Command list" where
  "two_streams = [Request 1 (Prepare ''c'' ''d'' 0) True, Request 2 (Prepare ''c'' ''d'' 0) True,
     Request 1 (SetGasLimit 5) True, Request 2 (RunGetMethod 7 ''s'') True, Request 1 (RunGetMethod 7 ''s'') True, Drop 2]"

definition two_tx_streams :: "(nat, txe_request) Command list" where
  "two_tx_streams = [Request 1 (TxPrepare None ''c'' 0) True, Request 2 (TxSetLt 5) True, Request 1 (TxEmulate ''a'' ''m'') True]"

lemmas counting_simps = counting_tvm_def counting_txe_def map_cache_def two_streams_def two_tx_streams_def
  tvm_prepare_def tvm_set_gas_limit_def tvm_run_get_method_def txe_prepare_def txe_emulate_def txe_set_lt_def
  TvmEmulator_new_def TvmEmulator_set_gas_limit_def TvmEmulator_run_get_method_def TransactionEmulator_new_def
  TransactionEmulator_emulate_def TransactionEmulator_set_lt_def cached_config_def internal_err_def tvm_result_def
  not_initialized_def c_response_def utf8_head_def utf8_lead_def

text \<open>
  C36. Both emulator services keep their streams apart: with the commands of any number of streams
  interleaved in any order, each stream is sent exactly the responses it would have been sent if it
  were the only one, as long as no configuration is passed through the shared cache.
\<close>

theorem emulator_streams_isolated:
  fixes sid :: 's and sid' :: 't
  assumes "\<forall>c \<in> set cs. case c of Request _ q _ \<Rightarrow> tvm_uncached q | Drop _ \<Rightarrow> True"
    and "\<forall>d \<in> set ds. case d of Request _ q _ \<Rightarrow> txe_uncached q | Drop _ \<Rightarrow> True"
  shows "filter (\<lambda>r. fst r = sid) (fst (service_run (tvm_handle K M) (Map.empty, k) cs)) =
      fst (service_run (tvm_handle K M) (Map.empty, k) (filter (\<lambda>c. command_stream c = sid) cs))
    \<and> filter (\<lambda>r. fst r = sid') (fst (service_run (txe_handle K' M') (Map.empty, k') ds)) =
      fst (service_run (txe_handle K' M') (Map.empty, k') (filter (\<lambda>d. command_stream d = sid') ds))"
  using tvm_service.run_isolated [of cs Map.empty sid Map.empty K M k k]
    txe_service.run_isolated [of ds Map.empty sid' Map.empty K' M' k' k'] assms by simp

theorem emulator_streams_isolated_witness:
  "filter (\<lambda>r. fst r = 1) (fst (service_run (tvm_handle map_cache counting_tvm) (Map.empty, Map.empty) two_streams)) =
     [(1, Ok (PrepareResponse True)), (1, Ok (SetGasLimitResponse True)), (1, Ok (RunGetMethodResponse 1))]
   \<and> filter (\<lambda>r. fst r = 2) (fst (service_run (txe_handle map_cache counting_txe) (Map.empty, Map.empty) two_tx_streams)) =
     [(2, not_initialized)]"
proof -
  have "\<forall>c \<in> set two_streams. case c of Request _ q _ \<Rightarrow> tvm_uncached q | Drop _ \<Rightarrow> True"
    and "\<forall>d \<in> set two_tx_streams. case d of Request _ q _ \<Rightarrow> txe_uncached q | Drop _ \<Rightarrow> True"
    by (simp_all add: two_streams_def two_tx_streams_def)
  from emulator_streams_isolated [OF this, of 1 map_cache counting_tvm Map.empty 2 map_cache counting_txe Map.empty]
  show ?thesis by (simp add: counting_simps)
qed

text \<open>
  C37. No emulator outlives its stream: however the commands of a stream are interleaved with those of
  other streams, and whether it ends normally, by a transport error, by an empty request, by the
  timeout or because its caller went away, afterwards the service holds no state for it.
\<close>

theorem no_emulator_outlives_its_stream:
  assumes "filter (\<lambda>c. command_stream c = sid) cs = stream_commands sid ms"
  shows "fst (snd (service_run handle s cs)) sid = None"
proof -
  obtain ds where "stream_commands sid ms = ds @ [Drop sid]" using stream_commands_last by metis
  with assms have "filter (\<lambda>c. command_stream c = sid) cs = ds @ [Drop sid]" by simp
  then obtain us vs where cs: "cs = us @ Drop sid # vs" and vs: "\<forall>v \<in> set vs. command_stream v \<noteq> sid"
    by (rule filter_last)
  obtain out states k where us: "service_run handle s us = (out, states, k)" by (cases rule: prod_cases3)
  have "fst (snd (service_run handle (states(sid := None), k) vs)) sid = None"
    by (subst other_streams_keep [OF vs]) simp
  with us show ?thesis by (simp add: cs service_run_append split_beta)
qed

theorem no_emulator_outlives_its_stream_witness:
  "fst (snd (service_run (tvm_handle map_cache counting_tvm) (Map.empty, Map.empty) two_streams)) 2 = None
   \<and> fst (snd (service_run (tvm_handle map_cache counting_tvm) (Map.empty, Map.empty) two_streams)) 1 = Some (Some 2)"
proof -
  have "filter (\<lambda>c. command_stream c = 2) two_streams =
      stream_commands 2 [Message 10 (Some (Prepare ''c'' ''d'' 0)), Message 11 (Some (RunGetMethod 7 ''s'')), StreamElapsed]"
    by (simp add: two_streams_def)
  from no_emulator_outlives_its_stream [OF this] show ?thesis by (simp add: counting_simps)
qed

text \<open>
  The setters of the transaction emulator report success even when the library refuses the value,
  those of the TVM emulator report what the library answered.
\<close>

lemma setters_report_success:
  assumes "CHR 0x00 \<notin> set s"
  shows "fst (txe_set_unixtime M (Some m) t) = Ok True \<and> fst (txe_set_lt M (Some m) lt) = Ok True
    \<and> fst (txe_set_ignore_chksig M (Some m) b) = Ok True \<and> fst (txe_set_rand_seed M (Some m) s) = Ok True
    \<and> fst (txe_set_config M (Some m) s) = Ok True \<and> fst (txe_set_libs M (Some m) s) = Ok True
    \<and> fst (tvm_set_gas_limit N (Some n) g) = Ok (fst (tvm_emulator_set_gas_limit (tvm_c N) n g))
    \<and> fst (tvm_set_libraries N (Some n) s) = Ok (fst (tvm_emulator_set_libraries (tvm_c N) n s))"
  using assms by (simp add: txe_set_unixtime_def txe_set_lt_def txe_set_ignore_chksig_def txe_set_rand_seed_def
      txe_set_config_def txe_set_libs_def tvm_set_gas_limit_def tvm_set_libraries_def split_beta internal_err_def
      TransactionEmulator_set_rand_seed_def TransactionEmulator_set_config_def TransactionEmulator_set_libs_def
      TvmEmulator_set_libraries_def TvmEmulator_set_gas_limit_def)

lemma setters_report_success_example:
  "fst (txe_set_config counting_txe (Some 0) ''bad boc'') = Ok True
   \<and> fst (transaction_emulator_set_config (tx_c counting_txe) 0 ''bad boc'') = False
   \<and> fst (tvm_set_gas_limit counting_tvm (Some 0) (- 1)) = Ok False"
  using setters_report_success [of "''bad boc''" counting_txe 0 0 0 True counting_tvm 0 "- 1"]
  by (simp add: counting_tvm_def counting_txe_def)

end
