(* ===== verification/Ton_Contract.thy ===== *)
theory Ton_Contract
  imports Ton_Client
begin

text \<open>
  Calls of contracts, \<^verbatim>\<open>ton-contract/src\<close> and \<^verbatim>\<open>tonlibjson-client/src/session.rs\<close>: running a
  get-method, reading the values it leaves on the stack, and the two contracts of the crate, wallets
  and jetton wallets. The bags of cells of the crate \<^verbatim>\<open>toner\<close> and the codec of \<^verbatim>\<open>base64\<close> are a parameter;
  the locale \<open>contract_crates\<close> states what the code relies on.
\<close>

section \<open>The stack\<close>

text \<open>The entries the code tells apart; every other one is \<open>OtherEntry\<close>.\<close>

datatype 'x TvmBoxedStackEntry =
    TvmStackEntrySlice string
  | TvmStackEntryCell string
  | TvmStackEntryNumber string
  | OtherEntry 'x

datatype ('t, 'e) TonContractError =
    Contract i32
  | InvalidStack
  | TLB 't
  | TLBSingleRoot
  | Base64
  | ParseNumber string
  | Client "'e ton_error"

record ('boc, 'cell, 'addr, 't) contract_ops =
  std_decode :: "string \<Rightarrow> bytes option"
  std_encode :: "bytes \<Rightarrow> string"
  unpack_boc :: "bytes \<Rightarrow> ('t, 'boc) res"
  pack_boc :: "'boc \<Rightarrow> ('t, bytes) res"
  single_root :: "'boc \<Rightarrow> 'cell option"
  from_root :: "'cell \<Rightarrow> 'boc"
  to_base64_std :: "'addr \<Rightarrow> string"

definition to_boc :: "('boc, 'cell, 'addr, 't) contract_ops \<Rightarrow> 'x TvmBoxedStackEntry \<Rightarrow> (('t, 'e) TonContractError, 'boc) res" where
  "to_boc C entry =
     (case (case entry of TvmStackEntrySlice bs \<Rightarrow> Some bs | TvmStackEntryCell bs \<Rightarrow> Some bs | _ \<Rightarrow> None) of
        None \<Rightarrow> Err InvalidStack
      | Some text \<Rightarrow>
          (case std_decode C text of
             None \<Rightarrow> Err Base64
           | Some bs \<Rightarrow> (case unpack_boc C bs of Ok b \<Rightarrow> Ok b | Err e \<Rightarrow> Err (TLB e))))"

definition to_cell :: "('boc, 'cell, 'addr, 't) contract_ops \<Rightarrow> 'x TvmBoxedStackEntry \<Rightarrow> (('t, 'e) TonContractError, 'cell) res" where
  "to_cell C entry =
     res_bind (to_boc C entry) (\<lambda>b. case single_root C b of Some c \<Rightarrow> Ok c | None \<Rightarrow> Err TLBSingleRoot)"

text \<open>\<open>parse_fully\<close> and \<open>parse_fully_as\<close>, with the parser of the type.\<close>

definition parse_cell_fully ::
    "('boc, 'cell, 'addr, 't) contract_ops \<Rightarrow> ('cell \<Rightarrow> ('t, 'a) res) \<Rightarrow> 'x TvmBoxedStackEntry \<Rightarrow> (('t, 'e) TonContractError, 'a) res" where
  "parse_cell_fully C p entry =
     res_bind (to_cell C entry) (\<lambda>c. case p c of Ok a \<Rightarrow> Ok a | Err e \<Rightarrow> Err (TLB e))"

definition from_boc :: "('boc, 'cell, 'addr, 't) contract_ops \<Rightarrow> 'boc \<Rightarrow> (('t, 'e) TonContractError, 'x TvmBoxedStackEntry) res" where
  "from_boc C b = (case pack_boc C b of Ok bs \<Rightarrow> Ok (TvmStackEntrySlice (std_encode C bs)) | Err e \<Rightarrow> Err (TLB e))"

definition from_cell :: "('boc, 'cell, 'addr, 't) contract_ops \<Rightarrow> 'cell \<Rightarrow> (('t, 'e) TonContractError, 'x TvmBoxedStackEntry) res" where
  "from_cell C c = from_boc C (from_root C c)"

definition store_cell ::
    "('boc, 'cell, 'addr, 't) contract_ops \<Rightarrow> ('a \<Rightarrow> ('t, 'cell) res) \<Rightarrow> 'a \<Rightarrow> (('t, 'e) TonContractError, 'x TvmBoxedStackEntry) res" where
  "store_cell C ser v = (case ser v of Ok c \<Rightarrow> from_cell C c | Err e \<Rightarrow> Err (TLB e))"

definition to_number :: "(string \<Rightarrow> (string, 'n) res) \<Rightarrow> 'x TvmBoxedStackEntry \<Rightarrow> (('t, 'e) TonContractError, 'n) res" where
  "to_number from_str entry =
     (case entry of
        TvmStackEntryNumber number \<Rightarrow> (case from_str number of Ok n \<Rightarrow> Ok n | Err e \<Rightarrow> Err (ParseNumber e))
      | _ \<Rightarrow> Err InvalidStack)"

definition from_number :: "('n \<Rightarrow> string) \<Rightarrow> 'n \<Rightarrow> 'x TvmBoxedStackEntry" where
  "from_number to_string number = TvmStackEntryNumber (to_string number)"

section \<open>Running a get-method\<close>

text \<open>The session: the state of the contract is loaded first, and the method runs on what was loaded.\<close>

definition run_get_method_session ::
    "('addr \<Rightarrow> ('c, 'e, 'info) action) \<Rightarrow> ('info \<Rightarrow> 'id) \<Rightarrow> ('id \<times> 'm \<times> 's list \<Rightarrow> ('c, 'e, 'r) action) \<Rightarrow>
     'addr \<times> 'm \<times> 's list \<Rightarrow> ('c, 'e, 'r) action" where
  "run_get_method_session smc_load info_id smc_run_get_method = (\<lambda>(address, meth, stack).
     and_then (smc_load address) (\<lambda>info. smc_run_get_method (info_id info, meth, stack)))"

record 'addr TonContract =
  contract_address :: 'addr

definition contract_run_get_method ::
    "addr_ops \<Rightarrow> ('boc, 'cell, 'addr, 't) contract_ops \<Rightarrow> ('c, 'e, 'x TvmBoxedStackEntry) ton_ops \<Rightarrow> 'addr TonContract \<Rightarrow>
     string \<Rightarrow> 'x TvmBoxedStackEntry list \<Rightarrow> ('c, ('t, 'e) TonContractError, 'x TvmBoxedStackEntry list) action" where
  "contract_run_get_method A C T self meth stack c =
     (case run_get_method A T (to_base64_std C (contract_address self)) meth stack c of
        (Err e, c) \<Rightarrow> (Err (Client e), c)
      | (Ok r, c) \<Rightarrow> (if run_exit_code r = 0 \<or> run_exit_code r = 1 then Ok (run_stack r) else Err (Contract (run_exit_code r)), c))"

text \<open>\<open>u32::from_str\<close>: an optional plus sign and digits, without overflow.\<close>

fun parse_u32_digits :: "int \<Rightarrow> string \<Rightarrow> int option" where
  "parse_u32_digits acc [] = Some acc"
| "parse_u32_digits acc (c # cs) =
     (case digit_val c of
        None \<Rightarrow> None
      | Some d \<Rightarrow> if acc * 10 + d < 2 ^ 32 then parse_u32_digits (acc * 10 + d) cs else None)"

definition parse_u32 :: "string \<Rightarrow> (string, int) res" where
  "parse_u32 s =
     (let digits = (case s of c # cs \<Rightarrow> if c = CHR ''+'' then cs else s | [] \<Rightarrow> [])
      in if digits = [] then Err ''cannot parse integer''
         else case parse_u32_digits 0 digits of Some n \<Rightarrow> Ok n | None \<Rightarrow> Err ''invalid digit or overflow'')"

text \<open>The conversions of the stack into an array fail with \<open>InvalidStack\<close> on another length.\<close>

definition wallet_seqno ::
    "addr_ops \<Rightarrow> ('boc, 'cell, 'addr, 't) contract_ops \<Rightarrow> ('c, 'e, 'x TvmBoxedStackEntry) ton_ops \<Rightarrow> 'addr TonContract \<Rightarrow>
     ('c, ('t, 'e) TonContractError, int) action" where
  "wallet_seqno A C T self c =
     (case contract_run_get_method A C T self ''seqno'' [] c of
        (Err e, c) \<Rightarrow> (Err e, c)
      | (Ok [entry], c) \<Rightarrow> (to_number parse_u32 entry, c)
      | (Ok _, c) \<Rightarrow> (Err InvalidStack, c))"

record ('n, 'addr) JettonWalletData =
  balance :: 'n
  owner :: 'addr
  master :: 'addr

definition get_wallet_data ::
    "addr_ops \<Rightarrow> ('boc, 'cell, 'addr, 't) contract_ops \<Rightarrow> ('c, 'e, 'x TvmBoxedStackEntry) ton_ops \<Rightarrow>
     (string \<Rightarrow> (string, 'n) res) \<Rightarrow> ('cell \<Rightarrow> ('t, 'addr) res) \<Rightarrow> 'addr TonContract \<Rightarrow>
     ('c, ('t, 'e) TonContractError, ('n, 'addr) JettonWalletData) action" where
  "get_wallet_data A C T big_uint msg_address self c =
     (case contract_run_get_method A C T self ''get_wallet_data'' [] c of
        (Err e, c) \<Rightarrow> (Err e, c)
      | (Ok [b, w, m, _], c) \<Rightarrow>
          (res_bind (to_number big_uint b) (\<lambda>b.
           res_bind (parse_cell_fully C msg_address w) (\<lambda>w.
           res_bind (parse_cell_fully C msg_address m) (\<lambda>m.
             Ok \<lparr>balance = b, owner = w, master = m\<rparr>))), c)
      | (Ok _, c) \<Rightarrow> (Err InvalidStack, c))"

section \<open>What the calls return\<close>

locale contract_crates =
  fixes C :: "('boc, 'cell, 'addr, 't) contract_ops"
  assumes decode_encode: "std_decode C (std_encode C bs) = Some bs"
    and unpack_pack: "pack_boc C b = Ok bs \<Longrightarrow> unpack_boc C bs = Ok b"
    and root_of: "single_root C (from_root C c) = Some c"
begin

lemma cell_roundtrip: "from_cell C c = Ok entry \<Longrightarrow> to_cell C entry = Ok c"
  by (auto simp: from_cell_def from_boc_def to_cell_def to_boc_def decode_encode unpack_pack root_of split: res.splits)

lemma stored_cell_parses:
  assumes "store_cell C ser v = (Ok entry :: (('t, 'w) TonContractError, 'x TvmBoxedStackEntry) res)" "\<And>c. ser v = Ok c \<Longrightarrow> p c = Ok v"
  shows "parse_cell_fully C p entry = (Ok v :: (('t, 'w) TonContractError, _) res)"
proof -
  from assms(1) obtain c where c: "ser v = Ok c" "from_cell C c = (Ok entry :: (('t, 'w) TonContractError, 'x TvmBoxedStackEntry) res)"
    by (auto simp: store_cell_def split: res.splits)
  have "to_cell C entry = (Ok c :: (('t, 'w) TonContractError, 'cell) res)" by (rule cell_roundtrip [OF c(2)])
  then show ?thesis using assms(2) [OF c(1)] by (auto simp: parse_cell_fully_def)
qed

end

text \<open>Cells of bytes, a bag being its root.\<close>

definition plain_contract :: "(bytes, bytes, string, unit) contract_ops" where
  "plain_contract = \<lparr>std_decode = base64_decode std_addr, std_encode = base64_encode std_addr,
     unpack_boc = Ok, pack_boc = Ok, single_root = Some, from_root = (\<lambda>c. c), to_base64_std = (\<lambda>s. s)\<rparr>"

interpretation plain_contract: contract_crates plain_contract
  by unfold_locales (simp_all add: plain_contract_def std_addr.base64_decode_encode)

lemma parse_u32_digits_append:
  "parse_u32_digits acc (xs @ ys) = Option.bind (parse_u32_digits acc xs) (\<lambda>a. parse_u32_digits a ys)"
  by (induction acc xs rule: parse_u32_digits.induct) (auto split: option.splits)

lemma parse_u32_digits_show_nat: "int n < 2 ^ 32 \<Longrightarrow> parse_u32_digits 0 (show_nat n) = Some (int n)"
proof (induction n rule: show_nat.induct)
  case (1 n)
  show ?case
  proof (cases "n < 10")
    case True
    then show ?thesis by (simp add: show_nat.simps [of n])
  next
    case False
    then have "parse_u32_digits 0 (show_nat (n div 10)) = Some (int (n div 10))" using 1 by (auto simp: zdiv_int)
    moreover have "int (n div 10) * 10 + int (n mod 10) = int n" by (simp add: zdiv_int zmod_int)
    ultimately show ?thesis using False "1.prems"
      by (simp add: show_nat.simps [of n] parse_u32_digits_append)
  qed
qed

lemma parse_u32_show: "0 \<le> n \<Longrightarrow> n < 2 ^ 32 \<Longrightarrow> parse_u32 (show_int n) = Ok n"
proof -
  assume n: "0 \<le> n" "n < 2 ^ 32"
  have d: "\<forall>c\<in>set (show_nat (nat n)). digit_val c \<noteq> None" "show_nat (nat n) \<noteq> []" using show_nat_digits by blast+
  then obtain x xs where s: "show_nat (nat n) = x # xs" by (cases "show_nat (nat n)") auto
  then have "x \<noteq> CHR ''+''" using d not_digit by auto
  then show ?thesis using n s parse_u32_digits_show_nat [of "nat n"] by (simp add: parse_u32_def show_int_def Let_def)
qed

text \<open>
  The sequence number of a wallet is returned exactly when the method ran with exit code 0 or 1 and
  left one number on the stack that fits 32 bits; everything else is an error.
\<close>

lemma wallet_seqno_spec:
  "fst (wallet_seqno A C T self c) = Ok n \<longleftrightarrow>
   (\<exists>r s. fst (run_get_method A T (to_base64_std C (contract_address self)) ''seqno'' [] c) = Ok r \<and>
      run_exit_code r \<in> {0, 1} \<and> run_stack r = [TvmStackEntryNumber s] \<and> parse_u32 s = Ok n)"
proof (cases "run_get_method A T (to_base64_std C (contract_address self)) ''seqno'' [] c")
  case (Pair r c')
  then show ?thesis
    by (cases r)
      (auto simp: wallet_seqno_def contract_run_get_method_def to_number_def
        split: list.splits TvmBoxedStackEntry.splits res.splits if_splits)
qed

lemma number_roundtrip: "0 \<le> n \<Longrightarrow> n < 2 ^ 32 \<Longrightarrow> to_number parse_u32 (from_number show_int n) = Ok n"
  by (simp add: to_number_def from_number_def parse_u32_show)

text \<open>A failing contract is reported with its exit code, whatever it left on the stack.\<close>

lemma contract_failure:
  assumes "run_get_method A T (to_base64_std C (contract_address self)) meth stack c = (Ok r, c')" "run_exit_code r \<notin> {0, 1}"
  shows "contract_run_get_method A C T self meth stack c = (Err (Contract (run_exit_code r)), c')"
  using assms by (simp add: contract_run_get_method_def)

end
