(* ===== verification/Tl_Parser.thy ===== *)
theory Tl_Parser
  imports Address Tl_Codec "HOL-Library.Sublist"
begin

text \<open>
  The schema of the TL language as \<^verbatim>\<open>tl_parser/src/lib.rs\<close> keeps it: combinators with their
  fields, the text their constructor number is computed from, the readers of a field's type that
  the generators use, and the loop of \<open>parse\<close>. Its two section parsers are parameters here; the
  theory \<open>Tl_Grammar\<close> has the grammar they stand for. What the loop needs of them is that the rest
  they return is a suffix of their input. Texts are sequences of ASCII characters.
\<close>

section \<open>Text\<close>

fun join :: "string \<Rightarrow> string list \<Rightarrow> string" where
  "join sep [] = []"
| "join sep [x] = x"
| "join sep (x # y # xs) = x @ sep @ join sep (y # xs)"

fun split :: "char \<Rightarrow> string \<Rightarrow> string list" where
  "split d [] = [[]]"
| "split d (c # cs) =
     (if c = d then [] # split d cs
      else case split d cs of [] \<Rightarrow> [[c]] | p # ps \<Rightarrow> (c # p) # ps)"

definition is_whitespace :: "char \<Rightarrow> bool" where
  "is_whitespace c \<longleftrightarrow> of_char c \<in> {9, 10, 11, 12, 13, 32 :: nat}"

definition trim :: "string \<Rightarrow> string" where
  "trim s = rev (dropWhile is_whitespace (rev (dropWhile is_whitespace s)))"

section \<open>Combinators\<close>

record Condition =
  field_ref :: string
  bit_selector :: "u32 option"

definition condition_form :: "Condition \<Rightarrow> string" where
  "condition_form c =
     (case bit_selector c of
        None \<Rightarrow> field_ref c
      | Some b \<Rightarrow> field_ref c @ ''.'' @ show_nat (unat b))"

text \<open>The two types of the source are mutually recursive; here the fields are the argument of the first.\<close>

datatype 'f FieldType = Plain string "Condition option" | Repetition "string option" "'f list"

datatype Field = Field (fld_name: "string option") (fld_type: "Field FieldType") (exclamation_point_modifier: bool)

record OptionalField =
  opt_name :: string
  opt_type :: string

record Combinator =
  functional :: bool
  builtin :: bool
  comb_id :: string
  result_type :: string
  constructor_number :: "u32 option"
  optional_fields :: "OptionalField list"
  comb_fields :: "Field list"

fun field_type_form :: "('f \<Rightarrow> string) \<Rightarrow> 'f FieldType \<Rightarrow> string" where
  "field_type_form form (Plain name None) = name"
| "field_type_form form (Plain name (Some condition)) = condition_form condition @ ''?'' @ name"
| "field_type_form form (Repetition None fs) = ''[ '' @ join '' '' (map form fs) @ '' ]''"
| "field_type_form form (Repetition (Some multiplicity) fs) =
     multiplicity @ ''*[ '' @ join '' '' (map form fs) @ '' ]''"

lemma field_type_form_cong [fundef_cong]:
  "t = t' \<Longrightarrow> (\<And>f. f \<in> set_FieldType t' \<Longrightarrow> form f = form' f) \<Longrightarrow> field_type_form form t = field_type_form form' t'"
  by (cases "(form, t)" rule: field_type_form.cases) (auto cong: map_cong)

lemma size_FieldType_member [termination_simp]: "f \<in> set_FieldType t \<Longrightarrow> g f < Suc (size_FieldType g t)"
proof (cases t)
  case (Repetition m fs)
  assume "f \<in> set_FieldType t"
  then have "f \<in> set fs" using Repetition by simp
  then have "g f \<le> size_list g fs" using size_list_estimation' [of f fs "g f" g] by simp
  then show ?thesis using Repetition by simp
qed simp

fun field_form :: "Field \<Rightarrow> string" where
  "field_form (Field None t _) = field_type_form field_form t"
| "field_form (Field (Some name) t _) = name @ '':'' @ field_type_form field_form t"

definition optional_field_form :: "OptionalField \<Rightarrow> string" where
  "optional_field_form o1 = opt_name o1 @ '':'' @ opt_type o1"

definition constructor_number_form :: "Combinator \<Rightarrow> string" where
  "constructor_number_form c =
     (let optional = join '' '' (map optional_field_form (optional_fields c));
          fs = join '' '' (map field_form (comb_fields c));
          lhs = join '' '' (filter (\<lambda>l. l \<noteq> []) [comb_id c, optional, fs])
      in lhs @ '' = '' @ result_type c)"

text \<open>
  \<open>crc32\<close> is \<open>crc32fast::hash\<close>. \<open>to_be\<close> swaps the bytes on the little-endian machines the program
  is built for.
\<close>

definition to_be :: "u32 \<Rightarrow> u32" where
  "to_be w = of_nat (le_val (be_bytes 4 (unat w)))"

definition constructor_number_le :: "(string \<Rightarrow> u32) \<Rightarrow> Combinator \<Rightarrow> u32" where
  "constructor_number_le crc32 c =
     (case constructor_number c of None \<Rightarrow> crc32 (constructor_number_form c) | Some n \<Rightarrow> n)"

definition constructor_number_be :: "(string \<Rightarrow> u32) \<Rightarrow> Combinator \<Rightarrow> u32" where
  "constructor_number_be crc32 c =
     to_be (case constructor_number c of None \<Rightarrow> crc32 (constructor_number_form c) | Some n \<Rightarrow> n)"

section \<open>The type of a field\<close>

fun type_is_polymorphic :: "Field \<Rightarrow> bool" where
  "type_is_polymorphic (Field _ (Plain name _) _) \<longleftrightarrow> CHR ''<'' \<in> set name \<or> CHR '' '' \<in> set name"
| "type_is_polymorphic (Field _ (Repetition _ _) _) \<longleftrightarrow> False"

fun type_is_optional :: "Field \<Rightarrow> bool" where
  "type_is_optional (Field _ (Plain _ condition) _) \<longleftrightarrow> condition \<noteq> None"
| "type_is_optional (Field _ (Repetition _ _) _) \<longleftrightarrow> False"

fun type_condition :: "Field \<Rightarrow> Condition option" where
  "type_condition (Field _ (Plain _ condition) _) = condition"
| "type_condition (Field _ (Repetition _ _) _) = None"

text \<open>The \<open>unwrap\<close> of the last branch panics when there is no space either.\<close>

fun field_type :: "Field \<Rightarrow> string option may_panic" where
  "field_type (Field _ (Repetition _ _) _) = Some None"
| "field_type (Field n (Plain name c) e) =
     (if \<not> type_is_polymorphic (Field n (Plain name c) e) then Some (Some name)
      else case split_once CHR ''<'' name of
          Some (left, _) \<Rightarrow> Some (Some left)
        | None \<Rightarrow> (case split_once CHR '' '' name of
              Some (left, _) \<Rightarrow> Some (Some left)
            | None \<Rightarrow> None))"

fun type_variables :: "Field \<Rightarrow> string list option" where
  "type_variables (Field _ (Repetition _ _) _) = None"
| "type_variables (Field _ (Plain name _) _) =
     (if CHR '' '' \<in> set name
      then case split_once CHR '' '' name of
          None \<Rightarrow> Some []
        | Some (_, tail) \<Rightarrow> Some (map trim (split CHR '' '' tail))
      else case split_once CHR ''<'' name of
          None \<Rightarrow> Some []
        | Some (_, tail) \<Rightarrow> Some (map trim (split CHR '','' (filter (\<lambda>c. c \<noteq> CHR ''>'') tail))))"

section \<open>The loop of \<open>parse\<close>\<close>

text \<open>
  A section parser returns the rest of the input and, unless the section is absent, its
  combinators. \<open>None\<close> is the loop that never returns.
\<close>

type_synonym 'e section_parser = "string \<Rightarrow> ('e, string \<times> Combinator list option) res"

datatype 'e parse_failure = ParseError 'e | InfinityLoop

definition extended :: "Combinator list \<Rightarrow> Combinator list option \<Rightarrow> Combinator list" where
  "extended collect found = (case found of None \<Rightarrow> collect | Some cs \<Rightarrow> collect @ cs)"

partial_function (option) parse_from ::
    "'e section_parser \<Rightarrow> 'e section_parser \<Rightarrow> Combinator list \<Rightarrow> string \<Rightarrow>
     ('e parse_failure, Combinator list) res option" where
  "parse_from types_section functions_section collect input =
     (case types_section input of
        Err e \<Rightarrow> Some (Err (ParseError e))
      | Ok (input1, types) \<Rightarrow>
          (let collect1 = extended collect types in
           case functions_section input1 of
             Err e \<Rightarrow> Some (Err (ParseError e))
           | Ok (input2, funcs) \<Rightarrow>
               (let collect2 = extended collect1 funcs in
                if input2 = [] then Some (Ok collect2)
                else if input = input2 then Some (Err InfinityLoop)
                else parse_from types_section functions_section collect2 input2)))"

definition parse :: "'e section_parser \<Rightarrow> 'e section_parser \<Rightarrow> string \<Rightarrow>
    ('e parse_failure, Combinator list) res option" where
  "parse types_section functions_section input = parse_from types_section functions_section [] input"

section \<open>Lemmas\<close>

lemma split_absent: "d \<notin> set xs \<Longrightarrow> split d xs = [xs]"
  by (induction xs) auto

lemma split_append: "d \<notin> set xs \<Longrightarrow> split d (xs @ d # ys) = xs # split d ys"
  by (induction xs) auto

lemma split_join: "vs \<noteq> [] \<Longrightarrow> \<forall>v\<in>set vs. d \<notin> set v \<Longrightarrow> split d (join [d] vs) = vs"
  by (induction "[d]" vs rule: join.induct) (auto simp: split_absent split_append)

lemma set_join: "set (join sep vs) \<subseteq> set sep \<union> (\<Union>v\<in>set vs. set v)"
  by (induction sep vs rule: join.induct) auto

lemma dropWhile_none: "\<forall>c\<in>set s. \<not> P c \<Longrightarrow> dropWhile P s = s"
  by (cases s) auto

lemma trim_id: "\<forall>c\<in>set s. \<not> is_whitespace c \<Longrightarrow> trim s = s"
  by (simp add: trim_def dropWhile_none)

lemma whitespace_space: "is_whitespace CHR '' ''"
  by (simp add: is_whitespace_def)

lemma split_once_present: "d \<in> set xs \<Longrightarrow> \<exists>a b. split_once d xs = Some (a, b)"
  by (induction xs) (auto split: option.splits)

text \<open>The \<open>unwrap\<close> in \<open>field_type\<close> is safe.\<close>

lemma field_type_total: "\<exists>t. field_type f = Some t"
proof (cases f rule: field_type.cases)
  case (2 n name c e)
  show ?thesis
  proof (cases "CHR ''<'' \<in> set name")
    case True
    then obtain a b where "split_once CHR ''<'' name = Some (a, b)" using split_once_present by blast
    then show ?thesis using 2 by simp
  next
    case False
    have "CHR '' '' \<in> set name \<Longrightarrow> \<exists>a b. split_once CHR '' '' name = Some (a, b)" by (rule split_once_present)
    then show ?thesis using 2 False by (auto simp: split_once_absent)
  qed
qed simp

text \<open>The words of a type: nothing that separates them.\<close>

definition is_word :: "string \<Rightarrow> bool" where
  "is_word w \<longleftrightarrow> list_all (\<lambda>c. \<not> is_whitespace c \<and> c \<noteq> CHR ''<'' \<and> c \<noteq> CHR ''>'' \<and> c \<noteq> CHR '','') w"

lemma is_word_chars:
  assumes "is_word w"
  shows "CHR '' '' \<notin> set w" "CHR ''<'' \<notin> set w" "CHR ''>'' \<notin> set w" "CHR '','' \<notin> set w" "trim w = w"
  using assms whitespace_space by (auto simp: is_word_def list_all_iff intro!: trim_id)

lemma filter_no_bracket:
  "\<forall>v\<in>set vs. is_word v \<Longrightarrow> filter (\<lambda>c. c \<noteq> CHR ''>'') (join '','' vs) = join '','' vs"
  using set_join [of "'',''" vs] by (auto simp: filter_id_conv dest!: is_word_chars(3))

lemma join_no_char:
  "\<forall>v\<in>set vs. d \<notin> set v \<Longrightarrow> d \<notin> set sep \<Longrightarrow> d \<notin> set (join sep vs)"
  using set_join [of sep vs] by blast

lemma map_trim_words: "\<forall>v\<in>set vs. is_word v \<Longrightarrow> map trim vs = vs"
  by (simp add: map_idI is_word_chars)

text \<open>What the bytes of the number on the wire are: \<open>write_constructor_number\<close> puts the most
  significant byte first, \<open>to_be\<close> has swapped them before.\<close>

lemma be_bytes_to_be: "be_bytes 4 (unat (to_be w)) = le_bytes 4 (unat w)"
proof -
  have "le_val (be_bytes 4 (unat w)) < 2 ^ 32"
    using le_val_bound [of "be_bytes 4 (unat w)"] by simp
  then have "unat (to_be w) = le_val (be_bytes 4 (unat w))"
    by (simp add: to_be_def unat_of_nat)
  then have "le_bytes 4 (unat (to_be w)) = be_bytes 4 (unat w)"
    using le_bytes_le_val [of "be_bytes 4 (unat w)"] by simp
  then show ?thesis by (simp add: be_bytes_def)
qed

lemma to_be_inject: "to_be a = to_be b \<longleftrightarrow> a = b"
proof
  assume "to_be a = to_be b"
  then have "le_bytes 4 (unat a) = le_bytes 4 (unat b)" by (metis be_bytes_to_be)
  then have "unat a mod 256 ^ 4 = unat b mod 256 ^ 4" by (metis le_val_le_bytes)
  then show "a = b" by (metis unat_u32_mod word_unat_eq_iff)
qed simp

section \<open>What \<open>parse\<close> returns\<close>

text \<open>
  The sections of a schema one after the other, until nothing is left: \<open>sections T F input cs\<close> when
  the whole of \<open>input\<close> consists of sections with the combinators \<open>cs\<close>.
\<close>

inductive sections :: "'e section_parser \<Rightarrow> 'e section_parser \<Rightarrow> string \<Rightarrow> Combinator list \<Rightarrow> bool"
  for T F where
  last: "T input = Ok (input1, types) \<Longrightarrow> F input1 = Ok ([], funcs) \<Longrightarrow>
    sections T F input (extended (extended [] types) funcs)"
| more: "T input = Ok (input1, types) \<Longrightarrow> F input1 = Ok (input2, funcs) \<Longrightarrow> input2 \<noteq> [] \<Longrightarrow> input2 \<noteq> input \<Longrightarrow>
    sections T F input2 cs \<Longrightarrow> sections T F input (extended (extended [] types) funcs @ cs)"

lemma extended_acc: "extended acc found = acc @ extended [] found"
  by (simp add: extended_def split: option.split)

locale section_grammar =
  fixes T F :: "'e section_parser"
  assumes types_rest: "T input = Ok (rest, found) \<Longrightarrow> suffix rest input"
    and functions_rest: "F input = Ok (rest, found) \<Longrightarrow> suffix rest input"
begin

lemma section_shortens:
  assumes "T input = Ok (input1, types)" "F input1 = Ok (input2, funcs)" "input2 \<noteq> input"
  shows "length input2 < length input"
proof -
  have "suffix input2 input" using types_rest [OF assms(1)] functions_rest [OF assms(2)] by (rule suffix_order.order_trans [rotated])
  with assms(3) have "strict_suffix input2 input" by (simp add: strict_suffix_def)
  then show ?thesis by (rule suffix_length_less)
qed

lemma parse_from_returns: "\<exists>r. parse_from T F acc input = Some r"
proof (induction "length input" arbitrary: input acc rule: less_induct)
  case less
  show ?case
  proof (cases "T input")
    case (Err e)
    then show ?thesis by (simp add: parse_from.simps)
  next
    case T: (Ok p)
    obtain input1 types where p: "p = (input1, types)" by (cases p)
    show ?thesis
    proof (cases "F input1")
      case (Err e)
      then show ?thesis using T p by (simp add: parse_from.simps Let_def)
    next
      case F: (Ok q)
      obtain input2 funcs where q: "q = (input2, funcs)" by (cases q)
      have "input2 \<noteq> input \<Longrightarrow> length input2 < length input"
        using T F p q by (intro section_shortens) auto
      with less show ?thesis using T F p q by (subst parse_from.simps) (auto simp: Let_def)
    qed
  qed
qed

lemma parse_from_complete:
  "sections T F input cs \<Longrightarrow> parse_from T F acc input = Some (Ok (acc @ cs))"
proof (induction arbitrary: acc rule: sections.induct)
  case (last input input1 types funcs)
  then show ?case
    using extended_acc [of acc types] extended_acc [of "extended acc types" funcs] extended_acc [of "extended [] types" funcs]
    by (subst parse_from.simps) (simp add: Let_def)
next
  case (more input input1 types input2 funcs cs)
  then show ?case
    using extended_acc [of acc types] extended_acc [of "extended acc types" funcs] extended_acc [of "extended [] types" funcs]
    by (subst parse_from.simps) (simp add: Let_def)
qed

lemma parse_from_sound:
  "parse_from T F acc input = Some (Ok cs) \<Longrightarrow> \<exists>ds. cs = acc @ ds \<and> sections T F input ds"
proof (induction "length input" arbitrary: input acc rule: less_induct)
  case less
  from less.prems obtain input1 types input2 funcs where
    T: "T input = Ok (input1, types)" and F: "F input1 = Ok (input2, funcs)" and
    r: "(if input2 = [] then Some (Ok (extended (extended acc types) funcs))
      else if input = input2 then Some (Err InfinityLoop)
      else parse_from T F (extended (extended acc types) funcs) input2) = Some (Ok cs)"
    by (subst (asm) parse_from.simps) (auto simp: Let_def split: res.splits)
  have e: "extended (extended acc types) funcs = acc @ extended (extended [] types) funcs"
    by (metis append.assoc extended_acc)
  show ?case
  proof (cases "input2 = []")
    case True
    then show ?thesis using T F r e by (auto intro: sections.last)
  next
    case False
    with r have ne: "input2 \<noteq> input" and p: "parse_from T F (extended (extended acc types) funcs) input2 = Some (Ok cs)"
      by (auto split: if_splits)
    from less.hyps [OF section_shortens [OF T F ne] p] obtain ds where
      "cs = extended (extended acc types) funcs @ ds" "sections T F input2 ds" by auto
    then show ?thesis using sections.more [of T, OF T, of F, OF F False ne] e by auto
  qed
qed

lemma parse_from_error:
  assumes "parse_from T F acc input = Some (Err (ParseError e))"
  shows "\<exists>i. T i = Err e \<or> F i = Err e"
  using assms
proof (induction "length input" arbitrary: input acc rule: less_induct)
  case less
  show ?case
  proof (cases "T input")
    case T: (Ok p)
    obtain input1 types where p: "p = (input1, types)" by (cases p)
    show ?thesis
    proof (cases "F input1")
      case F: (Ok q)
      obtain input2 funcs where q: "q = (input2, funcs)" by (cases q)
      have "input2 \<noteq> input" "parse_from T F (extended (extended acc types) funcs) input2 = Some (Err (ParseError e))"
        using less.prems T F p q by (auto simp: parse_from.simps [of T F acc input] Let_def split: if_splits)
      then show ?thesis using less.hyps section_shortens T F p q by blast
    qed (use less.prems T p in \<open>auto simp: parse_from.simps [of T F acc input] Let_def\<close>)
  qed (use less.prems in \<open>auto simp: parse_from.simps [of T F acc input]\<close>)
qed

end

section \<open>Properties\<close>

text \<open>The number the generated code writes appears on the wire with its least significant byte first.\<close>

lemma constructor_number_on_wire:
  assumes "bytes_crate B"
  shows "write_constructor_number B \<lparr>output_buf = out\<rparr> (constructor_number_be crc32 c) =
    \<lparr>output_buf = out @ le_bytes 4 (unat (constructor_number_le crc32 c))\<rparr>"
  by (simp add: write_constructor_number_def bytes_crate.put_u32 [OF assms] constructor_number_be_def
      be_bytes_to_be constructor_number_le_def)

text \<open>
  When the two section parsers return suffixes of their input, the loop of \<open>parse\<close> ends on every
  text, and it returns combinators exactly when the whole text is a sequence of sections.
\<close>

lemma parse_terminates:
  assumes "section_grammar T F"
  shows "\<exists>r. parse T F input = Some r \<and> (\<forall>cs. r = Ok cs \<longleftrightarrow> sections T F input cs)"
proof -
  obtain r where r: "parse T F input = Some r"
    using section_grammar.parse_from_returns [OF assms] unfolding parse_def by blast
  have "r = Ok cs" if "sections T F input cs" for cs
    using section_grammar.parse_from_complete [OF assms that, of "[]"] r by (simp add: parse_def)
  moreover have "sections T F input cs" if "r = Ok cs" for cs
    using section_grammar.parse_from_sound [OF assms, of "[]" input cs] r that by (simp add: parse_def)
  ultimately show ?thesis using r by blast
qed

text \<open>
  The readers of a field's type. A type written \<open>head<v1,v2>\<close> or \<open>head v1 v2\<close>, with words for
  the head and the arguments, is read as that head with those arguments, in order; a single word is
  read as itself without arguments.
\<close>

lemma type_reference_read:
  assumes "is_word head" and "vs \<noteq> []" and "\<forall>v\<in>set vs. is_word v"
  shows "field_type (Field n (Plain (head @ ''<'' @ join '','' vs @ ''>'') c) e) = Some (Some head)
    \<and> type_variables (Field n (Plain (head @ ''<'' @ join '','' vs @ ''>'') c) e) = Some vs
    \<and> field_type (Field n (Plain (head @ '' '' @ join '' '' vs) c) e) = Some (Some head)
    \<and> type_variables (Field n (Plain (head @ '' '' @ join '' '' vs) c) e) = Some vs
    \<and> field_type (Field n (Plain head c) e) = Some (Some head)
    \<and> type_variables (Field n (Plain head c) e) = Some []"
proof -
  note h = is_word_chars [OF assms(1)]
  have no: "CHR '' '' \<notin> set (join '','' vs)" "CHR ''<'' \<notin> set (join '' '' vs)"
    by (rule join_no_char, use assms(3) is_word_chars in blast, simp)+
  have "map trim (split CHR '','' (filter (\<lambda>c. c \<noteq> CHR ''>'') (join '','' vs @ ''>''))) = vs"
    using assms(2,3) is_word_chars(4) by (simp add: filter_no_bracket split_join map_trim_words)
  moreover have "map trim (split CHR '' '' (join '' '' vs)) = vs"
    using assms(2,3) is_word_chars(1) by (simp add: split_join map_trim_words)
  ultimately show ?thesis using h no by (simp add: split_once_absent)
qed

lemma type_reference_read_witness:
  "field_type (Field None (Plain ''vector<int>'' None) False) = Some (Some ''vector'')
   \<and> type_variables (Field None (Plain ''vector<int>'' None) False) = Some [''int'']"
  using type_reference_read [of "''vector''" "[''int'']" None None False]
  by (simp add: is_word_def is_whitespace_def)

text \<open>
  Where the two readers disagree: an argument of a parenthesised type that has an argument itself.
  \<open>field_type\<close> looks for the bracket first, \<open>type_variables\<close> for the space.
\<close>

lemma nested_type_misread:
  "field_type (Field n (Plain ''vector list<int>'' c) e) = Some (Some ''vector list'')
   \<and> type_variables (Field n (Plain ''vector list<int>'' c) e) = Some [''list<int>'']"
  by (simp add: trim_def is_whitespace_def)

end
