(* ===== verification/Tl_Generator.thy ===== *)
theory Tl_Generator
  imports Tl_Parser "HOL-Library.Monad_Syntax"
begin

text \<open>
  The generator of the types of the lite server protocol, \<^verbatim>\<open>ton-liteserver-client/build.rs\<close>, and
  the meaning of the code it generates. The generator turns each combinator of a schema into a
  struct with \<open>Serialize\<close>, \<open>Deserialize\<close> and their boxed variants, and each result type into an
  alias or an enum; the token streams it quotes are datatypes here, one constructor per quoted
  form. The statements it quotes are given the meaning they have in Rust, so that the properties
  are about the code that runs: what a generated \<open>serialize\<close> writes, the generated \<open>deserialize\<close>
  reads back.

  Parameters: the conversions of case of \<^verbatim>\<open>convert_case\<close>, the texts that \<^verbatim>\<open>syn\<close> and \<open>format_ident!\<close>
  accept, and \<open>crc32fast::hash\<close>. A panic of the generator is \<open>None\<close>. The order in which a \<open>HashMap\<close>
  yields its keys is an argument. Printing the items as text is not modelled.
\<close>

section \<open>The generator\<close>

record gen_ops =
  to_snake :: "string \<Rightarrow> string"
  to_upper_camel :: "string \<Rightarrow> string"
  is_ident :: "string \<Rightarrow> bool"
  is_generic_argument :: "string \<Rightarrow> bool"
  is_meta_list :: "string \<Rightarrow> bool"
  crc32_hash :: "string \<Rightarrow> u32"

definition format_ident :: "gen_ops \<Rightarrow> string \<Rightarrow> string may_panic" where
  "format_ident K s = (if is_ident K s then Some s else None)"

definition rsplit_once :: "char \<Rightarrow> string \<Rightarrow> (string \<times> string) option" where
  "rsplit_once d s = map_option (\<lambda>(a, b). (rev b, rev a)) (split_once d (rev s))"

definition is_uppercase :: "char \<Rightarrow> bool" where
  "is_uppercase c \<longleftrightarrow> 65 \<le> (of_char c :: nat) \<and> (of_char c :: nat) \<le> 90"

definition generate_type_name :: "gen_ops \<Rightarrow> string \<Rightarrow> string" where
  "generate_type_name K s =
     (let (ns, name) = (case rsplit_once CHR ''.'' s of Some p \<Rightarrow> p | None \<Rightarrow> ([], s));
          boxed_prefix = (if name \<noteq> [] \<and> is_uppercase (hd name) then ''Boxed'' else []);
          ns_prefix = join [] (map (to_upper_camel K) (split CHR ''.'' ns))
      in ns_prefix @ boxed_prefix @ to_upper_camel K name)"

definition structure_ident :: "gen_ops \<Rightarrow> string \<Rightarrow> string may_panic" where
  "structure_ident K s = format_ident K (generate_type_name K s)"

record TypeConfiguration =
  conf_derives :: "string list"

definition type_configuration_default :: TypeConfiguration where
  "type_configuration_default = \<lparr>conf_derives = [''Debug'', ''Clone'', ''PartialEq'', ''Eq'']\<rparr>"

text \<open>A type of the generated code, and its text as it is given to \<^verbatim>\<open>syn\<close>.\<close>

datatype RustType = TyName string | TyApp string "string list" | TyOption RustType

fun type_text :: "RustType \<Rightarrow> string" where
  "type_text (TyName n) = n"
| "type_text (TyApp n args) = n @ ''<'' @ join '','' args @ ''>''"
| "type_text (TyOption t) = ''Option<'' @ type_text t @ ''>''"

definition parse_generic_argument :: "gen_ops \<Rightarrow> RustType \<Rightarrow> RustType may_panic" where
  "parse_generic_argument K t = (if is_generic_argument K (type_text t) then Some t else None)"

text \<open>The name of a field in the generated code; anonymous fields panic.\<close>

definition field_ident :: "gen_ops \<Rightarrow> Field \<Rightarrow> string may_panic" where
  "field_ident K f = do { n \<leftarrow> fld_name f; format_ident K (to_snake K n) }"

definition struct_field_type :: "gen_ops \<Rightarrow> Field \<Rightarrow> RustType may_panic" where
  "struct_field_type K f = do {
     typ \<leftarrow> field_type f;
     if typ = Some ''#'' then map_option TyName (format_ident K ''Int31'')
     else if type_is_polymorphic f then do {
       ft \<leftarrow> typ;
       vs \<leftarrow> type_variables f;
       let gen = TyApp (generate_type_name K ft) (map (generate_type_name K) vs);
       parse_generic_argument K (if type_is_optional f then TyOption gen else gen) }
     else do {
       ft \<leftarrow> typ;
       name \<leftarrow> structure_ident K ft;
       if type_is_optional f then parse_generic_argument K (TyOption (TyName name))
       else map_option TyName (format_ident K name) } }"

text \<open>
  The statements of a generated \<open>serialize\<close>: first a binding per field, which sets the flag of a
  present optional field, then a write per field.
\<close>

datatype def_stmt = LetMut string | Let string | LetRef string | LetOption string string u32

datatype write_op = WriteI31 | WriteI32 | WriteI64 | WriteI256 | WriteBytes | WriteString | CallSerialize

datatype ser_stmt = Write write_op string | WriteSome write_op string

text \<open>The statements of a generated \<open>deserialize\<close>: one binding per field.\<close>

datatype read_op = ParseI31 | ParseI32 | ParseI64 | ParseI256 | ParseBytes | ParseString | CallDeserialize string

datatype de_stmt = Parse string read_op | ParseIfBit string string u32 read_op | ParseIf string string read_op

definition serialize_def :: "gen_ops \<Rightarrow> Field \<Rightarrow> def_stmt may_panic" where
  "serialize_def K f = do {
     n \<leftarrow> field_ident K f;
     case type_condition f of
       None \<Rightarrow> do {
         typ \<leftarrow> field_type f;
         Some (if typ = Some ''#'' then LetMut n
               else if typ = Some ''int'' then Let n
               else if typ = Some ''long'' then Let n
               else LetRef n) }
     | Some c \<Rightarrow> (case bit_selector c of
           Some b \<Rightarrow> do { r \<leftarrow> format_ident K (field_ref c); Some (LetOption n r b) }
         | None \<Rightarrow> None) }"

definition write_op_of :: "string option \<Rightarrow> write_op" where
  "write_op_of typ =
     (if typ = Some ''#'' then WriteI31
      else if typ = Some ''int'' then WriteI32
      else if typ = Some ''long'' then WriteI64
      else if typ = Some ''int256'' then WriteI256
      else if typ = Some ''bytes'' then WriteBytes
      else if typ = Some ''string'' then WriteString
      else CallSerialize)"

definition serialize_field :: "gen_ops \<Rightarrow> Field \<Rightarrow> ser_stmt may_panic" where
  "serialize_field K f = do {
     n \<leftarrow> field_ident K f;
     case type_condition f of
       None \<Rightarrow> do { typ \<leftarrow> field_type f; Some (Write (write_op_of typ) n) }
     | Some c \<Rightarrow> (case bit_selector c of
           Some _ \<Rightarrow> do { typ \<leftarrow> field_type f; Some (WriteSome (write_op_of typ) n) }
         | None \<Rightarrow> None) }"

definition read_op_of :: "gen_ops \<Rightarrow> string option \<Rightarrow> read_op may_panic" where
  "read_op_of K typ =
     (if typ = Some ''#'' then Some ParseI31
      else if typ = Some ''int'' then Some ParseI32
      else if typ = Some ''long'' then Some ParseI64
      else if typ = Some ''int256'' then Some ParseI256
      else if typ = Some ''bytes'' then Some ParseBytes
      else if typ = Some ''string'' then Some ParseString
      else do { ft \<leftarrow> typ; name \<leftarrow> structure_ident K ft; map_option CallDeserialize (format_ident K name) })"

definition deserialize_field :: "gen_ops \<Rightarrow> Field \<Rightarrow> de_stmt may_panic" where
  "deserialize_field K f = do {
     n \<leftarrow> field_ident K f;
     typ \<leftarrow> field_type f;
     parse_fn \<leftarrow> read_op_of K typ;
     case type_condition f of
       None \<Rightarrow> Some (Parse n parse_fn)
     | Some c \<Rightarrow> do {
         r \<leftarrow> format_ident K (field_ref c);
         Some (case bit_selector c of
           Some b \<Rightarrow> ParseIfBit n r b parse_fn
         | None \<Rightarrow> ParseIf n r parse_fn) } }"

text \<open>\<open>iter().map(..).collect()\<close> with a closure that may panic.\<close>

fun collect_map :: "('a \<Rightarrow> 'b may_panic) \<Rightarrow> 'a list \<Rightarrow> 'b list may_panic" where
  "collect_map f [] = Some []"
| "collect_map f (x # xs) = do { y \<leftarrow> f x; ys \<leftarrow> collect_map f xs; Some (y # ys) }"

record GenStruct =
  struct_name :: string
  struct_derives :: "string list"
  struct_fields :: "(string \<times> RustType) list"
  functional_result :: "string option"
  number_be :: u32
  serialize_defs :: "def_stmt list"
  serialize_fields :: "ser_stmt list"
  deserialize_fields :: "de_stmt list"
  deserialize_pass :: "string list"

datatype gen_error = SynError | IoError | SchemaError

definition generate_bare ::
    "gen_ops \<Rightarrow> (string \<rightharpoonup> TypeConfiguration) \<Rightarrow> Combinator \<Rightarrow> (gen_error, GenStruct) res may_panic" where
  "generate_bare K types definition = do {
     let configuration = (case types (comb_id definition) of Some c \<Rightarrow> c | None \<Rightarrow> type_configuration_default);
     name \<leftarrow> structure_ident K (comb_id definition);
     let to_derive = conf_derives configuration @ (if comb_fields definition = [] then [''Default''] else []);
     if \<not> is_meta_list K (''derive('' @ join '','' to_derive @ '')'') then Some (Err SynError)
     else do {
       fs \<leftarrow> collect_map (\<lambda>f. do { n \<leftarrow> field_ident K f; t \<leftarrow> struct_field_type K f; Some (n, t) }) (comb_fields definition);
       defs \<leftarrow> collect_map (serialize_def K) (comb_fields definition);
       sers \<leftarrow> collect_map (serialize_field K) (comb_fields definition);
       des \<leftarrow> collect_map (deserialize_field K) (comb_fields definition);
       pass \<leftarrow> collect_map (field_ident K) (comb_fields definition);
       result \<leftarrow> (if functional definition
         then map_option Some (format_ident K (generate_type_name K (result_type definition))) else Some None);
       Some (Ok \<lparr>struct_name = name, struct_derives = to_derive, struct_fields = fs, functional_result = result,
         number_be = constructor_number_be (crc32_hash K) definition, serialize_defs = defs,
         serialize_fields = sers, deserialize_fields = des, deserialize_pass = pass\<rparr>) } }"

record GenEnum =
  enum_name :: string
  enum_variants :: "string list"
  number_arms :: "string list"
  serialize_arms :: "string list"
  deserialize_arms :: "string list"

datatype GenItem = TypeAlias string string | EnumItem GenEnum | StructItem GenStruct

text \<open>The arms of the quoted matches carry the name of the variant, which is the name of its struct.\<close>

definition variant_names :: "gen_ops \<Rightarrow> Combinator list \<Rightarrow> string list may_panic" where
  "variant_names K types =
     collect_map (\<lambda>combinator. format_ident K (generate_type_name K (comb_id combinator)))
       (filter (\<lambda>combinator. \<not> functional combinator) types)"

definition generate_boxed :: "gen_ops \<Rightarrow> string \<Rightarrow> Combinator list \<Rightarrow> GenItem may_panic" where
  "generate_boxed K type_ident types = do {
     name \<leftarrow> format_ident K (generate_type_name K type_ident);
     if length (filter (\<lambda>combinator. \<not> functional combinator) types) = 1 then do {
       bare \<leftarrow> (case types of [] \<Rightarrow> None | t # _ \<Rightarrow> Some (comb_id t));
       bare_name \<leftarrow> format_ident K (generate_type_name K bare);
       Some (TypeAlias name bare_name) }
     else do {
       fs \<leftarrow> variant_names K types;
       numbers \<leftarrow> variant_names K types;
       sers \<leftarrow> variant_names K types;
       des \<leftarrow> variant_names K types;
       Some (EnumItem \<lparr>enum_name = name, enum_variants = fs, number_arms = numbers,
         serialize_arms = sers, deserialize_arms = des\<rparr>) } }"

definition skip_list :: "string list" where
  "skip_list = [''Vector t'', ''Int32'', ''Int53'', ''Int64'', ''Int128'', ''Int256'', ''Bytes'',
     ''SecureString'', ''SecureBytes'', ''Function'']"

text \<open>The bare types of one result type; a failure of \<^verbatim>\<open>syn\<close> ends the generation.\<close>

fun generate_bares ::
    "gen_ops \<Rightarrow> (string \<rightharpoonup> TypeConfiguration) \<Rightarrow> Combinator list \<Rightarrow> (gen_error, GenItem list) res may_panic" where
  "generate_bares K types [] = Some (Ok [])"
| "generate_bares K types (d # ds) =
     (if builtin d \<or> comb_id d = ''vector'' \<or> comb_id d = ''int256'' then generate_bares K types ds
      else do {
        r \<leftarrow> generate_bare K types d;
        case r of
          Err e \<Rightarrow> Some (Err e)
        | Ok s \<Rightarrow> do {
            rs \<leftarrow> generate_bares K types ds;
            Some (case rs of Err e \<Rightarrow> Err e | Ok items \<Rightarrow> Ok (StructItem s # items)) } })"

text \<open>The loop over the result types in the order \<open>keys\<close> of the map's iteration.\<close>

fun generate_groups ::
    "gen_ops \<Rightarrow> (string \<rightharpoonup> TypeConfiguration) \<Rightarrow> Combinator list \<Rightarrow> string list \<Rightarrow>
     (gen_error, GenItem list) res may_panic" where
  "generate_groups K types combinators [] = Some (Ok [])"
| "generate_groups K types combinators (key # keys) =
     (if key \<in> set skip_list then generate_groups K types combinators keys
      else do {
        let group = filter (\<lambda>c. result_type c = key) combinators;
        boxed \<leftarrow> generate_boxed K key group;
        r \<leftarrow> generate_bares K types group;
        case r of
          Err e \<Rightarrow> Some (Err e)
        | Ok items \<Rightarrow> do {
            rs \<leftarrow> generate_groups K types combinators keys;
            Some (case rs of Err e \<Rightarrow> Err e | Ok tail \<Rightarrow> Ok (boxed # items @ tail)) } })"

definition generate ::
    "gen_ops \<Rightarrow> (string \<rightharpoonup> TypeConfiguration) \<Rightarrow> 'e section_parser \<Rightarrow> 'e section_parser \<Rightarrow>
     string option \<Rightarrow> (Combinator list \<Rightarrow> string list) \<Rightarrow> (gen_error, GenItem list) res may_panic" where
  "generate K types types_section functions_section content key_order =
     (case content of
        None \<Rightarrow> Some (Err IoError)
      | Some text \<Rightarrow> do {
          r \<leftarrow> parse types_section functions_section text;
          case r of
            Err _ \<Rightarrow> Some (Err SchemaError)
          | Ok combinators \<Rightarrow> generate_groups K types combinators (key_order combinators) })"

text \<open>A struct is emitted for every combinator of every result type that is not skipped.\<close>

lemma case_res_Ok:
  "(case r of Err e \<Rightarrow> Some (Err e) | Ok a \<Rightarrow> f a) = Some (Ok b) \<longleftrightarrow> (\<exists>a. r = Ok a \<and> f a = Some (Ok b))"
  "(case r of Err e \<Rightarrow> Err e | Ok a \<Rightarrow> Ok (g a)) = Ok c \<longleftrightarrow> (\<exists>a. r = Ok a \<and> g a = c)"
  by (cases r; simp)+

lemma bares_emitted:
  assumes "generate_bares K types ds = Some (Ok items)" "d \<in> set ds" "\<not> builtin d" "comb_id d \<noteq> ''vector''" "comb_id d \<noteq> ''int256''"
  shows "\<exists>s. generate_bare K types d = Some (Ok s) \<and> StructItem s \<in> set items"
  using assms(1,2)
proof (induction ds arbitrary: items)
  case (Cons x ds)
  show ?case
  proof (cases "builtin x \<or> comb_id x = ''vector'' \<or> comb_id x = ''int256''")
    case True
    then have "d \<noteq> x" using assms(3-5) by auto
    then show ?thesis using True Cons by simp
  next
    case False
    then obtain s others where x: "generate_bare K types x = Some (Ok s)" "generate_bares K types ds = Some (Ok others)"
      "items = StructItem s # others"
      using Cons.prems(1) by (auto simp: bind_eq_Some_conv case_res_Ok)
    then show ?thesis using Cons by (cases "d = x") auto
  qed
qed simp

lemma groups_emitted:
  assumes "generate_groups K types combinators keys = Some (Ok items)" "c \<in> set combinators"
    and "result_type c \<in> set keys" "result_type c \<notin> set skip_list" "\<not> builtin c" "comb_id c \<noteq> ''vector''" "comb_id c \<noteq> ''int256''"
  shows "\<exists>s. generate_bare K types c = Some (Ok s) \<and> StructItem s \<in> set items"
  using assms(1,3)
proof (induction keys arbitrary: items)
  case (Cons key keys)
  show ?case
  proof (cases "key \<in> set skip_list")
    case True
    then show ?thesis using Cons assms(4) by auto
  next
    case False
    let ?group = "filter (\<lambda>c. result_type c = key) combinators"
    obtain boxed bares others where items: "items = boxed # bares @ others" "generate_bares K types ?group = Some (Ok bares)"
      "generate_groups K types combinators keys = Some (Ok others)"
      using Cons.prems(1) False by (auto simp: bind_eq_Some_conv Let_def case_res_Ok)
    show ?thesis
    proof (cases "result_type c = key")
      case True
      then have "c \<in> set ?group" using assms(2) by simp
      then show ?thesis using bares_emitted [OF items(2) _ assms(5-7)] items(1) by auto
    next
      case False
      then show ?thesis using Cons items by auto
    qed
  qed
qed simp

text \<open>
  The alias of a result type with one constructor names the first combinator of the result type,
  which is the constructor only when no function with this result is declared before it.
\<close>

lemma alias_names_first:
  assumes "generate_boxed K type_ident (c # cs) = Some item" "length (filter (\<lambda>d. \<not> functional d) (c # cs)) = 1"
  shows "\<exists>name. item = TypeAlias name (generate_type_name K (comb_id c))"
  using assms by (auto simp: generate_boxed_def format_ident_def bind_eq_Some_conv split: if_splits)

end
