(* ===== verification/Tl_Generated.thy ===== *)
theory Tl_Generated
  imports Tl_Generator
begin

text \<open>
  The meaning of the code that \<open>Tl_Generator\<close> emits, and that it is a codec. A generated
  \<open>serialize\<close> binds a local variable per field and then writes them; a generated \<open>deserialize\<close> binds
  a local variable per field and builds the struct of them. A statement the compiler would reject,
  because a variable is not bound or a value has another type, has no meaning (\<open>None\<close>), so the
  theorems show that this does not happen. The implementations of the field types that are not
  scalars are a parameter, from each type to its \<open>serialize\<close> and \<open>deserialize\<close>; the locale \<open>tl_types\<close>
  asks that they are codecs, and a generated struct is one again, so that types are built up one on
  another. The flags of a struct are what makes this more than a sequence of fields: \<open>serialize\<close>
  sets the bit of each present optional field and never clears one.
\<close>

unbundle bit_operations_syntax

section \<open>Values and implementations\<close>

datatype tl_val =
    VInt i32 | VLong i64 | VInt256 bytes | VBytes bytes | VString bytes
  | VOption "tl_val option" | VVector "tl_val list" | VStruct "(string \<times> tl_val) list" | VEnum string tl_val

record type_impl =
  impl_serialize :: "Serializer \<Rightarrow> tl_val \<Rightarrow> Serializer"
  impl_deserialize :: "(DeserializerBoxedError, tl_val) parser"

type_synonym impls = "RustType \<rightharpoonup> type_impl"
type_synonym locals = "string \<rightharpoonup> tl_val"

section \<open>What the generated statements do\<close>

text \<open>\<open>#field_ref |= 1 << #bit_selector\<close> on an \<open>i32\<close>.\<close>

definition shl1 :: "u32 \<Rightarrow> i32" where
  "shl1 b = wrap_i32 (2 ^ unat b)"

fun run_def :: "locals \<Rightarrow> def_stmt \<Rightarrow> locals \<Rightarrow> locals option" where
  "run_def self (LetMut n) l = do { v \<leftarrow> self n; Some (l(n \<mapsto> v)) }"
| "run_def self (Let n) l = do { v \<leftarrow> self n; Some (l(n \<mapsto> v)) }"
| "run_def self (LetRef n) l = do { v \<leftarrow> self n; Some (l(n \<mapsto> v)) }"
| "run_def self (LetOption n r b) l =
     (case self n of
        Some (VOption None) \<Rightarrow> Some (l(n \<mapsto> VOption None))
      | Some (VOption (Some v)) \<Rightarrow>
          (case (l(n \<mapsto> VOption (Some v))) r of
             Some (VInt m) \<Rightarrow> Some (l(n \<mapsto> VOption (Some v), r \<mapsto> VInt (m OR shl1 b)))
           | _ \<Rightarrow> None)
      | _ \<Rightarrow> None)"

fun run_defs :: "locals \<Rightarrow> def_stmt list \<Rightarrow> locals \<Rightarrow> locals option" where
  "run_defs self [] l = Some l"
| "run_defs self (d # ds) l = do { l \<leftarrow> run_def self d l; run_defs self ds l }"

text \<open>A write of a value whose declared type is \<open>t\<close>.\<close>

fun run_write :: "buf_ops \<Rightarrow> impls \<Rightarrow> RustType \<Rightarrow> write_op \<Rightarrow> tl_val \<Rightarrow> Serializer \<Rightarrow> Serializer option" where
  "run_write B I t WriteI31 (VInt i) se = Some (write_i31 B se i)"
| "run_write B I t WriteI32 (VInt i) se = Some (write_i32 B se i)"
| "run_write B I t WriteI64 (VLong i) se = Some (write_i64 B se i)"
| "run_write B I t WriteI256 (VInt256 bs) se = Some (write_i256 B se bs)"
| "run_write B I t WriteBytes (VBytes bs) se = Some (write_bytes B se bs)"
| "run_write B I t WriteString (VString bs) se = Some (write_string B se bs)"
| "run_write B I t CallSerialize v se = map_option (\<lambda>i. impl_serialize i se v) (I t)"
| "run_write B I t _ _ se = None"

text \<open>The type a write or a read is resolved at: the declared type, without its \<open>Option\<close>.\<close>

fun inner_type :: "RustType \<Rightarrow> RustType" where
  "inner_type (TyOption t) = t"
| "inner_type t = t"

fun run_ser :: "buf_ops \<Rightarrow> impls \<Rightarrow> (string \<rightharpoonup> RustType) \<Rightarrow> locals \<Rightarrow> ser_stmt \<Rightarrow> Serializer \<Rightarrow> Serializer option" where
  "run_ser B I ty l (Write w n) se = do { t \<leftarrow> ty n; v \<leftarrow> l n; run_write B I t w v se }"
| "run_ser B I ty l (WriteSome w n) se =
     (case l n of
        Some (VOption None) \<Rightarrow> Some se
      | Some (VOption (Some v)) \<Rightarrow> do { t \<leftarrow> ty n; run_write B I (inner_type t) w v se }
      | _ \<Rightarrow> None)"

fun run_sers :: "buf_ops \<Rightarrow> impls \<Rightarrow> (string \<rightharpoonup> RustType) \<Rightarrow> locals \<Rightarrow> ser_stmt list \<Rightarrow> Serializer \<Rightarrow> Serializer option" where
  "run_sers B I ty l [] se = Some se"
| "run_sers B I ty l (s # ss) se = do { se \<leftarrow> run_ser B I ty l s se; run_sers B I ty l ss se }"

definition struct_serialize :: "buf_ops \<Rightarrow> impls \<Rightarrow> GenStruct \<Rightarrow> Serializer \<Rightarrow> tl_val \<Rightarrow> Serializer option" where
  "struct_serialize B I s se v =
     (case v of
        VStruct self \<Rightarrow> do {
          l \<leftarrow> run_defs (map_of self) (serialize_defs s) Map.empty;
          run_sers B I (map_of (struct_fields s)) l (serialize_fields s) se }
      | _ \<Rightarrow> None)"

definition struct_serialize_boxed :: "buf_ops \<Rightarrow> impls \<Rightarrow> GenStruct \<Rightarrow> Serializer \<Rightarrow> tl_val \<Rightarrow> Serializer option" where
  "struct_serialize_boxed B I s se v = struct_serialize B I s (write_constructor_number B se (number_be s)) v"

definition map_parser :: "('a \<Rightarrow> 'b) \<Rightarrow> (DeserializerBoxedError, 'a) parser \<Rightarrow> (DeserializerBoxedError, 'b) parser" where
  "map_parser f p de = map_option (\<lambda>(r, de). (res_bind r (\<lambda>a. Ok (f a)), de)) (p de)"

fun run_read :: "buf_ops \<Rightarrow> impls \<Rightarrow> RustType \<Rightarrow> read_op \<Rightarrow> (DeserializerBoxedError, tl_val) parser" where
  "run_read B I t ParseI31 = map_parser VInt (lift_parser (parse_i31 B))"
| "run_read B I t ParseI32 = map_parser VInt (lift_parser (parse_i32 B))"
| "run_read B I t ParseI64 = map_parser VLong (lift_parser (parse_i64 B))"
| "run_read B I t ParseI256 = map_parser VInt256 (lift_parser (parse_i256 B))"
| "run_read B I t ParseBytes = map_parser VBytes (lift_parser (parse_bytes B))"
| "run_read B I t ParseString = map_parser VString (lift_parser (parse_string B))"
| "run_read B I t (CallDeserialize _) = (case I t of Some i \<Rightarrow> impl_deserialize i | None \<Rightarrow> (\<lambda>_. None))"

text \<open>\<open>ParseIf\<close> is quoted with the variable itself as the condition, which is not a \<open>bool\<close>.\<close>

fun run_de :: "buf_ops \<Rightarrow> impls \<Rightarrow> (string \<rightharpoonup> RustType) \<Rightarrow> locals \<Rightarrow> de_stmt \<Rightarrow> (DeserializerBoxedError, locals) parser" where
  "run_de B I ty l (Parse n r) de = do { t \<leftarrow> ty n; map_parser (\<lambda>v. l(n \<mapsto> v)) (run_read B I t r) de }"
| "run_de B I ty l (ParseIfBit n f b r) de =
     (case l f of
        Some (VInt m) \<Rightarrow>
          if m AND shl1 b > 0 then do { t \<leftarrow> ty n; map_parser (\<lambda>v. l(n \<mapsto> VOption (Some v))) (run_read B I (inner_type t) r) de }
          else Some (Ok (l(n \<mapsto> VOption None)), de)
      | _ \<Rightarrow> None)"
| "run_de B I ty l (ParseIf n f r) de = None"

fun run_des :: "buf_ops \<Rightarrow> impls \<Rightarrow> (string \<rightharpoonup> RustType) \<Rightarrow> locals \<Rightarrow> de_stmt list \<Rightarrow> (DeserializerBoxedError, locals) parser" where
  "run_des B I ty l [] de = Some (Ok l, de)"
| "run_des B I ty l (d # ds) de = do {
     (r, de) \<leftarrow> run_de B I ty l d de;
     case r of Err e \<Rightarrow> Some (Err e, de) | Ok l \<Rightarrow> run_des B I ty l ds de }"

definition struct_deserialize :: "buf_ops \<Rightarrow> impls \<Rightarrow> GenStruct \<Rightarrow> (DeserializerBoxedError, tl_val) parser" where
  "struct_deserialize B I s de = do {
     (r, de) \<leftarrow> run_des B I (map_of (struct_fields s)) Map.empty (deserialize_fields s) de;
     case r of
       Err e \<Rightarrow> Some (Err e, de)
     | Ok l \<Rightarrow> do {
         fs \<leftarrow> collect_map (\<lambda>n. map_option (Pair n) (l n)) (deserialize_pass s);
         Some (Ok (VStruct fs), de) } }"

definition struct_deserialize_boxed :: "buf_ops \<Rightarrow> impls \<Rightarrow> GenStruct \<Rightarrow> u32 \<Rightarrow> (DeserializerBoxedError, tl_val) parser" where
  "struct_deserialize_boxed B I s n de =
     (if n \<noteq> number_be s then Some (Err (UnexpectedConstructorNumber n), de) else struct_deserialize B I s de)"

text \<open>
  An enum: \<open>structs\<close> holds the generated structs by name. The arms of a match are tried in order.
\<close>

definition enum_serialize ::
    "buf_ops \<Rightarrow> impls \<Rightarrow> (string \<rightharpoonup> GenStruct) \<Rightarrow> GenEnum \<Rightarrow> Serializer \<Rightarrow> tl_val \<Rightarrow> Serializer option" where
  "enum_serialize B I structs e se v =
     (case v of
        VEnum n inner \<Rightarrow>
          if n \<in> set (number_arms e) \<and> n \<in> set (serialize_arms e) then do {
            s \<leftarrow> structs n;
            struct_serialize B I s (write_constructor_number B se (number_be s)) inner }
          else None
      | _ \<Rightarrow> None)"

definition enum_serialize_boxed ::
    "buf_ops \<Rightarrow> impls \<Rightarrow> (string \<rightharpoonup> GenStruct) \<Rightarrow> GenEnum \<Rightarrow> Serializer \<Rightarrow> tl_val \<Rightarrow> Serializer option" where
  "enum_serialize_boxed B I structs e se v = enum_serialize B I structs e se v"

fun match_number ::
    "buf_ops \<Rightarrow> impls \<Rightarrow> (string \<rightharpoonup> GenStruct) \<Rightarrow> string list \<Rightarrow> u32 \<Rightarrow> (DeserializerBoxedError, tl_val) parser" where
  "match_number B I structs [] n de = Some (Err (UnexpectedConstructorNumber n), de)"
| "match_number B I structs (a # arms) n de =
     (case structs a of
        None \<Rightarrow> None
      | Some s \<Rightarrow>
          if n = number_be s then map_parser (VEnum a) (struct_deserialize B I s) de
          else match_number B I structs arms n de)"



section \<open>What the compiler accepts\<close>

fun def_name :: "def_stmt \<Rightarrow> string" where
  "def_name (LetMut n) = n"
| "def_name (Let n) = n"
| "def_name (LetRef n) = n"
| "def_name (LetOption n _ _) = n"

text \<open>
  A flag is a field of type \<open>#\<close>, the only ones that are bound mutably, declared before the fields it
  governs. A shift of 32 bits or more overflows, which the compiler refuses for a literal.
\<close>

fun flags_declared :: "string list \<Rightarrow> def_stmt list \<Rightarrow> bool" where
  "flags_declared A [] \<longleftrightarrow> True"
| "flags_declared A (LetMut n # ds) \<longleftrightarrow> flags_declared (n # A) ds"
| "flags_declared A (LetOption n r b # ds) \<longleftrightarrow> r \<in> set A \<and> b < 32 \<and> flags_declared A ds"
| "flags_declared A (Let n # ds) \<longleftrightarrow> flags_declared A ds"
| "flags_declared A (LetRef n # ds) \<longleftrightarrow> flags_declared A ds"

fun is_option_type :: "RustType option \<Rightarrow> bool" where
  "is_option_type (Some (TyOption _)) \<longleftrightarrow> True"
| "is_option_type _ \<longleftrightarrow> False"

text \<open>
  A generated struct that compiles: the names of its fields are different, none of them hides the
  argument \<open>se\<close> or \<open>de\<close>, every flag is declared before it is used, and the conditional fields are
  declared optional. That the types of the fields are implemented is a matter of \<open>fields_typed\<close>.
\<close>

definition compiles :: "GenStruct \<Rightarrow> bool" where
  "compiles s \<longleftrightarrow> distinct (deserialize_pass s) \<and> ''se'' \<notin> set (deserialize_pass s) \<and> ''de'' \<notin> set (deserialize_pass s) \<and>
     flags_declared [] (serialize_defs s) \<and>
     list_all (\<lambda>d. case d of LetOption n _ _ \<Rightarrow> is_option_type (map_of (struct_fields s) n) | _ \<Rightarrow> True) (serialize_defs s)"


text \<open>The two together, in the form the proofs use.\<close>

fun flags_ok :: "string list \<Rightarrow> def_stmt list \<Rightarrow> bool" where
  "flags_ok A [] \<longleftrightarrow> True"
| "flags_ok A (LetMut n # ds) \<longleftrightarrow> flags_ok (n # A) ds"
| "flags_ok A (LetOption n r b # ds) \<longleftrightarrow> r \<in> set A \<and> b < 31 \<and> flags_ok A ds"
| "flags_ok A (Let n # ds) \<longleftrightarrow> flags_ok A ds"
| "flags_ok A (LetRef n # ds) \<longleftrightarrow> flags_ok A ds"

definition struct_ok :: "GenStruct \<Rightarrow> bool" where
  "struct_ok s \<longleftrightarrow> distinct (deserialize_pass s) \<and> flags_ok [] (serialize_defs s)"



section \<open>The flags of a value\<close>

fun present :: "tl_val option \<Rightarrow> bool" where
  "present (Some (VOption (Some _))) \<longleftrightarrow> True"
| "present _ \<longleftrightarrow> False"

text \<open>The value of the flag \<open>n\<close> after the bindings: the bits of its present fields are set.\<close>

fun flag_bits :: "locals \<Rightarrow> def_stmt list \<Rightarrow> string \<Rightarrow> i32 \<Rightarrow> i32" where
  "flag_bits self [] n m = m"
| "flag_bits self (LetOption x r b # ds) n m =
     flag_bits self ds n (if r = n \<and> present (self x) then m OR shl1 b else m)"
| "flag_bits self (LetMut x # ds) n m = flag_bits self ds n m"
| "flag_bits self (Let x # ds) n m = flag_bits self ds n m"
| "flag_bits self (LetRef x # ds) n m = flag_bits self ds n m"

fun flagged :: "locals \<Rightarrow> def_stmt list \<Rightarrow> string \<Rightarrow> tl_val \<Rightarrow> tl_val" where
  "flagged self ds n (VInt m) = VInt (flag_bits self ds n m)"
| "flagged self ds n v = v"

definition with_flags :: "GenStruct \<Rightarrow> (string \<times> tl_val) list \<Rightarrow> (string \<times> tl_val) list" where
  "with_flags s vs = map (\<lambda>(n, v). (n, flagged (map_of vs) (serialize_defs s) n v)) vs"

text \<open>No bit of a flag is set whose field is absent.\<close>

definition no_stale_flag :: "GenStruct \<Rightarrow> (string \<times> tl_val) list \<Rightarrow> bool" where
  "no_stale_flag s vs \<longleftrightarrow>
     list_all (\<lambda>d. case d of
         LetOption x r b \<Rightarrow> present (map_of vs x) \<or>
           (case map_of (with_flags s vs) r of Some (VInt m) \<Rightarrow> \<not> bit m (unat b) | _ \<Rightarrow> True)
       | _ \<Rightarrow> True) (serialize_defs s)"


lemma shl1_small: "b < 31 \<Longrightarrow> shl1 b = 2 ^ unat b"
proof -
  assume "b < 31"
  then have "unat b < 31" by (simp add: word_less_nat_alt)
  then have "(2 :: int) ^ unat b < 2 ^ 31" by (rule power_strict_increasing) simp
  moreover have "0 \<le> (2 :: int) ^ unat b" by simp
  ultimately have "in_i32 (2 ^ unat b)" unfolding in_i32_def by linarith
  then show ?thesis by (simp add: shl1_def wrap_simps)
qed

lemma is_i31_or: "is_i31 m \<Longrightarrow> b < 31 \<Longrightarrow> is_i31 (m OR shl1 b)"
proof -
  assume m: "is_i31 m" and b: "b < 31"
  have "unat b < 31" using b by (simp add: word_less_nat_alt)
  then have "(2 :: int) ^ unat b < 2 ^ 31" by (rule power_strict_increasing) simp
  then have "m OR 2 ^ unat b < 2 ^ 31" using m OR_upper [of m 31 "2 ^ unat b"] by (simp add: is_i31_def)
  with m b show ?thesis by (simp add: shl1_small is_i31_def)
qed

lemma and_shl1_pos: "is_i31 m \<Longrightarrow> b < 31 \<Longrightarrow> m AND shl1 b > 0 \<longleftrightarrow> bit m (unat b)"
proof -
  assume m: "is_i31 m" and b: "b < 31"
  have "m AND shl1 b = 0 \<longleftrightarrow> \<not> bit m (unat b)"
    by (simp add: shl1_small [OF b] and_exp_eq_0_iff_not_bit)
  moreover have "0 \<le> m AND shl1 b" using m by (simp add: is_i31_def)
  ultimately show ?thesis by linarith
qed

lemma bit_or_shl1: "b < 31 \<Longrightarrow> bit (m OR shl1 b) k \<longleftrightarrow> bit m k \<or> k = unat b"
  by (auto simp: shl1_small bit_or_iff bit_exp_iff)

fun flag_refs :: "def_stmt list \<Rightarrow> string set" where
  "flag_refs [] = {}"
| "flag_refs (LetOption n r b # ds) = insert r (flag_refs ds)"
| "flag_refs (_ # ds) = flag_refs ds"

lemma flag_refs_option: "LetOption x r b \<in> set ds \<Longrightarrow> r \<in> flag_refs ds"
  by (induction ds rule: flag_refs.induct) auto

lemma flag_bits_other: "n \<notin> flag_refs ds \<Longrightarrow> flag_bits self ds n m = m"
  by (induction ds rule: flag_refs.induct) auto

lemma flagged_other: "n \<notin> flag_refs ds \<Longrightarrow> flagged self ds n v = v"
  by (cases v) (auto simp: flag_bits_other)

lemma flags_ok_refs: "flags_ok A ds \<Longrightarrow> r \<in> flag_refs ds \<Longrightarrow> r \<in> set A \<or> LetMut r \<in> set ds"
  by (induction A ds rule: flags_ok.induct) auto

lemma flag_bits_i31: "flags_ok A ds \<Longrightarrow> is_i31 m \<Longrightarrow> is_i31 (flag_bits self ds n m)"
  by (induction A ds arbitrary: m rule: flags_ok.induct) (auto simp: is_i31_or)

lemma flag_bits_mono: "flags_ok A ds \<Longrightarrow> bit m k \<Longrightarrow> bit (flag_bits self ds n m) k"
  by (induction A ds arbitrary: m rule: flags_ok.induct) (auto simp: bit_or_shl1)

lemma flag_bits_present:
  "flags_ok A ds \<Longrightarrow> LetOption x r b \<in> set ds \<Longrightarrow> present (self x) \<Longrightarrow> bit (flag_bits self ds r m) (unat b)"
  by (induction A ds arbitrary: m rule: flags_ok.induct) (auto simp: bit_or_shl1 flag_bits_mono)

lemma present_flagged [simp]: "present (Some (flagged self ds n v)) \<longleftrightarrow> present (Some v)"
  by (cases v) auto

text \<open>What the bindings leave in the local variables.\<close>

definition defs_typed :: "locals \<Rightarrow> def_stmt list \<Rightarrow> bool" where
  "defs_typed self ds \<longleftrightarrow> (\<forall>d\<in>set ds. case d of
       LetMut n \<Rightarrow> (\<exists>m. self n = Some (VInt m))
     | LetOption n _ _ \<Rightarrow> (\<exists>v. self n = Some (VOption v))
     | Let n \<Rightarrow> self n \<noteq> None
     | LetRef n \<Rightarrow> self n \<noteq> None)"

lemma run_defs_let:
  assumes "run_def self d l = Some (l(n \<mapsto> w))" "def_name d = n" "self n = Some w"
    and "\<And>k. flagged self (d # ds) k = flagged self ds k" and "n \<notin> def_name ` set ds"
    and "run_defs self ds (l(n \<mapsto> w)) = Some (\<lambda>k. map_option (flagged self ds k)
      (if k \<in> def_name ` set ds then self k else (l(n \<mapsto> w)) k))"
  shows "run_defs self (d # ds) l = Some (\<lambda>k. map_option (flagged self (d # ds) k)
      (if k \<in> def_name ` set (d # ds) then self k else l k))"
  using assms by (auto intro!: ext)

lemma flagged_let:
  "flagged self (LetMut n # ds) k = flagged self ds k" "flagged self (Let n # ds) k = flagged self ds k"
  "flagged self (LetRef n # ds) k = flagged self ds k"
  by (rule ext, case_tac x; simp)+

lemma run_defs_locals:
  assumes "flags_ok A ds" "defs_typed self ds" "distinct (map def_name ds)"
    and "set A \<inter> def_name ` set ds = {}" and "\<forall>n\<in>set A. \<exists>m. l n = Some (VInt m)"
  shows "run_defs self ds l =
    Some (\<lambda>n. map_option (flagged self ds n) (if n \<in> def_name ` set ds then self n else l n))"
  using assms
proof (induction A ds arbitrary: l rule: flags_ok.induct)
  case (1 A)
  have "map_option (flagged self [] n) v = v" for n v
    using flagged_other [of n "[]" self] by (cases v) auto
  then show ?case by simp
next
  case (2 A n ds)
  then obtain m where m: "self n = Some (VInt m)" by (auto simp: defs_typed_def)
  have "run_defs self ds (l(n \<mapsto> VInt m)) = Some (\<lambda>k. map_option (flagged self ds k)
      (if k \<in> def_name ` set ds then self k else (l(n \<mapsto> VInt m)) k))"
    using 2 by (intro "2.IH") (auto simp: defs_typed_def)
  then show ?case using m 2 by (intro run_defs_let) (auto simp: flagged_let)
next
  case (3 A n r b ds)
  then obtain v where v: "self n = Some (VOption v)" by (auto simp: defs_typed_def)
  obtain m where m: "l r = Some (VInt m)" using 3 by auto
  have rn: "r \<noteq> n" using 3 by auto
  define l1 where "l1 = (if v = None then l(n \<mapsto> VOption v) else l(n \<mapsto> VOption v, r \<mapsto> VInt (m OR shl1 b)))"
  have "run_def self (LetOption n r b) l = Some l1"
    using v m rn by (cases v) (auto simp: l1_def)
  moreover have "run_defs self ds l1 = Some (\<lambda>k. map_option (flagged self ds k)
      (if k \<in> def_name ` set ds then self k else l1 k))"
    using 3 by (intro "3.IH") (auto simp: l1_def defs_typed_def)
  moreover have "flagged self (LetOption n r b # ds) k = flagged self ds k" if "k \<noteq> r \<or> v = None" for k
    using that v by (intro ext, case_tac x) auto
  moreover have "v \<noteq> None \<Longrightarrow> flagged self (LetOption n r b # ds) r (VInt m) = flagged self ds r (VInt (m OR shl1 b))"
    using v by auto
  moreover have "r \<notin> def_name ` set ds" "n \<notin> def_name ` set ds" using 3 by auto
  ultimately show ?case using v m rn by (cases "v = None") (auto simp: l1_def intro!: ext simp del: flagged.simps)
next
  case (4 A n ds)
  then obtain w where w: "self n = Some w" by (auto simp: defs_typed_def)
  have "run_defs self ds (l(n \<mapsto> w)) = Some (\<lambda>k. map_option (flagged self ds k)
      (if k \<in> def_name ` set ds then self k else (l(n \<mapsto> w)) k))"
    using 4 by (intro "4.IH") (auto simp: defs_typed_def)
  then show ?case using w 4 by (intro run_defs_let) (auto simp: flagged_let)
next
  case (5 A n ds)
  then obtain w where w: "self n = Some w" by (auto simp: defs_typed_def)
  have "run_defs self ds (l(n \<mapsto> w)) = Some (\<lambda>k. map_option (flagged self ds k)
      (if k \<in> def_name ` set ds then self k else (l(n \<mapsto> w)) k))"
    using 5 by (intro "5.IH") (auto simp: defs_typed_def)
  then show ?case using w 5 by (intro run_defs_let) (auto simp: flagged_let)
qed

section \<open>The code of one field\<close>

text \<open>
  What the generator emits for a field hangs together: the binding, the write and the read of a
  field agree on its name, its condition and its type.
\<close>

record slot =
  slot_name :: string
  slot_type :: RustType
  slot_def :: def_stmt
  slot_write :: write_op
  slot_read :: read_op
  slot_cond :: "(string \<times> u32) option"

fun matching :: "write_op \<Rightarrow> read_op \<Rightarrow> bool" where
  "matching WriteI31 ParseI31 \<longleftrightarrow> True"
| "matching WriteI32 ParseI32 \<longleftrightarrow> True"
| "matching WriteI64 ParseI64 \<longleftrightarrow> True"
| "matching WriteI256 ParseI256 \<longleftrightarrow> True"
| "matching WriteBytes ParseBytes \<longleftrightarrow> True"
| "matching WriteString ParseString \<longleftrightarrow> True"
| "matching CallSerialize (CallDeserialize _) \<longleftrightarrow> True"
| "matching _ _ \<longleftrightarrow> False"

definition slot_ok :: "slot \<Rightarrow> bool" where
  "slot_ok sl \<longleftrightarrow> matching (slot_write sl) (slot_read sl) \<and>
     (case slot_cond sl of
        None \<Rightarrow> (slot_def sl = LetMut (slot_name sl) \<longleftrightarrow> slot_write sl = WriteI31) \<and>
          slot_def sl \<in> {LetMut (slot_name sl), Let (slot_name sl), LetRef (slot_name sl)}
      | Some (r, b) \<Rightarrow> slot_def sl = LetOption (slot_name sl) r b)"

definition slot_ser :: "slot \<Rightarrow> ser_stmt" where
  "slot_ser sl = (if slot_cond sl = None then Write (slot_write sl) (slot_name sl) else WriteSome (slot_write sl) (slot_name sl))"

definition slot_de :: "slot \<Rightarrow> de_stmt" where
  "slot_de sl = (case slot_cond sl of
     None \<Rightarrow> Parse (slot_name sl) (slot_read sl) | Some (r, b) \<Rightarrow> ParseIfBit (slot_name sl) r b (slot_read sl))"

lemma matching_ops: "read_op_of K typ = Some r \<Longrightarrow> matching (write_op_of typ) r"
  by (auto simp: read_op_of_def write_op_of_def bind_eq_Some_conv split: if_splits)

lemma field_slot:
  assumes "field_ident K f = Some n" "struct_field_type K f = Some t" "serialize_def K f = Some d"
    and "serialize_field K f = Some w" "deserialize_field K f = Some r"
  shows "\<exists>sl. slot_ok sl \<and> slot_name sl = n \<and> slot_type sl = t \<and> slot_def sl = d \<and> slot_ser sl = w \<and> slot_de sl = r"
proof -
  obtain ft where ft: "field_type f = Some ft" using field_type_total by blast
  obtain rd where rd: "read_op_of K ft = Some rd"
    using assms(1,5) ft by (auto simp: deserialize_field_def bind_eq_Some_conv)
  note m = matching_ops [OF rd]
  show ?thesis
  proof (cases "type_condition f")
    case None
    with assms ft rd m show ?thesis
      by (intro exI [of _ "\<lparr>slot_name = n, slot_type = t, slot_def = d, slot_write = write_op_of ft, slot_read = rd, slot_cond = None\<rparr>"])
        (auto simp: serialize_def_def serialize_field_def deserialize_field_def slot_ok_def slot_ser_def slot_de_def
          write_op_of_def split: if_splits)
  next
    case (Some c)
    then obtain b where b: "bit_selector c = Some b"
      using assms(1,3) by (auto simp: serialize_def_def split: option.splits)
    obtain fr where fr: "format_ident K (field_ref c) = Some fr"
      using assms(1,3) Some b by (auto simp: serialize_def_def bind_eq_Some_conv)
    with assms ft rd m Some b show ?thesis
      by (intro exI [of _ "\<lparr>slot_name = n, slot_type = t, slot_def = d, slot_write = write_op_of ft, slot_read = rd, slot_cond = Some (fr, b)\<rparr>"])
        (auto simp: serialize_def_def serialize_field_def deserialize_field_def slot_ok_def slot_ser_def slot_de_def)
  qed
qed

lemma collect_slots:
  assumes "collect_map (\<lambda>f. do { n \<leftarrow> field_ident K f; t \<leftarrow> struct_field_type K f; Some (n, t) }) fs = Some tys"
    and "collect_map (serialize_def K) fs = Some defs" "collect_map (serialize_field K) fs = Some sers"
    and "collect_map (deserialize_field K) fs = Some des" "collect_map (field_ident K) fs = Some pass"
  shows "\<exists>sls. list_all slot_ok sls \<and> tys = map (\<lambda>sl. (slot_name sl, slot_type sl)) sls \<and> defs = map slot_def sls \<and>
    sers = map slot_ser sls \<and> des = map slot_de sls \<and> pass = map slot_name sls"
  using assms
proof (induction fs arbitrary: tys defs sers des pass)
  case (Cons f fs)
  then obtain n t d w r tys' defs' sers' des' pass' where
    f: "field_ident K f = Some n" "struct_field_type K f = Some t" "serialize_def K f = Some d"
      "serialize_field K f = Some w" "deserialize_field K f = Some r" and
    fs: "collect_map (\<lambda>f. do { n \<leftarrow> field_ident K f; t \<leftarrow> struct_field_type K f; Some (n, t) }) fs = Some tys'"
      "collect_map (serialize_def K) fs = Some defs'" "collect_map (serialize_field K) fs = Some sers'"
      "collect_map (deserialize_field K) fs = Some des'" "collect_map (field_ident K) fs = Some pass'" and
    eqs: "tys = (n, t) # tys'" "defs = d # defs'" "sers = w # sers'" "des = r # des'" "pass = n # pass'"
    by (auto simp: bind_eq_Some_conv)
  from field_slot [OF f] obtain sl where
    "slot_ok sl" "slot_name sl = n" "slot_type sl = t" "slot_def sl = d" "slot_ser sl = w" "slot_de sl = r" by blast
  moreover from Cons.IH [OF fs] obtain sls where
    "list_all slot_ok sls" "tys' = map (\<lambda>sl. (slot_name sl, slot_type sl)) sls" "defs' = map slot_def sls"
    "sers' = map slot_ser sls" "des' = map slot_de sls" "pass' = map slot_name sls" by blast
  ultimately show ?case using eqs by (intro exI [of _ "sl # sls"]) simp
qed simp

text \<open>The slots of a generated struct.\<close>

definition slots_of :: "GenStruct \<Rightarrow> slot list \<Rightarrow> bool" where
  "slots_of s sls \<longleftrightarrow> list_all slot_ok sls \<and> struct_fields s = map (\<lambda>sl. (slot_name sl, slot_type sl)) sls \<and>
     serialize_defs s = map slot_def sls \<and> serialize_fields s = map slot_ser sls \<and>
     deserialize_fields s = map slot_de sls \<and> deserialize_pass s = map slot_name sls"

lemma generated_slots:
  assumes "generate_bare K types c = Some (Ok s)"
  shows "\<exists>sls. slots_of s sls"
  using assms collect_slots [of K "comb_fields c"]
  by (auto simp: generate_bare_def Let_def bind_eq_Some_conv slots_of_def split: if_splits)

lemma slot_def_name: "slot_ok sl \<Longrightarrow> def_name (slot_def sl) = slot_name sl"
  by (auto simp: slot_ok_def split: option.splits)

lemma slots_def_names: "list_all slot_ok sls \<Longrightarrow> map def_name (map slot_def sls) = map slot_name sls"
  by (induction sls) (auto simp: slot_def_name)

section \<open>Generated structs are codecs\<close>







text \<open>The two together, in the form the proofs use.\<close>

fun op_valid :: "impls \<Rightarrow> (RustType \<Rightarrow> tl_val \<Rightarrow> bool) \<Rightarrow> RustType \<Rightarrow> write_op \<Rightarrow> tl_val \<Rightarrow> bool" where
  "op_valid I valid t WriteI31 (VInt i) \<longleftrightarrow> is_i31 i"
| "op_valid I valid t WriteI32 (VInt i) \<longleftrightarrow> in_i32 i"
| "op_valid I valid t WriteI64 (VLong i) \<longleftrightarrow> in_i64 i"
| "op_valid I valid t WriteI256 (VInt256 bs) \<longleftrightarrow> is_i256 bs"
| "op_valid I valid t WriteBytes (VBytes bs) \<longleftrightarrow> tl_bytes bs"
| "op_valid I valid t WriteString (VString bs) \<longleftrightarrow> tl_bytes bs \<and> utf8_valid bs"
| "op_valid I valid t CallSerialize v \<longleftrightarrow> I t \<noteq> None \<and> valid t v"
| "op_valid I valid t _ _ \<longleftrightarrow> False"

fun op_enc :: "(RustType \<Rightarrow> tl_val \<Rightarrow> bytes) \<Rightarrow> RustType \<Rightarrow> write_op \<Rightarrow> tl_val \<Rightarrow> bytes" where
  "op_enc enc t CallSerialize v = enc t v"
| "op_enc enc t w (VInt i) = enc_i32 i"
| "op_enc enc t w (VLong i) = enc_i64 i"
| "op_enc enc t w (VInt256 bs) = bs"
| "op_enc enc t w (VBytes bs) = enc_bytes bs"
| "op_enc enc t w (VString bs) = enc_bytes bs"
| "op_enc enc t w _ = []"

fun slot_valid :: "impls \<Rightarrow> (RustType \<Rightarrow> tl_val \<Rightarrow> bool) \<Rightarrow> RustType \<Rightarrow> ser_stmt \<Rightarrow> tl_val \<Rightarrow> bool" where
  "slot_valid I valid t (Write w n) v \<longleftrightarrow> op_valid I valid t w v"
| "slot_valid I valid t (WriteSome w n) (VOption None) \<longleftrightarrow> True"
| "slot_valid I valid t (WriteSome w n) (VOption (Some v)) \<longleftrightarrow> op_valid I valid (inner_type t) w v"
| "slot_valid I valid t (WriteSome w n) _ \<longleftrightarrow> False"

fun slot_enc :: "(RustType \<Rightarrow> tl_val \<Rightarrow> bytes) \<Rightarrow> RustType \<Rightarrow> ser_stmt \<Rightarrow> tl_val \<Rightarrow> bytes" where
  "slot_enc enc t (Write w n) v = op_enc enc t w v"
| "slot_enc enc t (WriteSome w n) (VOption (Some v)) = op_enc enc (inner_type t) w v"
| "slot_enc enc t (WriteSome w n) _ = []"

definition fields_valid :: "impls \<Rightarrow> (RustType \<Rightarrow> tl_val \<Rightarrow> bool) \<Rightarrow> GenStruct \<Rightarrow> (string \<times> tl_val) list \<Rightarrow> bool" where
  "fields_valid I valid s vs \<longleftrightarrow> map fst vs = deserialize_pass s \<and>
     list_all2 (\<lambda>(t, w) v. slot_valid I valid t w v) (zip (map snd (struct_fields s)) (serialize_fields s)) (map snd vs)"




definition struct_enc :: "(RustType \<Rightarrow> tl_val \<Rightarrow> bytes) \<Rightarrow> GenStruct \<Rightarrow> (string \<times> tl_val) list \<Rightarrow> bytes" where
  "struct_enc enc s vs =
     concat (map2 (\<lambda>(t, w) v. slot_enc enc t w v) (zip (map snd (struct_fields s)) (serialize_fields s)) (map snd vs))"

locale tl_types = bytes_crate B for B :: buf_ops +
  fixes I :: impls
    and enc :: "RustType \<Rightarrow> tl_val \<Rightarrow> bytes"
    and valid :: "RustType \<Rightarrow> tl_val \<Rightarrow> bool"
  assumes impl_codec: "I t = Some i \<Longrightarrow> tl_codec (impl_serialize i) (impl_deserialize i) (enc t) (valid t)"
begin

lemma write_appends:
  assumes "op_valid I valid t w v"
  shows "run_write B I t w v \<lparr>output_buf = out\<rparr> = Some \<lparr>output_buf = out @ op_enc enc t w v\<rparr>"
  using assms impl_codec [of t]
  by (cases "(I, valid, t, w, v)" rule: op_valid.cases)
    (auto simp: tl_codec.ser_appends [OF i31_codec] tl_codec.ser_appends [OF i32_codec] tl_codec.ser_appends [OF i64_codec]
      tl_codec.ser_appends [OF i256_codec] tl_codec.ser_appends [OF bytes_codec] tl_codec.ser_appends [OF string_codec]
      tl_codec.ser_appends)

lemma map_parser_ok:
  "p de = Some (Ok v, de') \<Longrightarrow> map_parser f p de = Some (Ok (f v), de')"
  by (simp add: map_parser_def)

lemma lift_parser_ok:
  "p de = Some (Ok v, de') \<Longrightarrow> lift_parser p de = Some (Ok v, de')"
  by (simp add: lift_parser_def)

lemmas scalar_reads = tl_codec.de_enc [OF i31_codec] tl_codec.de_enc [OF i32_codec] tl_codec.de_enc [OF i64_codec]
  tl_codec.de_enc [OF i256_codec] tl_codec.de_enc [OF bytes_codec] tl_codec.de_enc [OF string_codec]

lemma read_takes:
  assumes "op_valid I valid t w v" "matching w r"
  shows "run_read B I t r \<lparr>input_buf = op_enc enc t w v @ rest\<rparr> = Some (Ok v, \<lparr>input_buf = rest\<rparr>)"
  using assms impl_codec [of t]
  by (cases "(I, valid, t, w, v)" rule: op_valid.cases; cases r)
    (auto intro!: map_parser_ok lift_parser_ok simp: scalar_reads [simplified] tl_codec.de_enc)

lemma run_ser_appends:
  assumes "slot_valid I valid t st v" "ty n = Some t" "l n = Some v" "st = Write w n \<or> st = WriteSome w n"
  shows "run_ser B I ty l st \<lparr>output_buf = out\<rparr> = Some \<lparr>output_buf = out @ slot_enc enc t st v\<rparr>"
  using assms by (cases "(I, valid, t, st, v)" rule: slot_valid.cases) (auto simp: write_appends)

lemma run_sers_appends:
  assumes "\<forall>sl\<in>set sls. ty (slot_name sl) = Some (slot_type sl) \<and>
    (\<exists>v. l (slot_name sl) = Some v \<and> slot_valid I valid (slot_type sl) (slot_ser sl) v)"
  shows "run_sers B I ty l (map slot_ser sls) \<lparr>output_buf = out\<rparr> =
    Some \<lparr>output_buf = out @ concat (map (\<lambda>sl. slot_enc enc (slot_type sl) (slot_ser sl) (the (l (slot_name sl)))) sls)\<rparr>"
  using assms
proof (induction sls arbitrary: out)
  case (Cons sl sls)
  then obtain v where v: "l (slot_name sl) = Some v" "slot_valid I valid (slot_type sl) (slot_ser sl) v" by auto
  have "run_ser B I ty l (slot_ser sl) \<lparr>output_buf = out\<rparr> =
      Some \<lparr>output_buf = out @ slot_enc enc (slot_type sl) (slot_ser sl) v\<rparr>"
    using Cons.prems v by (intro run_ser_appends [where n = "slot_name sl" and w = "slot_write sl"]) (auto simp: slot_ser_def)
  then show ?case using Cons v by simp
qed simp

text \<open>Reading, when the flags that are already read say which optional fields follow.\<close>

lemma run_de_takes:
  assumes "slot_ok sl" "ty (slot_name sl) = Some (slot_type sl)"
    and "slot_valid I valid (slot_type sl) (slot_ser sl) v"
    and "\<And>r b. slot_cond sl = Some (r, b) \<Longrightarrow>
      b < 31 \<and> (\<exists>m. l r = Some (VInt m) \<and> is_i31 m \<and> (bit m (unat b) \<longleftrightarrow> present (Some v)))"
  shows "run_de B I ty l (slot_de sl) \<lparr>input_buf = slot_enc enc (slot_type sl) (slot_ser sl) v @ rest\<rparr> =
    Some (Ok (l(slot_name sl \<mapsto> v)), \<lparr>input_buf = rest\<rparr>)"
proof (cases "slot_cond sl")
  case None
  then show ?thesis using assms(1-3)
    by (auto simp: slot_de_def slot_ser_def slot_ok_def intro!: map_parser_ok read_takes)
next
  case (Some rb)
  obtain r b where rb: "rb = (r, b)" by (cases rb)
  from assms(4) Some rb obtain m where m: "l r = Some (VInt m)" "m AND shl1 b > 0 \<longleftrightarrow> present (Some v)"
    using and_shl1_pos by auto
  obtain w where v: "v = VOption w" using assms(3) Some
    by (cases "(I, valid, slot_type sl, slot_ser sl, v)" rule: slot_valid.cases) (auto simp: slot_ser_def)
  show ?thesis
  proof (cases w)
    case None
    then show ?thesis using Some rb m v by (simp add: slot_de_def slot_ser_def)
  next
    case (Some u)
    then have "op_valid I valid (inner_type (slot_type sl)) (slot_write sl) u"
      using assms(3) v \<open>slot_cond sl = Some rb\<close> by (simp add: slot_ser_def)
    moreover have "matching (slot_write sl) (slot_read sl)" using assms(1) by (simp add: slot_ok_def)
    ultimately show ?thesis using \<open>slot_cond sl = Some rb\<close> rb m v Some assms(2)
      by (simp add: slot_de_def slot_ser_def map_parser_def read_takes)
  qed
qed

lemma run_des_takes:
  assumes "list_all slot_ok sls" "flags_ok A (map slot_def sls)" "\<forall>n\<in>set A. l n = Some (w n)"
    and "\<forall>sl\<in>set sls. ty (slot_name sl) = Some (slot_type sl) \<and> slot_valid I valid (slot_type sl) (slot_ser sl) (w (slot_name sl))"
    and "\<forall>sl\<in>set sls. \<forall>r b. slot_cond sl = Some (r, b) \<longrightarrow>
      (\<exists>m. w r = VInt m \<and> is_i31 m \<and> (bit m (unat b) \<longleftrightarrow> present (Some (w (slot_name sl)))))"
  shows "run_des B I ty l (map slot_de sls)
      \<lparr>input_buf = concat (map (\<lambda>sl. slot_enc enc (slot_type sl) (slot_ser sl) (w (slot_name sl))) sls) @ rest\<rparr> =
    Some (Ok (\<lambda>n. if n \<in> slot_name ` set sls then Some (w n) else l n), \<lparr>input_buf = rest\<rparr>)"
  using assms
proof (induction sls arbitrary: A l)
  case (Cons sl sls)
  let ?v = "w (slot_name sl)" and ?l = "l(slot_name sl \<mapsto> w (slot_name sl))"
  have A: "\<exists>A'. flags_ok A' (map slot_def sls) \<and> (\<forall>n\<in>set A'. ?l n = Some (w n))"
  proof (cases "slot_def sl")
    case (LetMut n)
    then have "n = slot_name sl" using Cons.prems(1) slot_def_name [of sl] by simp
    then show ?thesis using LetMut Cons.prems(2,3) by (intro exI [of _ "n # A"]) auto
  qed (use Cons.prems(2,3) in \<open>auto intro!: exI [of _ A]\<close>)
  have cond: "b < 31 \<and> (\<exists>m. l r = Some (VInt m) \<and> is_i31 m \<and> (bit m (unat b) \<longleftrightarrow> present (Some ?v)))"
    if "slot_cond sl = Some (r, b)" for r b
  proof -
    have "slot_def sl = LetOption (slot_name sl) r b" using Cons.prems(1) that by (simp add: slot_ok_def)
    then have "r \<in> set A" "b < 31" using Cons.prems(2) by simp_all
    then show ?thesis using Cons.prems(3,5) that by auto
  qed
  have "run_de B I ty l (slot_de sl)
      \<lparr>input_buf = slot_enc enc (slot_type sl) (slot_ser sl) ?v @
        concat (map (\<lambda>sl. slot_enc enc (slot_type sl) (slot_ser sl) (w (slot_name sl))) sls) @ rest\<rparr> =
      Some (Ok ?l, \<lparr>input_buf = concat (map (\<lambda>sl. slot_enc enc (slot_type sl) (slot_ser sl) (w (slot_name sl))) sls) @ rest\<rparr>)"
    using Cons.prems cond by (intro run_de_takes) auto
  moreover from A obtain A' where "flags_ok A' (map slot_def sls)" "\<forall>n\<in>set A'. ?l n = Some (w n)" by blast
  then have "run_des B I ty ?l (map slot_de sls)
      \<lparr>input_buf = concat (map (\<lambda>sl. slot_enc enc (slot_type sl) (slot_ser sl) (w (slot_name sl))) sls) @ rest\<rparr> =
    Some (Ok (\<lambda>n. if n \<in> slot_name ` set sls then Some (w n) else ?l n), \<lparr>input_buf = rest\<rparr>)"
    using Cons.prems by (intro Cons.IH) auto
  ultimately show ?case by (auto intro!: ext)
qed simp

lemma map_of_map_values: "map_of (map (\<lambda>(n, v). (n, f n v)) vs) k = map_option (f k) (map_of vs k)"
  by (induction vs) auto

lemma map_of_assoc: "distinct (map fst ws) \<Longrightarrow> map (\<lambda>n. (n, the (map_of ws n))) (map fst ws) = ws"
  by (auto intro!: map_idI simp: comp_def)

lemma map_of_values: "distinct (map fst ws) \<Longrightarrow> map snd ws = map (\<lambda>n. the (map_of ws n)) (map fst ws)"
  by (auto simp: comp_def)

lemma map_of_slots: "distinct (map slot_name sls) \<Longrightarrow> sl \<in> set sls \<Longrightarrow>
    map_of (map (\<lambda>sl. (slot_name sl, slot_type sl)) sls) (slot_name sl) = Some (slot_type sl)"
  by (auto intro!: map_of_is_SomeI simp: comp_def)

lemma fields_valid_slots:
  assumes "slots_of s sls" "distinct (map slot_name sls)" "fields_valid I valid s vs" "sl \<in> set sls"
  shows "\<exists>v. map_of vs (slot_name sl) = Some v \<and> slot_valid I valid (slot_type sl) (slot_ser sl) v"
proof -
  from assms(1,3) have fst: "map fst vs = map slot_name sls" and
    all: "list_all2 (\<lambda>(t, w) v. slot_valid I valid t w v) (zip (map slot_type sls) (map slot_ser sls)) (map snd vs)"
    by (simp_all add: slots_of_def fields_valid_def comp_def)
  from assms(4) obtain i where i: "i < length sls" "sl = sls ! i" by (auto simp: in_set_conv_nth)
  have len: "length vs = length sls" using fst by (metis length_map)
  have "vs ! i = (slot_name sl, snd (vs ! i))" using fst i len by (metis nth_map prod.collapse)
  then have "(slot_name sl, snd (vs ! i)) \<in> set vs" using i len by (metis nth_mem)
  then have "map_of vs (slot_name sl) = Some (snd (vs ! i))" using fst assms(2) by (simp add: map_of_is_SomeI)
  moreover have "slot_valid I valid (slot_type sl) (slot_ser sl) (snd (vs ! i))"
    using list_all2_nthD [OF all, of i] i len by simp
  ultimately show ?thesis by blast
qed

lemma map_of_with_flags: "map_of (with_flags s vs) n = map_option (flagged (map_of vs) (serialize_defs s) n) (map_of vs n)"
  unfolding with_flags_def by (rule map_of_map_values)

lemma struct_enc_slots:
  assumes "slots_of s sls" "distinct (map slot_name sls)" "map fst ws = map slot_name sls"
  shows "struct_enc enc s ws = concat (map (\<lambda>sl. slot_enc enc (slot_type sl) (slot_ser sl) (the (map_of ws (slot_name sl)))) sls)"
proof -
  have "map snd ws = map (\<lambda>n. the (map_of ws n)) (map slot_name sls)"
    using map_of_values [of ws] assms(2,3) by simp
  then show ?thesis using assms(1)
    by (simp add: struct_enc_def slots_of_def comp_def zip_map_map map2_map_map zip_same_conv_map)
qed

lemma flagged_valid:
  assumes "slots_of s sls" "struct_ok s" "sl \<in> set sls" "slot_valid I valid (slot_type sl) (slot_ser sl) v"
  shows "slot_valid I valid (slot_type sl) (slot_ser sl) (flagged self (serialize_defs s) (slot_name sl) v)"
proof -
  have ok: "slot_ok sl" and flags: "flags_ok [] (serialize_defs s)" and names: "distinct (map slot_name sls)"
    using assms(1-3) by (auto simp: slots_of_def struct_ok_def list_all_iff)
  consider (cond) "slot_cond sl \<noteq> None" | (flag) "slot_cond sl = None" "slot_write sl = WriteI31"
    | (plain) "slot_cond sl = None" "slot_def sl \<noteq> LetMut (slot_name sl)"
    using ok by (auto simp: slot_ok_def split: option.splits)
  then show ?thesis
  proof cases
    case cond
    then obtain w where "v = VOption w" using assms(4)
      by (cases "(I, valid, slot_type sl, slot_ser sl, v)" rule: slot_valid.cases) (auto simp: slot_ser_def)
    then show ?thesis using assms(4) by simp
  next
    case flag
    then obtain m where "v = VInt m" "is_i31 m" using assms(4) by (cases v) (auto simp: slot_ser_def)
    then show ?thesis using flag flag_bits_i31 [OF flags] by (simp add: slot_ser_def)
  next
    case plain
    have "LetMut (slot_name sl) \<notin> set (serialize_defs s)"
    proof
      assume "LetMut (slot_name sl) \<in> set (serialize_defs s)"
      then obtain sl' where sl': "sl' \<in> set sls" "slot_def sl' = LetMut (slot_name sl)"
        using assms(1) by (auto simp: slots_of_def)
      then have "slot_name sl' = slot_name sl"
        using assms(1) slot_def_name [of sl'] by (auto simp: slots_of_def list_all_iff)
      then have "sl' = sl" using names sl'(1) assms(3) by (auto simp: distinct_map inj_on_def)
      then show False using plain sl' by simp
    qed
    then have "slot_name sl \<notin> flag_refs (serialize_defs s)" using flags_ok_refs [OF flags] by auto
    then show ?thesis using assms(4) by (simp add: flagged_other)
  qed
qed

lemma slots_typed:
  assumes "slots_of s sls" "distinct (map slot_name sls)" "fields_valid I valid s vs"
  shows "defs_typed (map_of vs) (serialize_defs s)"
  unfolding defs_typed_def
proof
  fix d
  assume "d \<in> set (serialize_defs s)"
  then obtain sl where sl: "sl \<in> set sls" "d = slot_def sl" using assms(1) by (auto simp: slots_of_def)
  then have ok: "slot_ok sl" using assms(1) by (auto simp: slots_of_def list_all_iff)
  from fields_valid_slots [OF assms sl(1)] obtain v where
    v: "map_of vs (slot_name sl) = Some v" "slot_valid I valid (slot_type sl) (slot_ser sl) v" by blast
  have "\<exists>w. v = VOption w" if "slot_cond sl \<noteq> None"
    using v(2) that by (cases "(I, valid, slot_type sl, slot_ser sl, v)" rule: slot_valid.cases) (auto simp: slot_ser_def)
  moreover have "\<exists>m. v = VInt m" if "slot_cond sl = None" "slot_write sl = WriteI31"
    using v(2) that by (cases v) (auto simp: slot_ser_def)
  ultimately show "case d of LetMut n \<Rightarrow> \<exists>m. map_of vs n = Some (VInt m) | Let n \<Rightarrow> map_of vs n \<noteq> None
      | LetRef n \<Rightarrow> map_of vs n \<noteq> None | LetOption n _ _ \<Rightarrow> \<exists>w. map_of vs n = Some (VOption w)"
    using ok v(1) sl(2) by (auto simp: slot_ok_def split: option.splits)
qed

lemma serialize_locals:
  assumes "slots_of s sls" "struct_ok s" "fields_valid I valid s vs"
  shows "run_defs (map_of vs) (serialize_defs s) Map.empty = Some (map_of (with_flags s vs))"
proof -
  have d: "distinct (map slot_name sls)" "map def_name (serialize_defs s) = map slot_name sls"
    using assms(1,2) slots_def_names [of sls] by (simp_all add: slots_of_def struct_ok_def)
  have n: "def_name ` set (serialize_defs s) = fst ` set vs"
    using d(2) assms(1,3) by (metis fields_valid_def slots_of_def set_map)
  have "run_defs (map_of vs) (serialize_defs s) Map.empty =
      Some (\<lambda>n. map_option (flagged (map_of vs) (serialize_defs s) n)
        (if n \<in> def_name ` set (serialize_defs s) then map_of vs n else None))"
    using assms(2) d slots_typed [OF assms(1) d(1) assms(3)]
    by (intro run_defs_locals [where A = "[]"]) (simp_all add: struct_ok_def)
  moreover have "(if n \<in> def_name ` set (serialize_defs s) then map_of vs n else None) = map_of vs n" for n
    unfolding n by (metis map_of_eq_None_iff)
  ultimately show ?thesis by (simp add: map_of_with_flags fun_eq_iff)
qed

lemma with_flags_slots:
  assumes "slots_of s sls" "struct_ok s" "fields_valid I valid s vs" "sl \<in> set sls"
  shows "\<exists>v. map_of (with_flags s vs) (slot_name sl) = Some v \<and> slot_valid I valid (slot_type sl) (slot_ser sl) v"
proof -
  have "distinct (map slot_name sls)" using assms(1,2) by (simp add: slots_of_def struct_ok_def)
  from fields_valid_slots [OF assms(1) this assms(3,4)] obtain v where
    "map_of vs (slot_name sl) = Some v" "slot_valid I valid (slot_type sl) (slot_ser sl) v" by blast
  then show ?thesis using flagged_valid [OF assms(1,2,4)] by (simp add: map_of_with_flags)
qed

lemma with_flags_names: "map fst (with_flags s vs) = map fst vs"
  by (simp add: with_flags_def comp_def case_prod_beta)

lemma struct_serialize_appends:
  assumes "slots_of s sls" "struct_ok s" "fields_valid I valid s vs"
  shows "struct_serialize B I s \<lparr>output_buf = out\<rparr> (VStruct vs) =
    Some \<lparr>output_buf = out @ struct_enc enc s (with_flags s vs)\<rparr>"
proof -
  have d: "distinct (map slot_name sls)" using assms(1,2) by (simp add: slots_of_def struct_ok_def)
  have n: "map fst (with_flags s vs) = map slot_name sls"
    using assms(1,3) by (simp add: with_flags_names fields_valid_def slots_of_def)
  have "run_sers B I (map_of (struct_fields s)) (map_of (with_flags s vs)) (map slot_ser sls) \<lparr>output_buf = out\<rparr> =
      Some \<lparr>output_buf = out @ struct_enc enc s (with_flags s vs)\<rparr>"
    unfolding struct_enc_slots [OF assms(1) d n]
    using assms(1) map_of_slots [OF d] with_flags_slots [OF assms]
    by (intro run_sers_appends) (simp add: slots_of_def)
  then show ?thesis using serialize_locals [OF assms] assms(1)
    by (simp add: struct_serialize_def slots_of_def)
qed

text \<open>The flag of an optional field, as it is written: not negative, and with the bits of the present fields.\<close>

lemma flag_value:
  assumes "slots_of s sls" "struct_ok s" "fields_valid I valid s vs" "sl \<in> set sls" "slot_cond sl = Some (r, b)"
  shows "LetOption (slot_name sl) r b \<in> set (serialize_defs s)"
    and "\<exists>m. map_of (with_flags s vs) r = Some (VInt m) \<and> is_i31 m \<and>
      (present (map_of vs (slot_name sl)) \<longrightarrow> bit m (unat b))"
proof -
  have flags: "flags_ok [] (serialize_defs s)" using assms(2) by (simp add: struct_ok_def)
  have "slot_ok sl" using assms(1,4) by (auto simp: slots_of_def list_all_iff)
  then show opt: "LetOption (slot_name sl) r b \<in> set (serialize_defs s)"
    using assms(1,4,5) by (auto simp: slots_of_def slot_ok_def image_iff intro!: bexI [of _ sl])
  then have "r \<in> flag_refs (serialize_defs s)" by (rule flag_refs_option)
  then have "LetMut r \<in> set (serialize_defs s)" using flags_ok_refs [OF flags] by auto
  then obtain fl where fl: "fl \<in> set sls" "slot_def fl = LetMut r" using assms(1) by (auto simp: slots_of_def)
  then have "slot_ok fl" using assms(1) by (auto simp: slots_of_def list_all_iff)
  then have fl_name: "slot_name fl = r" and fl_op: "slot_ser fl = Write WriteI31 r"
    using fl(2) slot_def_name [of fl] by (auto simp: slot_ok_def slot_ser_def split: option.splits)
  from with_flags_slots [OF assms(1-3) fl(1)] obtain v where
    "map_of (with_flags s vs) r = Some v" "op_valid I valid (slot_type fl) WriteI31 v"
    by (auto simp: fl_name fl_op)
  then obtain m where m: "map_of (with_flags s vs) r = Some (VInt m)" "is_i31 m" by (cases v) auto
  then obtain m0 where "m = flag_bits (map_of vs) (serialize_defs s) r m0"
    by (auto simp: map_of_with_flags elim!: flagged.elims)
  with m flag_bits_present [OF flags opt] show "\<exists>m. map_of (with_flags s vs) r = Some (VInt m) \<and> is_i31 m \<and>
      (present (map_of vs (slot_name sl)) \<longrightarrow> bit m (unat b))"
    by blast
qed

lemma present_with_flags: "present (map_of (with_flags s vs) n) \<longleftrightarrow> present (map_of vs n)"
proof (cases "map_of vs n")
  case (Some v)
  then show ?thesis by (cases v) (simp_all add: map_of_with_flags)
qed (simp add: map_of_with_flags)

lemma flag_of_slot:
  assumes "slots_of s sls" "struct_ok s" "fields_valid I valid s vs" "no_stale_flag s vs"
    and "sl \<in> set sls" "slot_cond sl = Some (r, b)"
  shows "\<exists>m. map_of (with_flags s vs) r = Some (VInt m) \<and> is_i31 m \<and>
    (bit m (unat b) \<longleftrightarrow> present (map_of (with_flags s vs) (slot_name sl)))"
  using flag_value [OF assms(1-3,5,6)] assms(4)
  by (fastforce simp: no_stale_flag_def list_all_iff present_with_flags)

lemma struct_deserialize_takes:
  assumes "slots_of s sls" "struct_ok s" "fields_valid I valid s vs" "no_stale_flag s vs"
  shows "struct_deserialize B I s \<lparr>input_buf = struct_enc enc s (with_flags s vs) @ rest\<rparr> =
    Some (Ok (VStruct (with_flags s vs)), \<lparr>input_buf = rest\<rparr>)"
proof -
  let ?ws = "with_flags s vs" and ?w = "\<lambda>n. the (map_of (with_flags s vs) n)"
  have d: "distinct (map slot_name sls)" using assms(1,2) by (simp add: slots_of_def struct_ok_def)
  have n: "map fst ?ws = map slot_name sls"
    using assms(1,3) by (simp add: with_flags_names fields_valid_def slots_of_def)
  note slots = with_flags_slots [OF assms(1-3)]
  have "run_des B I (map_of (struct_fields s)) Map.empty (map slot_de sls)
      \<lparr>input_buf = concat (map (\<lambda>sl. slot_enc enc (slot_type sl) (slot_ser sl) (?w (slot_name sl))) sls) @ rest\<rparr> =
    Some (Ok (\<lambda>n. if n \<in> slot_name ` set sls then Some (?w n) else None), \<lparr>input_buf = rest\<rparr>)"
  proof (rule run_des_takes [where A = "[]"])
    show "list_all slot_ok sls" "flags_ok [] (map slot_def sls)" using assms(1,2) by (simp_all add: slots_of_def struct_ok_def)
    show "\<forall>sl\<in>set sls. map_of (struct_fields s) (slot_name sl) = Some (slot_type sl) \<and>
        slot_valid I valid (slot_type sl) (slot_ser sl) (?w (slot_name sl))"
      using assms(1) map_of_slots [OF d] slots by (fastforce simp: slots_of_def)
    show "\<forall>sl\<in>set sls. \<forall>r b. slot_cond sl = Some (r, b) \<longrightarrow>
        (\<exists>m. ?w r = VInt m \<and> is_i31 m \<and> (bit m (unat b) \<longleftrightarrow> present (Some (?w (slot_name sl)))))"
      using flag_of_slot [OF assms] slots by (metis option.sel)
  qed simp
  moreover have "collect_map (\<lambda>n. map_option (Pair n) (if n \<in> slot_name ` set sls then Some (?w n) else None)) ns =
      Some (map (\<lambda>n. (n, ?w n)) ns)" if "set ns \<subseteq> slot_name ` set sls" for ns
    using that by (induction ns) auto
  then have "collect_map (\<lambda>n. map_option (Pair n) (if n \<in> slot_name ` set sls then Some (?w n) else None)) (map slot_name sls) =
      Some ?ws"
    using map_of_assoc [of ?ws] n d by simp
  ultimately show ?thesis using assms(1)
    by (simp add: struct_deserialize_def struct_enc_slots [OF assms(1) d n] slots_of_def)
qed

end

section \<open>What a reader can return\<close>






text \<open>
  The traits of a generated struct, as the implementation of its type. The values it carries
  unchanged are those whose flags agree with their optional fields.
\<close>

definition struct_impl :: "buf_ops \<Rightarrow> impls \<Rightarrow> GenStruct \<Rightarrow> type_impl" where
  "struct_impl B I s = \<lparr>
     impl_serialize = (\<lambda>se v. case struct_serialize B I s se v of Some se' \<Rightarrow> se' | None \<Rightarrow> se),
     impl_deserialize = struct_deserialize B I s\<rparr>"

definition struct_valid :: "impls \<Rightarrow> (RustType \<Rightarrow> tl_val \<Rightarrow> bool) \<Rightarrow> GenStruct \<Rightarrow> tl_val \<Rightarrow> bool" where
  "struct_valid I valid s v = (case v of
     VStruct vs \<Rightarrow> fields_valid I valid s vs \<and> no_stale_flag s vs \<and> with_flags s vs = vs | _ \<Rightarrow> False)"

definition val_enc :: "(RustType \<Rightarrow> tl_val \<Rightarrow> bytes) \<Rightarrow> GenStruct \<Rightarrow> tl_val \<Rightarrow> bytes" where
  "val_enc enc s v = (case v of VStruct vs \<Rightarrow> struct_enc enc s vs | _ \<Rightarrow> [])"



context tl_types
begin

lemma struct_impl_codec:
  assumes "slots_of s sls" "struct_ok s"
  shows "tl_codec (impl_serialize (struct_impl B I s)) (impl_deserialize (struct_impl B I s)) (val_enc enc s) (struct_valid I valid s)"
proof (unfold_locales, goal_cases)
  case (1 v out)
  then show ?case using struct_serialize_appends [OF assms]
    by (auto simp: struct_valid_def struct_impl_def val_enc_def split: tl_val.splits)
next
  case (2 v rest)
  then obtain vs where v: "v = VStruct vs" and ok: "fields_valid I valid s vs" "no_stale_flag s vs" and eq: "with_flags s vs = vs"
    by (auto simp: struct_valid_def split: tl_val.splits)
  show ?case using struct_deserialize_takes [OF assms ok, of rest] by (simp add: v eq struct_impl_def val_enc_def)
qed

text \<open>A type is added to the implemented ones.\<close>

lemma add_type:
  assumes "tl_codec (impl_serialize i) (impl_deserialize i) e p"
  shows "tl_types B (I(t \<mapsto> i)) (enc(t := e)) (valid(t := p))"
  using assms impl_codec bytes_crate_axioms by (auto simp: tl_types_def tl_types_axioms_def)

lemma struct_boxed_roundtrip:
  assumes "slots_of s sls" "struct_ok s" "fields_valid I valid s vs" "no_stale_flag s vs"
  shows "struct_serialize_boxed B I s \<lparr>output_buf = out\<rparr> (VStruct vs) =
      Some \<lparr>output_buf = out @ be_bytes 4 (unat (number_be s)) @ struct_enc enc s (with_flags s vs)\<rparr>"
    and "from_bytes_boxed B (struct_deserialize_boxed B I s)
      (be_bytes 4 (unat (number_be s)) @ struct_enc enc s (with_flags s vs)) = Some (Ok (VStruct (with_flags s vs)))"
  using struct_serialize_appends [OF assms(1-3)] struct_deserialize_takes [OF assms, of "[]"]
  by (simp_all add: struct_serialize_boxed_def from_bytes_boxed_def struct_deserialize_boxed_def
      tl_codec.ser_appends [OF constructor_number_codec] tl_codec.de_enc [OF constructor_number_codec])

lemma match_number_first:
  assumes "a \<in> set arms" "\<forall>x\<in>set arms. \<exists>s. structs x = Some s \<and> (number_be s = n \<longrightarrow> x = a)"
    and "structs a = Some s" "number_be s = n"
  shows "match_number B I structs arms n de = map_parser (VEnum a) (struct_deserialize B I s) de"
  using assms(1,2)
proof (induction arms)
  case (Cons x arms)
  then obtain sx where x: "structs x = Some sx" "number_be sx = n \<Longrightarrow> x = a" by auto
  show ?case
  proof (cases "x = a")
    case True
    then show ?thesis using assms(3,4) by simp
  next
    case False
    then have "n \<noteq> number_be sx" using x(2) by blast
    moreover have "match_number B I structs arms n de = map_parser (VEnum a) (struct_deserialize B I s) de"
      using False Cons.prems by (intro Cons.IH) simp_all
    ultimately show ?thesis using x(1) by simp
  qed
qed simp

lemma match_number_unknown:
  "\<forall>x\<in>set arms. \<exists>s. structs x = Some s \<and> number_be s \<noteq> n \<Longrightarrow>
   match_number B I structs arms n de = Some (Err (UnexpectedConstructorNumber n), de)"
  by (induction arms) auto

end


lemma generated_number_wire:
  assumes "generate_bare K types c = Some (Ok s)"
  shows "be_bytes 4 (unat (number_be s)) = le_bytes 4 (unat (constructor_number_le (crc32_hash K) c))"
proof -
  have "number_be s = constructor_number_be (crc32_hash K) c"
    using assms by (auto simp: generate_bare_def Let_def bind_eq_Some_conv split: if_splits)
  then show ?thesis by (simp add: constructor_number_be_def be_bytes_to_be constructor_number_le_def)
qed

lemma generated_boxed_wire:
  assumes "tl_types B I enc valid" "generate_bare K types c = Some (Ok s)" "struct_ok s"
    and "fields_valid I valid s vs" "no_stale_flag s vs"
  shows "\<exists>bs. struct_serialize_boxed B I s \<lparr>output_buf = []\<rparr> (VStruct vs) =
      Some \<lparr>output_buf = le_bytes 4 (unat (constructor_number_le (crc32_hash K) c)) @ bs\<rparr> \<and>
    from_bytes_boxed B (struct_deserialize_boxed B I s) (le_bytes 4 (unat (constructor_number_le (crc32_hash K) c)) @ bs) =
      Some (Ok (VStruct (with_flags s vs)))"
proof -
  have B: "bytes_crate B" using assms(1) by (simp add: tl_types_def)
  note codec = bytes_crate.constructor_number_codec [OF B]
  obtain sls where sls: "slots_of s sls" using generated_slots [OF assms(2)] by blast
  show ?thesis
    unfolding generated_number_wire [OF assms(2), symmetric]
    using tl_types.struct_serialize_appends [OF assms(1) sls assms(3,4)]
      tl_types.struct_deserialize_takes [OF assms(1) sls assms(3-5), of "[]"]
    by (simp add: struct_serialize_boxed_def struct_deserialize_boxed_def from_bytes_boxed_def
        tl_codec.ser_appends [OF codec] tl_codec.de_enc [OF codec])
qed

section \<open>The schema of the lite server, in part\<close>

definition std_gen :: gen_ops where
  "std_gen = \<lparr>to_snake = (\<lambda>s. s),
     to_upper_camel = (\<lambda>s. case s of [] \<Rightarrow> [] | c # cs \<Rightarrow> (if 97 \<le> (of_char c :: nat) then char_of (of_char c - 32 :: nat) else c) # cs),
     is_ident = (\<lambda>s. s \<noteq> []), is_generic_argument = (\<lambda>_. True), is_meta_list = (\<lambda>_. True), crc32_hash = (\<lambda>s. of_nat (length s))\<rparr>"

definition plain_field :: "string \<Rightarrow> string \<Rightarrow> Field" where
  "plain_field n t = Field (Some n) (Plain t None) False"

definition flag_field :: "string \<Rightarrow> string \<Rightarrow> u32 \<Rightarrow> string \<Rightarrow> Field" where
  "flag_field n r b t = Field (Some n) (Plain t (Some \<lparr>field_ref = r, bit_selector = Some b\<rparr>)) False"





lemmas generator_defs = generate_bare_def structure_ident_def format_ident_def generate_type_name_def rsplit_once_def
  field_ident_def struct_field_type_def serialize_def_def serialize_field_def deserialize_field_def write_op_of_def
  read_op_of_def parse_generic_argument_def is_uppercase_def type_configuration_default_def















section \<open>Properties\<close>





















text \<open>
  A struct with a flag and one optional field, \<open>x mode:# lt:mode.b?long\<close>.
\<close>

definition flag_combinator :: "u32 \<Rightarrow> Combinator" where
  "flag_combinator b = \<lparr>functional = False, builtin = False, comb_id = ''x'', result_type = ''X'', constructor_number = None,
     optional_fields = [], comb_fields = [plain_field ''mode'' ''#'', flag_field ''lt'' ''mode'' b ''long'']\<rparr>"

lemma flag_combinator_generated:
  assumes "generate_bare std_gen Map.empty (flag_combinator b) = Some (Ok s)"
  shows "struct_fields s = [(''mode'', TyName ''Int31''), (''lt'', TyOption (TyName ''Long''))]"
    "serialize_defs s = [LetMut ''mode'', LetOption ''lt'' ''mode'' b]"
    "serialize_fields s = [Write WriteI31 ''mode'', WriteSome WriteI64 ''lt'']"
    "deserialize_fields s = [Parse ''mode'' ParseI31, ParseIfBit ''lt'' ''mode'' b ParseI64]"
    "deserialize_pass s = [''mode'', ''lt'']"
  using assms
  by (auto simp: generator_defs std_gen_def flag_combinator_def plain_field_def flag_field_def Let_def char_of_def bit_0)

text \<open>
  What happens on a stale flag: the value is written without the field, and the reader then takes the
  field from whatever bytes come next, or panics when there are none.
\<close>

lemma stale_flag_reads_on:
  assumes "bytes_crate B" and "generate_bare std_gen Map.empty (flag_combinator b) = Some (Ok s)"
    and "b < 31" "is_i31 m" "bit m (unat b)" "in_i64 x"
  shows "struct_serialize B I s \<lparr>output_buf = out\<rparr> (VStruct [(''mode'', VInt m), (''lt'', VOption None)]) =
      Some \<lparr>output_buf = out @ enc_i32 m\<rparr>
    \<and> struct_deserialize B I s \<lparr>input_buf = enc_i32 m @ enc_i64 x @ rest\<rparr> =
      Some (Ok (VStruct [(''mode'', VInt m), (''lt'', VOption (Some (VLong x)))]), \<lparr>input_buf = rest\<rparr>)
    \<and> struct_deserialize B I s \<lparr>input_buf = enc_i32 m\<rparr> = None"
proof -
  note f = flag_combinator_generated [OF assms(2)]
  note i31 = bytes_crate.i31_codec [OF assms(1)] and i64 = bytes_crate.i64_codec [OF assms(1)]
  have pos: "m AND shl1 b > 0" using and_shl1_pos [OF assms(4,3)] assms(5) by simp
  have none: "parse_i64 B \<lparr>input_buf = []\<rparr> = None"
    by (simp add: parse_i64_def bytes_crate.get_i64_le [OF assms(1)])
  have read: "parse_i31 B \<lparr>input_buf = enc_i32 m\<rparr> = Some (Ok m, \<lparr>input_buf = []\<rparr>)"
    using tl_codec.de_enc [OF i31 assms(4), of "[]"] by simp
  show ?thesis
    using pos none read
    by (simp add: struct_serialize_def struct_deserialize_def f tl_codec.ser_appends [OF i31 assms(4)]
        tl_codec.de_enc [OF i31 assms(4)] tl_codec.de_enc [OF i64 assms(6)] map_parser_def lift_parser_def)
qed

text \<open>
  A field on bit 31 compiles and is written, and is never read: its bit is lost with the sign of the
  flag, and the comparison with 0 would not see it.
\<close>

lemma bit_31_never_read:
  assumes "bytes_crate B" and "generate_bare std_gen Map.empty (flag_combinator 31) = Some (Ok s)"
    and "is_i31 m" "in_i64 x"
  shows "compiles s"
    and "struct_serialize B I s \<lparr>output_buf = out\<rparr> (VStruct [(''mode'', VInt m), (''lt'', VOption (Some (VLong x)))]) =
      Some \<lparr>output_buf = out @ enc_i32 m @ enc_i64 x\<rparr>"
    and "struct_deserialize B I s \<lparr>input_buf = enc_i32 m @ enc_i64 x @ rest\<rparr> =
      Some (Ok (VStruct [(''mode'', VInt m), (''lt'', VOption None)]), \<lparr>input_buf = enc_i64 x @ rest\<rparr>)"
proof -
  note f = flag_combinator_generated [OF assms(2)]
  note i31 = bytes_crate.i31_codec [OF assms(1)] and i64 = bytes_crate.i64_codec [OF assms(1)]
  have shl: "shl1 31 = NOT (mask 31)" by (simp add: shl1_def wrap_i32_def minus_exp_eq_not_mask [symmetric])
  have self: "m AND mask 31 = m" using assms(3) by (simp add: take_bit_eq_mask [symmetric] is_i31_def take_bit_int_eq_self)
  have zero: "m AND NOT (mask 31) = 0"
    by (subst self [symmetric]) (simp add: and.assoc)
  have "(m OR NOT (mask 31)) AND mask 31 = m" by (simp add: bit.conj_disj_distrib2 self)
  then have w: "write_i31 B \<lparr>output_buf = out\<rparr> (m OR NOT (mask 31)) = write_i31 B \<lparr>output_buf = out\<rparr> m"
    using self by (simp add: write_i31_def mask_numeral)
  show "compiles s" by (simp add: compiles_def f)
  show "struct_serialize B I s \<lparr>output_buf = out\<rparr> (VStruct [(''mode'', VInt m), (''lt'', VOption (Some (VLong x)))]) =
      Some \<lparr>output_buf = out @ enc_i32 m @ enc_i64 x\<rparr>"
    by (simp add: struct_serialize_def f shl w tl_codec.ser_appends [OF i31 assms(3)] tl_codec.ser_appends [OF i64 assms(4)])
  show "struct_deserialize B I s \<lparr>input_buf = enc_i32 m @ enc_i64 x @ rest\<rparr> =
      Some (Ok (VStruct [(''mode'', VInt m), (''lt'', VOption None)]), \<lparr>input_buf = enc_i64 x @ rest\<rparr>)"
    by (simp add: struct_deserialize_def f tl_codec.de_enc [OF i31 assms(3)] map_parser_def lift_parser_def shl zero)
qed




end
