(* ===== verification/Tonlib_Generator.thy ===== *)
theory Tonlib_Generator
  imports Tl_Generator
begin

text \<open>
  The generator of the types of the C library's JSON interface, \<^verbatim>\<open>tonlibjson-client/build.rs\<close>, with
  the configuration its \<open>main\<close> builds, and the decoders of \<^verbatim>\<open>deserialize.rs\<close> that the generated
  attributes name. The generator differs from that of the lite server types: the structs are encoded
  by \<^verbatim>\<open>serde\<close> after attributes, and a configuration may skip a field, make it optional or name its
  encoder and decoder. As in \<open>Tl_Generator\<close> the quoted items are records, panics are \<open>None\<close>, and the
  crates are parameters; a deserializer is the value it holds, with the ways of \<^verbatim>\<open>serde\<close> to read it.
\<close>

section \<open>Configuration\<close>

record FieldConfiguration =
  conf_skip :: bool
  conf_optional :: bool
  conf_deserialize_with :: "string option"
  conf_serialize_with :: "string option"

record FieldConfigurationBuilder =
  fb_skip :: bool
  fb_optional :: bool
  fb_deserialize_with :: "string option"
  fb_serialize_with :: "string option"

record JsonTypeConfiguration =
  json_derives :: "string list"
  json_fields :: "string \<rightharpoonup> FieldConfiguration"

record TypeConfigurationBuilder =
  tb_derives :: "string list"
  tb_fields :: "string \<rightharpoonup> FieldConfiguration"

definition json_type_default :: JsonTypeConfiguration where
  "json_type_default = \<lparr>json_derives = [''Debug'', ''Clone'', ''Serialize'', ''Deserialize''], json_fields = Map.empty\<rparr>"

definition field_default :: FieldConfiguration where
  "field_default = \<lparr>conf_skip = False, conf_optional = False, conf_deserialize_with = None, conf_serialize_with = None\<rparr>"

definition configure_type :: TypeConfigurationBuilder where
  "configure_type = \<lparr>tb_derives = [], tb_fields = Map.empty\<rparr>"

definition configure_field :: FieldConfigurationBuilder where
  "configure_field = \<lparr>fb_skip = False, fb_optional = False, fb_deserialize_with = None, fb_serialize_with = None\<rparr>"

definition fb_set_skip :: "FieldConfigurationBuilder \<Rightarrow> FieldConfigurationBuilder" where
  "fb_set_skip b = b\<lparr>fb_skip := True\<rparr>"

definition fb_set_optional :: "FieldConfigurationBuilder \<Rightarrow> FieldConfigurationBuilder" where
  "fb_set_optional b = b\<lparr>fb_optional := True\<rparr>"

definition fb_set_deserialize_with :: "string \<Rightarrow> FieldConfigurationBuilder \<Rightarrow> FieldConfigurationBuilder" where
  "fb_set_deserialize_with f b = b\<lparr>fb_deserialize_with := Some f\<rparr>"

definition fb_set_serialize_with :: "string \<Rightarrow> FieldConfigurationBuilder \<Rightarrow> FieldConfigurationBuilder" where
  "fb_set_serialize_with f b = b\<lparr>fb_serialize_with := Some f\<rparr>"

definition fb_build :: "FieldConfigurationBuilder \<Rightarrow> FieldConfiguration" where
  "fb_build b = \<lparr>conf_skip = fb_skip b, conf_optional = fb_optional b,
     conf_deserialize_with = fb_deserialize_with b, conf_serialize_with = fb_serialize_with b\<rparr>"

definition tb_set_derives :: "string list \<Rightarrow> TypeConfigurationBuilder \<Rightarrow> TypeConfigurationBuilder" where
  "tb_set_derives ds b = b\<lparr>tb_derives := ds @ [''Debug'']\<rparr>"

definition tb_field :: "string \<Rightarrow> FieldConfiguration \<Rightarrow> TypeConfigurationBuilder \<Rightarrow> TypeConfigurationBuilder" where
  "tb_field n c b = b\<lparr>tb_fields := (tb_fields b)(n \<mapsto> c)\<rparr>"

definition tb_build :: "TypeConfigurationBuilder \<Rightarrow> JsonTypeConfiguration" where
  "tb_build b = \<lparr>json_derives = tb_derives b, json_fields = tb_fields b\<rparr>"

record JsonGenerator =
  gen_input :: string
  gen_output :: string
  gen_types :: "string \<rightharpoonup> JsonTypeConfiguration"

definition generator_from :: "string \<Rightarrow> string \<Rightarrow> JsonGenerator" where
  "generator_from i out = \<lparr>gen_input = i, gen_output = out, gen_types = Map.empty\<rparr>"

definition configure :: "string \<Rightarrow> string list \<Rightarrow> JsonGenerator \<Rightarrow> JsonGenerator" where
  "configure name ds g = g\<lparr>gen_types := (gen_types g)(name \<mapsto> tb_build (tb_set_derives ds configure_type))\<rparr>"

definition configure_full :: "string \<Rightarrow> JsonTypeConfiguration \<Rightarrow> JsonGenerator \<Rightarrow> JsonGenerator" where
  "configure_full name c g = g\<lparr>gen_types := (gen_types g)(name \<mapsto> c)\<rparr>"

text \<open>The configuration that \<open>main\<close> builds, call by call.\<close>

definition scheme_path :: "bool \<Rightarrow> string" where
  "scheme_path testnet = (if testnet
     then ''../tonlibjson-sys/ton-testnet/tl/generate/scheme/tonlib_api.tl''
     else ''../tonlibjson-sys/ton/tl/generate/scheme/tonlib_api.tl'')"

definition main_generator :: "bool \<Rightarrow> JsonGenerator" where
  "main_generator testnet = fold (\<lambda>f. f) [
     configure ''ok'' [''Deserialize''],
     configure ''sync'' [''Default'', ''Serialize''],
     configure_full ''accountAddress'' (tb_build (
       tb_field ''account_address'' (fb_build (
         fb_set_deserialize_with ''deserialize_empty_as_none'' (fb_set_serialize_with ''serialize_none_as_empty'' (
           fb_set_optional configure_field))))
       (tb_set_derives [''Clone'', ''Deserialize'', ''Serialize''] configure_type))),
     configure ''ton.blockId'' [''Clone'', ''Serialize'', ''Deserialize'', ''Eq'', ''PartialEq'', ''Hash'', ''new''],
     configure ''ton.blockIdExt'' [''Clone'', ''Serialize'', ''Deserialize'', ''Eq'', ''PartialEq'', ''Hash'', ''new''],
     configure ''blocks.masterchainInfo'' [''Clone'', ''Deserialize'', ''Eq'', ''PartialEq''],
     configure ''internal.transactionId'' [''Clone'', ''Serialize'', ''Deserialize'', ''Eq'', ''PartialEq''],
     configure_full ''raw.transactions'' (tb_build (
       tb_field ''previous_transaction_id'' (fb_build (
         fb_set_deserialize_with ''deserialize_default_as_none'' (fb_set_optional configure_field)))
       (tb_set_derives [''Deserialize''] configure_type))),
     configure_full ''raw.transaction'' (tb_build (
       tb_field ''in_msg'' (fb_build (fb_set_optional configure_field))
       (tb_set_derives [''Clone'', ''Serialize'', ''Deserialize''] configure_type))),
     configure_full ''raw.fullAccountState'' (tb_build (
       tb_field ''last_transaction_id'' (fb_build (
         fb_set_deserialize_with ''deserialize_default_as_none'' (fb_set_optional configure_field)))
       (tb_field ''balance'' (fb_build (
         fb_set_deserialize_with ''deserialize_ton_account_balance'' (fb_set_optional configure_field)))
       (tb_set_derives [''Deserialize''] configure_type)))),
     configure ''blocks.getBlockHeader'' [''Clone'', ''Serialize'', ''Hash'', ''PartialEq'', ''Eq'', ''new''],
     configure ''getShardAccountCell'' [''Clone'', ''Serialize'', ''new''],
     configure ''getShardAccountCellByTransaction'' [''Clone'', ''Serialize'', ''new''],
     configure ''raw.getAccountState'' [''Clone'', ''Serialize'', ''new''],
     configure ''raw.getAccountStateByTransaction'' [''Clone'', ''Serialize'', ''new''],
     configure ''getAccountState'' [''Clone'', ''Serialize'', ''new''],
     configure ''blocks.getMasterchainInfo'' [''Clone'', ''Default'', ''Serialize'', ''new''],
     configure ''blocks.lookupBlock'' [''Clone'', ''Serialize'', ''new'', ''Hash'', ''Eq'', ''PartialEq''],
     configure ''blocks.getShards'' [''Clone'', ''Serialize'', ''new''],
     configure ''blocks.getTransactions'' [''Clone'', ''Serialize'', ''new''],
     configure ''raw.sendMessage'' [''Serialize'', ''new''],
     configure ''raw.sendMessageReturnHash'' [''Serialize'', ''new''],
     configure ''smc.load'' [''Clone'', ''Serialize'', ''new''],
     configure ''smc.runGetMethod'' [''Clone'', ''Serialize'', ''new''],
     configure_full ''raw.getTransactionsV2'' (tb_build (
       tb_field ''private_key'' (fb_build (fb_set_skip configure_field))
       (tb_set_derives [''Clone'', ''Serialize'', ''new''] configure_type)))]
     (generator_from (scheme_path testnet) ''generated.rs'')"

section \<open>Generation\<close>

datatype serde_attr = SerializeWith string | SerdeDefault | DeserializeWith string

record JsonField =
  jf_name :: string
  jf_type :: RustType
  jf_attrs :: "serde_attr list"

record JsonStruct =
  js_name :: string
  js_derives :: "string list"
  js_rename :: string
  js_fields :: "JsonField list"
  js_result :: "string option"

datatype JsonItem = JsonAlias string string | JsonEnum string "string list" | JsonStructItem JsonStruct

definition field_conf :: "JsonTypeConfiguration \<Rightarrow> string \<Rightarrow> FieldConfiguration" where
  "field_conf c n = (case json_fields c n of Some fc \<Rightarrow> fc | None \<Rightarrow> field_default)"

text \<open>
  The type of a field, and whether its numbers may arrive as texts. The condition of a field of the
  schema counts only for a type with arguments.
\<close>

definition json_field_type :: "gen_ops \<Rightarrow> FieldConfiguration \<Rightarrow> Field \<Rightarrow> (bool \<times> RustType) may_panic" where
  "json_field_type K fc f = do {
     typ \<leftarrow> field_type f;
     if typ = Some ''#'' then
       (if conf_optional fc then map_option (Pair True) (parse_generic_argument K (TyOption (TyName ''Int31'')))
        else map_option (\<lambda>n. (True, TyName n)) (format_ident K ''Int31''))
     else if type_is_polymorphic f then do {
       ft \<leftarrow> typ;
       vs \<leftarrow> type_variables f;
       let gen = TyApp (generate_type_name K ft) (map (generate_type_name K) vs);
       map_option (Pair False) (parse_generic_argument K (if type_is_optional f \<or> conf_optional fc then TyOption gen else gen)) }
     else do {
       let number = typ \<in> {Some ''int32'', Some ''int64'', Some ''int53'', Some ''int256''};
       ft \<leftarrow> typ;
       name \<leftarrow> structure_ident K ft;
       if conf_optional fc then map_option (Pair number) (parse_generic_argument K (TyOption (TyName name)))
       else map_option (\<lambda>n. (number, TyName n)) (format_ident K name) } }"

definition field_attrs :: "FieldConfiguration \<Rightarrow> bool \<Rightarrow> serde_attr list" where
  "field_attrs fc number =
     (let ser = (case conf_serialize_with fc of Some w \<Rightarrow> [SerializeWith w] | None \<Rightarrow> []);
          de = (case conf_deserialize_with fc of Some w \<Rightarrow> [DeserializeWith w] | None \<Rightarrow> [])
      in if number \<and> de = [] then ser @ [SerdeDefault, DeserializeWith ''deserialize_number_from_string'']
         else ser @ de)"

definition json_field :: "gen_ops \<Rightarrow> JsonTypeConfiguration \<Rightarrow> Field \<Rightarrow> JsonField may_panic" where
  "json_field K c f = do {
     n \<leftarrow> fld_name f;
     let fc = field_conf c (to_snake K n);
     name \<leftarrow> format_ident K (to_snake K n);
     (number, t) \<leftarrow> json_field_type K fc f;
     Some \<lparr>jf_name = name, jf_type = t, jf_attrs = field_attrs fc number\<rparr> }"

text \<open>\<open>iter().filter(..)\<close> with a closure that may panic.\<close>

fun collect_filter :: "('a \<Rightarrow> bool may_panic) \<Rightarrow> 'a list \<Rightarrow> 'a list may_panic" where
  "collect_filter p [] = Some []"
| "collect_filter p (x # xs) = do { b \<leftarrow> p x; ys \<leftarrow> collect_filter p xs; Some (if b then x # ys else ys) }"

definition keeps_field :: "JsonTypeConfiguration \<Rightarrow> Field \<Rightarrow> bool may_panic" where
  "keeps_field c f = do { n \<leftarrow> fld_name f; Some (\<not> conf_skip (field_conf c n)) }"

definition json_struct ::
    "gen_ops \<Rightarrow> (string \<rightharpoonup> JsonTypeConfiguration) \<Rightarrow> Combinator \<Rightarrow> (gen_error, JsonStruct) res may_panic" where
  "json_struct K types definition = do {
     let configuration = (case types (comb_id definition) of Some c \<Rightarrow> c | None \<Rightarrow> json_type_default);
     name \<leftarrow> structure_ident K (comb_id definition);
     if \<not> is_meta_list K (''derive('' @ join '','' (json_derives configuration) @ '')'') then Some (Err SynError)
     else do {
       kept \<leftarrow> collect_filter (keeps_field configuration) (comb_fields definition);
       fs \<leftarrow> collect_map (json_field K configuration) kept;
       result \<leftarrow> (if functional definition
         then map_option Some (format_ident K (generate_type_name K (result_type definition))) else Some None);
       Some (Ok \<lparr>js_name = name, js_derives = json_derives configuration, js_rename = comb_id definition,
         js_fields = fs, js_result = result\<rparr>) } }"

definition json_boxed :: "gen_ops \<Rightarrow> string \<Rightarrow> Combinator list \<Rightarrow> JsonItem may_panic" where
  "json_boxed K type_ident types = do {
     name \<leftarrow> format_ident K (generate_type_name K type_ident);
     if length (filter (\<lambda>combinator. \<not> functional combinator) types) = 1 then do {
       bare \<leftarrow> (case types of [] \<Rightarrow> None | t # _ \<Rightarrow> Some (comb_id t));
       bare_name \<leftarrow> format_ident K (generate_type_name K bare);
       Some (JsonAlias name bare_name) }
     else map_option (JsonEnum name) (variant_names K types) }"

definition json_skip_list :: "string list" where
  "json_skip_list = [''Vector t'', ''Bool'', ''Int32'', ''Int53'', ''Int64'', ''Int256'', ''Bytes'',
     ''SecureString'', ''SecureBytes'', ''Object'', ''Function'']"

fun json_structs ::
    "gen_ops \<Rightarrow> (string \<rightharpoonup> JsonTypeConfiguration) \<Rightarrow> Combinator list \<Rightarrow> (gen_error, JsonItem list) res may_panic" where
  "json_structs K types [] = Some (Ok [])"
| "json_structs K types (d # ds) =
     (if builtin d \<or> comb_id d = ''vector'' \<or> comb_id d = ''int256'' then json_structs K types ds
      else do {
        r \<leftarrow> json_struct K types d;
        case r of
          Err e \<Rightarrow> Some (Err e)
        | Ok s \<Rightarrow> do {
            rs \<leftarrow> json_structs K types ds;
            Some (case rs of Err e \<Rightarrow> Err e | Ok items \<Rightarrow> Ok (JsonStructItem s # items)) } })"

fun json_groups ::
    "gen_ops \<Rightarrow> (string \<rightharpoonup> JsonTypeConfiguration) \<Rightarrow> Combinator list \<Rightarrow> string list \<Rightarrow>
     (gen_error, JsonItem list) res may_panic" where
  "json_groups K types combinators [] = Some (Ok [])"
| "json_groups K types combinators (key # keys) =
     (if key \<in> set json_skip_list then json_groups K types combinators keys
      else do {
        let members = filter (\<lambda>c. result_type c = key) combinators;
        boxed \<leftarrow> json_boxed K key members;
        r \<leftarrow> json_structs K types members;
        case r of
          Err e \<Rightarrow> Some (Err e)
        | Ok items \<Rightarrow> do {
            rs \<leftarrow> json_groups K types combinators keys;
            Some (case rs of Err e \<Rightarrow> Err e | Ok tail \<Rightarrow> Ok (boxed # items @ tail)) } })"

definition json_generate ::
    "gen_ops \<Rightarrow> 'e section_parser \<Rightarrow> 'e section_parser \<Rightarrow> (string \<Rightarrow> string option) \<Rightarrow>
     (Combinator list \<Rightarrow> string list) \<Rightarrow> JsonGenerator \<Rightarrow> (gen_error, JsonItem list) res may_panic" where
  "json_generate K types_section functions_section read_to_string key_order g =
     (case read_to_string (gen_input g) of
        None \<Rightarrow> Some (Err IoError)
      | Some content \<Rightarrow> do {
          r \<leftarrow> parse types_section functions_section content;
          case r of
            Err _ \<Rightarrow> Some (Err SchemaError)
          | Ok combinators \<Rightarrow> json_groups K (gen_types g) combinators (key_order combinators) })"

section \<open>The decoders of \<^verbatim>\<open>deserialize.rs\<close>\<close>

text \<open>
  \<open>as_string\<close> and \<open>as_t\<close> are \<open>String::deserialize\<close> and \<open>T::deserialize\<close> on the value of the
  deserializer, \<open>from_str\<close> is \<open>T::from_str\<close>, \<open>custom\<close> the error made of its message. The derived
  decoder of the untagged enum tries the text first.
\<close>

definition deserialize_number_from_string ::
    "('v \<Rightarrow> ('e, string) res) \<Rightarrow> ('v \<Rightarrow> ('e, 't) res) \<Rightarrow> (string \<Rightarrow> ('f, 't) res) \<Rightarrow> ('f \<Rightarrow> 'e) \<Rightarrow> 'e \<Rightarrow> 'v \<Rightarrow> ('e, 't) res" where
  "deserialize_number_from_string as_string as_t from_str custom no_variant v =
     (case as_string v of
        Ok s \<Rightarrow> (case from_str s of Ok t \<Rightarrow> Ok t | Err e \<Rightarrow> Err (custom e))
      | Err _ \<Rightarrow> (case as_t v of Ok i \<Rightarrow> Ok i | Err _ \<Rightarrow> Err no_variant))"

definition deserialize_default_as_none :: "('v \<Rightarrow> ('e, 't) res) \<Rightarrow> 't \<Rightarrow> 'v \<Rightarrow> ('e, 't option) res" where
  "deserialize_default_as_none as_t t_default v =
     res_bind (as_t v) (\<lambda>t. Ok (if t = t_default then None else Some t))"

definition deserialize_empty_as_none ::
    "('v \<Rightarrow> ('e, string) res) \<Rightarrow> (string \<Rightarrow> ('f, 't) res) \<Rightarrow> ('f \<Rightarrow> 'e) \<Rightarrow> 'v \<Rightarrow> ('e, 't option) res" where
  "deserialize_empty_as_none as_string from_str custom v =
     res_bind (as_string v) (\<lambda>s.
       if s = [] then Ok None
       else case from_str s of Ok t \<Rightarrow> Ok (Some t) | Err e \<Rightarrow> Err (custom e))"

definition deserialize_ton_account_balance ::
    "('v \<Rightarrow> ('e, string) res) \<Rightarrow> ('v \<Rightarrow> ('e, i64) res) \<Rightarrow> (string \<Rightarrow> ('f, i64) res) \<Rightarrow> ('f \<Rightarrow> 'e) \<Rightarrow> 'e \<Rightarrow>
     'v \<Rightarrow> ('e, i64 option) res" where
  "deserialize_ton_account_balance as_string as_t from_str custom no_variant v =
     res_bind (deserialize_number_from_string as_string as_t from_str custom no_variant v)
       (\<lambda>n. Ok (if n = - 1 then None else Some n))"

definition serialize_none_as_empty :: "(string \<Rightarrow> ('e, 'o) res) \<Rightarrow> ('t \<Rightarrow> ('e, 'o) res) \<Rightarrow> 't option \<Rightarrow> ('e, 'o) res" where
  "serialize_none_as_empty serialize_str serialize v =
     (case v of None \<Rightarrow> serialize_str [] | Some t \<Rightarrow> serialize t)"

section \<open>What is generated\<close>

lemma collect_filter_Some:
  "collect_filter p xs = Some ys \<Longrightarrow> ys = filter (\<lambda>x. p x = Some True) xs \<and> (\<forall>x\<in>set xs. p x \<noteq> None)"
  by (induction xs arbitrary: ys) (auto simp: bind_eq_Some_conv split: if_splits)

lemma collect_map_Some: "collect_map f xs = Some ys \<Longrightarrow> list_all2 (\<lambda>x y. f x = Some y) xs ys"
  by (induction xs arbitrary: ys) (auto simp: bind_eq_Some_conv)

lemma json_field_name: "json_field K c f = Some j \<Longrightarrow> fld_name f = Some n \<Longrightarrow> jf_name j = to_snake K n"
  by (auto simp: json_field_def Let_def bind_eq_Some_conv format_ident_def split: if_splits)

text \<open>
  A generated struct has the fields of its combinator, in their order and under their converted
  names, except those that the configuration skips by their name in the schema.
\<close>

lemma json_struct_fields:
  assumes "json_struct K types d = Some (Ok s)"
  shows "map jf_name (js_fields s) = map (\<lambda>f. to_snake K (the (fld_name f)))
      (filter (\<lambda>f. \<not> conf_skip (field_conf (case types (comb_id d) of Some c \<Rightarrow> c | None \<Rightarrow> json_type_default) (the (fld_name f))))
        (comb_fields d))"
    and "\<forall>f\<in>set (comb_fields d). fld_name f \<noteq> None"
proof -
  define c where "c = (case types (comb_id d) of Some c \<Rightarrow> c | None \<Rightarrow> json_type_default)"
  from assms obtain kept where kept: "collect_filter (keeps_field c) (comb_fields d) = Some kept"
    and fs: "collect_map (json_field K c) kept = Some (js_fields s)"
    by (auto simp: json_struct_def Let_def bind_eq_Some_conv c_def split: if_splits)
  note k = collect_filter_Some [OF kept]
  have named: "fld_name f \<noteq> None" if "f \<in> set (comb_fields d)" for f
    using k that by (cases "fld_name f") (auto simp: keeps_field_def)
  then show "\<forall>f\<in>set (comb_fields d). fld_name f \<noteq> None" by blast
  have "kept = filter (\<lambda>f. \<not> conf_skip (field_conf c (the (fld_name f)))) (comb_fields d)"
    using k named by (fastforce simp: keeps_field_def intro!: filter_cong)
  moreover have "map jf_name js = map (\<lambda>f. to_snake K (the (fld_name f))) fs"
    if "list_all2 (\<lambda>x y. json_field K c x = Some y) fs js" "\<forall>f\<in>set fs. fld_name f \<noteq> None" for fs js
    using that by (induction rule: list_all2_induct) (auto simp: json_field_name)
  then have "map jf_name (js_fields s) = map (\<lambda>f. to_snake K (the (fld_name f))) kept"
    using collect_map_Some [OF fs] named k by auto
  ultimately show "map jf_name (js_fields s) = map (\<lambda>f. to_snake K (the (fld_name f)))
      (filter (\<lambda>f. \<not> conf_skip (field_conf (case types (comb_id d) of Some c \<Rightarrow> c | None \<Rightarrow> json_type_default) (the (fld_name f))))
        (comb_fields d))"
    by (simp add: c_def)
qed

lemmas builder_defs = configure_def configure_full_def generator_from_def tb_build_def tb_field_def tb_set_derives_def configure_type_def
  fb_build_def configure_field_def fb_set_skip_def fb_set_optional_def fb_set_deserialize_with_def fb_set_serialize_with_def

text \<open>The key of an account never enters a request for its transactions.\<close>

lemma private_key_skipped:
  assumes "json_struct K (gen_types (main_generator testnet)) d = Some (Ok s)" "comb_id d = ''raw.getTransactionsV2''"
    and "\<forall>f\<in>set (comb_fields d). \<forall>n. fld_name f = Some n \<longrightarrow> to_snake K n = n"
  shows "''private_key'' \<notin> set (map jf_name (js_fields s))"
proof -
  have c: "field_conf (case gen_types (main_generator testnet) (comb_id d) of Some c \<Rightarrow> c | None \<Rightarrow> json_type_default) ''private_key'' =
      \<lparr>conf_skip = True, conf_optional = False, conf_deserialize_with = None, conf_serialize_with = None\<rparr>"
    by (simp add: assms(2) main_generator_def builder_defs field_conf_def)
  show ?thesis
    unfolding json_struct_fields(1) [OF assms(1)]
    using c assms(3) json_struct_fields(2) [OF assms(1)] by fastforce
qed

text \<open>
  Numbers: a field of a numeric type without a configured decoder accepts the number as a number and
  as a text, and is zero when it is missing.
\<close>

lemma number_attrs:
  "conf_deserialize_with fc = None \<Longrightarrow> conf_serialize_with fc = None \<Longrightarrow>
   field_attrs fc True = [SerdeDefault, DeserializeWith ''deserialize_number_from_string'']"
  by (simp add: field_attrs_def)

lemma number_from_string_or_number:
  assumes "as_string (text s) = Ok s" "from_str s = Ok n" "\<exists>e. as_string (number n) = Err e" "as_t (number n) = Ok n"
  shows "deserialize_number_from_string as_string as_t from_str custom nv (text s) = Ok n"
    and "deserialize_number_from_string as_string as_t from_str custom nv (number n) = Ok n"
  using assms by (auto simp: deserialize_number_from_string_def)

text \<open>
  The optional address of \<open>accountAddress\<close>, under the attributes of the configuration: what is
  encoded is decoded, with the empty text for the absent address, since no address prints as the
  empty text.
\<close>

lemma account_address_attrs:
  "field_attrs (field_conf (the (gen_types (main_generator testnet) ''accountAddress'')) ''account_address'') number =
    [SerializeWith ''serialize_none_as_empty'', DeserializeWith ''deserialize_empty_as_none'']"
  by (simp add: main_generator_def builder_defs field_conf_def field_attrs_def)

lemma account_address_json:
  assumes "addr_crates A" and "\<And>s. as_string (text s) = Ok s"
    and "\<And>a. v = Some a \<Longrightarrow> length (addr_bytes a) = 32 \<and> in_i32 (chain_id a) \<and>
      (flags a \<noteq> None \<longrightarrow> chain_id a = - 1 \<or> 0 \<le> chain_id a \<and> chain_id a < 255)"
  shows "\<exists>j. serialize_none_as_empty (\<lambda>s. Ok (text s)) (\<lambda>a. Ok (text (addr_to_string A a))) v = Ok j \<and>
    deserialize_empty_as_none as_string (addr_from_str A) custom j = Ok v"
proof (cases v)
  case None
  then show ?thesis using assms(2) by (simp add: serialize_none_as_empty_def deserialize_empty_as_none_def)
next
  case (Some a)
  have reads: "addr_from_str A (addr_to_string A a) = Ok a"
  proof (cases "flags a")
    case None
    then show ?thesis using addr_crates.raw_roundtrip [OF assms(1), of a] assms(3) [OF Some]
      by (simp add: addr_to_string_def)
  next
    case (Some fl)
    then show ?thesis using addr_crates.flagged_roundtrip [OF assms(1), of a] assms(3) [OF \<open>v = Some a\<close>]
      by (simp add: addr_to_string_def)
  qed
  moreover have "addr_to_string A a \<noteq> []"
  proof
    assume "addr_to_string A a = []"
    with reads have "addr_from_str A [] = Ok a" by simp
    moreover have "base64_encode A [] = []" using addr_crates.base64_length [OF assms(1), of "[]"] by simp
    then have "base64_decode A [] = Some []" using addr_crates.base64_decode_encode [OF assms(1), of "[]"] by simp
    ultimately show False
      using addr_crates.hex_decode_length [OF assms(1), of 32 "[]"]
      by (auto simp: addr_from_str_def to_standard_def split: option.splits list.splits if_splits)
  qed
  ultimately show ?thesis using Some assms(2)
    by (simp add: serialize_none_as_empty_def deserialize_empty_as_none_def)
qed

text \<open>A balance of \<open>- 1\<close> is the library's way to say that the account has no state.\<close>

lemma balance_absent:
  assumes "deserialize_number_from_string as_string as_t from_str custom nv v = Ok n"
  shows "deserialize_ton_account_balance as_string as_t from_str custom nv v = Ok (if n = - 1 then None else Some n)"
  using assms by (simp add: deserialize_ton_account_balance_def)

end
