(* ===== verification/Tl_Grammar.thy ===== *)
theory Tl_Grammar
  imports Tl_Parser
begin

text \<open>
  The grammar of the schema language, the second half of \<^verbatim>\<open>tl_parser/src/lib.rs\<close>. The parser
  combinators of the crate \<^verbatim>\<open>nom\<close> are a parameter, a record of its functions; the locale \<open>nom_crate\<close>
  states their documented behaviour and is interpreted by functions that have it. Since a record field
  has one type, the values of all parsers are one datatype, \<open>out\<close>, with a constructor per type the
  grammar uses.

  The functions of the grammar call one another recursively (a term may hold an expression in
  parentheses, a field a list of fields in brackets). Here the depth of these calls is a number, and
  a call that goes deeper is the outcome \<open>Depth\<close>; the depth is one more than the length of the input,
  and the equations of the source are proved for it, so it is never reached.
\<close>

section \<open>Parsers\<close>

text \<open>
  The errors of \<^verbatim>\<open>nom\<close>: \<open>Error\<close> lets another alternative be tried, \<open>Failure\<close> does not. A call that
  panics or goes too deep does not return to its caller at all.
\<close>

datatype nom_err = Error | Failure | Panics | Depth

datatype out =
    OUnit
  | OChar char
  | OStr string
  | OOption "out option"
  | OList "out list"
  | OPair out out
  | OIdent string "u32 option"
  | OCondition Condition
  | OTyped bool string
  | OFields "Field list"
  | OOptionals "OptionalField list"
  | OCombinator Combinator

type_synonym nom_parser = "string \<Rightarrow> (nom_err, string \<times> out) res"

record nom_ops =
  tag :: "string \<Rightarrow> nom_parser"
  take_till :: "(char \<Rightarrow> bool) \<Rightarrow> nom_parser"
  take_until :: "string \<Rightarrow> nom_parser"
  take_while :: "(char \<Rightarrow> bool) \<Rightarrow> nom_parser"
  take_while1 :: "(char \<Rightarrow> bool) \<Rightarrow> nom_parser"
  take_while_m_n :: "nat \<Rightarrow> nat \<Rightarrow> (char \<Rightarrow> bool) \<Rightarrow> nom_parser"
  satisfy :: "(char \<Rightarrow> bool) \<Rightarrow> nom_parser"
  line_ending :: nom_parser
  multispace0 :: nom_parser
  multispace1 :: nom_parser
  space0 :: nom_parser
  nom_map :: "nom_parser \<Rightarrow> (out \<Rightarrow> out) \<Rightarrow> nom_parser"
  opt :: "nom_parser \<Rightarrow> nom_parser"
  recognize :: "nom_parser \<Rightarrow> nom_parser"
  alt :: "nom_parser list \<Rightarrow> nom_parser"
  many0 :: "nom_parser \<Rightarrow> nom_parser"
  many1 :: "nom_parser \<Rightarrow> nom_parser"
  separated_list1 :: "nom_parser \<Rightarrow> nom_parser \<Rightarrow> nom_parser"
  delimited :: "nom_parser \<Rightarrow> nom_parser \<Rightarrow> nom_parser \<Rightarrow> nom_parser"
  pair :: "nom_parser \<Rightarrow> nom_parser \<Rightarrow> nom_parser"
  preceded :: "nom_parser \<Rightarrow> nom_parser \<Rightarrow> nom_parser"
  separated_pair :: "nom_parser \<Rightarrow> nom_parser \<Rightarrow> nom_parser \<Rightarrow> nom_parser"
  terminated :: "nom_parser \<Rightarrow> nom_parser \<Rightarrow> nom_parser"
  nom_is_hex_digit :: "char \<Rightarrow> bool"

text \<open>The operator \<open>?\<close> on the result of a parser, with the rest of the input and the value.\<close>

definition then_parse :: "(nom_err, string \<times> out) res \<Rightarrow> (string \<Rightarrow> out \<Rightarrow> (nom_err, string \<times> out) res) \<Rightarrow>
    (nom_err, string \<times> out) res" where
  "then_parse r f = (case r of Err e \<Rightarrow> Err e | Ok (rest, x) \<Rightarrow> f rest x)"

text \<open>The values of the types the source gives to its variables.\<close>

fun str_of :: "out \<Rightarrow> string" where
  "str_of (OStr s) = s"
| "str_of _ = []"

fun chr_of :: "out \<Rightarrow> char" where
  "chr_of (OChar c) = c"
| "chr_of _ = CHR 0x00"

fun outs_of :: "out \<Rightarrow> out list" where
  "outs_of (OList xs) = xs"
| "outs_of _ = []"

fun option_of :: "out \<Rightarrow> out option" where
  "option_of (OOption v) = v"
| "option_of _ = None"

fun fst_of :: "out \<Rightarrow> out" where
  "fst_of (OPair a b) = a"
| "fst_of v = v"

fun snd_of :: "out \<Rightarrow> out" where
  "snd_of (OPair a b) = b"
| "snd_of v = v"

fun ident_of :: "out \<Rightarrow> string \<times> u32 option" where
  "ident_of (OIdent s n) = (s, n)"
| "ident_of _ = ([], None)"

fun condition_of :: "out \<Rightarrow> Condition option" where
  "condition_of (OCondition c) = Some c"
| "condition_of _ = None"

fun typed_of :: "out \<Rightarrow> bool \<times> string" where
  "typed_of (OTyped b s) = (b, s)"
| "typed_of _ = (False, [])"

fun fields_of :: "out \<Rightarrow> Field list" where
  "fields_of (OFields fs) = fs"
| "fields_of _ = []"

fun optionals_of :: "out \<Rightarrow> OptionalField list" where
  "optionals_of (OOptionals os) = os"
| "optionals_of _ = []"

fun combinators_of :: "out \<Rightarrow> Combinator list" where
  "combinators_of (OCombinator c) = [c]"
| "combinators_of _ = []"

section \<open>Characters and spaces\<close>

definition is_lc_letter :: "char \<Rightarrow> bool" where
  "is_lc_letter c \<longleftrightarrow> 97 \<le> (of_char c :: int) \<and> (of_char c :: int) \<le> 122"

definition is_uc_letter :: "char \<Rightarrow> bool" where
  "is_uc_letter c \<longleftrightarrow> 65 \<le> (of_char c :: int) \<and> (of_char c :: int) \<le> 90"

definition is_digit :: "char \<Rightarrow> bool" where
  "is_digit c \<longleftrightarrow> 48 \<le> (of_char c :: int) \<and> (of_char c :: int) \<le> 57"

definition is_hex_digit :: "nom_ops \<Rightarrow> char \<Rightarrow> bool" where
  "is_hex_digit N c = nom_is_hex_digit N c"

definition is_underscore :: "char \<Rightarrow> bool" where
  "is_underscore c \<longleftrightarrow> c = CHR ''_''"

definition is_letter :: "char \<Rightarrow> bool" where
  "is_letter c \<longleftrightarrow> is_lc_letter c \<or> is_uc_letter c"

definition is_ident_char :: "char \<Rightarrow> bool" where
  "is_ident_char c \<longleftrightarrow> is_letter c \<or> is_digit c \<or> is_underscore c"

definition single_line_comment :: "nom_ops \<Rightarrow> nom_parser" where
  "single_line_comment N = preceded N (tag N ''//'') (take_till N (\<lambda>c. c = CHR 0x0A))"

definition multi_line_comment :: "nom_ops \<Rightarrow> nom_parser" where
  "multi_line_comment N = delimited N (tag N ''/*'') (take_until N ''*/'') (tag N ''*/'')"

definition space_or_comment :: "nom_ops \<Rightarrow> nom_parser" where
  "space_or_comment N input =
     then_parse (many0 N (alt N [multispace1 N, single_line_comment N, multi_line_comment N, line_ending N]) input)
       (\<lambda>input _. Ok (input, OUnit))"

section \<open>Identifiers\<close>

definition lc_ident :: "nom_ops \<Rightarrow> nom_parser" where
  "lc_ident N input =
     then_parse (satisfy N is_lc_letter input) (\<lambda>input head.
     then_parse (take_while N is_ident_char input) (\<lambda>input tail.
       Ok (input, OStr (chr_of head # str_of tail))))"

definition uc_ident :: "nom_ops \<Rightarrow> nom_parser" where
  "uc_ident N input =
     then_parse (satisfy N is_uc_letter input) (\<lambda>input head.
     then_parse (take_while N is_ident_char input) (\<lambda>input tail.
       Ok (input, OStr (chr_of head # str_of tail))))"

definition namespace_ident :: "nom_ops \<Rightarrow> nom_parser" where
  "namespace_ident N input = lc_ident N input"

definition lc_ident_ns :: "nom_ops \<Rightarrow> nom_parser" where
  "lc_ident_ns N = nom_map N (separated_list1 N (tag N ''.'') (lc_ident N)) (\<lambda>v. OStr (join ''.'' (map str_of (outs_of v))))"

definition uc_ident_ns :: "nom_ops \<Rightarrow> nom_parser" where
  "uc_ident_ns N input =
     then_parse (opt N (terminated N (separated_list1 N (tag N ''.'') (namespace_ident N)) (tag N ''.'')) input) (\<lambda>input ns.
     then_parse (uc_ident N input) (\<lambda>input head.
       case option_of ns of
         None \<Rightarrow> Ok (input, head)
       | Some ns \<Rightarrow> Ok (input, OStr (join ''.'' (map str_of (outs_of ns)) @ ''.'' @ str_of head))))"

text \<open>\<open>u32::from_str_radix(_, 16)\<close>, without a sign, and \<open>parse::<u32>\<close> on digits.\<close>

definition hex_digit_val :: "char \<Rightarrow> int option" where
  "hex_digit_val c =
     (if is_digit c then Some (of_char c - 48)
      else if 97 \<le> (of_char c :: int) \<and> (of_char c :: int) \<le> 102 then Some (of_char c - 87)
      else if 65 \<le> (of_char c :: int) \<and> (of_char c :: int) \<le> 70 then Some (of_char c - 55)
      else None)"

fun from_radix :: "int \<Rightarrow> int \<Rightarrow> string \<Rightarrow> int option" where
  "from_radix radix acc [] = Some acc"
| "from_radix radix acc (c # cs) =
     (case hex_digit_val c of
        None \<Rightarrow> None
      | Some d \<Rightarrow> if d < radix \<and> acc * radix + d < 2 ^ 32 then from_radix radix (acc * radix + d) cs else None)"

definition from_str_radix :: "int \<Rightarrow> string \<Rightarrow> u32 option" where
  "from_str_radix radix s = (if s = [] then None else map_option of_int (from_radix radix 0 s))"

definition lc_ident_full :: "nom_ops \<Rightarrow> nom_parser" where
  "lc_ident_full N input =
     then_parse (lc_ident_ns N input) (\<lambda>input ident.
     then_parse (opt N (preceded N (tag N ''#'') (take_while_m_n N 8 8 (is_hex_digit N))) input) (\<lambda>input combinator_number.
       case option_of combinator_number of
         None \<Rightarrow> Ok (input, OIdent (str_of ident) None)
       | Some n \<Rightarrow> (case from_str_radix 16 (str_of n) of
             None \<Rightarrow> Err Panics
           | Some number \<Rightarrow> Ok (input, OIdent (str_of ident) (Some number)))))"

definition full_combinator_id :: "nom_ops \<Rightarrow> nom_parser" where
  "full_combinator_id N = alt N [lc_ident_full N, nom_map N (tag N ''_'') (\<lambda>s. OIdent (str_of s) None)]"

definition boxed_type_ident :: "nom_ops \<Rightarrow> nom_parser" where
  "boxed_type_ident N input = uc_ident_ns N input"

definition var_ident :: "nom_ops \<Rightarrow> nom_parser" where
  "var_ident N = alt N [lc_ident N, uc_ident N]"

definition var_ident_opt :: "nom_ops \<Rightarrow> nom_parser" where
  "var_ident_opt N = alt N [var_ident N, nom_map N (tag N ''_'') (\<lambda>s. s)]"

definition nat_const :: "nom_ops \<Rightarrow> nom_parser" where
  "nat_const N = take_while1 N is_digit"

definition type_ident :: "nom_ops \<Rightarrow> nom_parser" where
  "type_ident N = alt N [boxed_type_ident N, lc_ident_ns N, nom_map N (tag N ''#'') (\<lambda>s. s)]"

section \<open>Terms and expressions\<close>

text \<open>\<open>subexpr\<close> and \<open>expr\<close>, with the parser of terms they call.\<close>

definition subexpr_of :: "nom_ops \<Rightarrow> nom_parser \<Rightarrow> nom_parser" where
  "subexpr_of N t = alt N [t,
     nom_map N (many1 N (nom_map N
         (separated_pair N (alt N [t, nom_map N (nat_const N) (\<lambda>s. s)]) (nom_map N (tag N ''+'') (\<lambda>s. s))
            (alt N [t, nom_map N (nat_const N) (\<lambda>s. s)]))
         (\<lambda>p. OStr (str_of (fst_of p) @ '' + '' @ str_of (snd_of p)))))
       (\<lambda>vs. OStr (join ''+'' (map str_of (outs_of vs))))]"

definition expr_of :: "nom_ops \<Rightarrow> nom_parser \<Rightarrow> nom_parser" where
  "expr_of N t = nom_map N (separated_list1 N (tag N '' '') (subexpr_of N t)) (\<lambda>vs. OStr (join '' '' (map str_of (outs_of vs))))"

definition term_of :: "nom_ops \<Rightarrow> nom_parser \<Rightarrow> nom_parser" where
  "term_of N t = alt N [
     delimited N (tag N ''('') (expr_of N t) (tag N '')''),
     nom_map N (recognize N (pair N (type_ident N)
       (delimited N (tag N ''<'') (separated_list1 N (tag N '','') (type_ident N)) (tag N ''>'')))) (\<lambda>s. s),
     type_ident N,
     var_ident N,
     nom_map N (nat_const N) (\<lambda>s. s),
     preceded N (tag N ''%'') t]"

fun term_at :: "nom_ops \<Rightarrow> nat \<Rightarrow> nom_parser" where
  "term_at N 0 input = Err Depth"
| "term_at N (Suc n) input = term_of N (term_at N n) input"

definition term_p :: "nom_ops \<Rightarrow> nom_parser" where
  "term_p N input = term_at N (Suc (length input)) input"

definition subexpr :: "nom_ops \<Rightarrow> nom_parser" where
  "subexpr N = subexpr_of N (term_p N)"

definition expr :: "nom_ops \<Rightarrow> nom_parser" where
  "expr N = expr_of N (term_p N)"

definition type_expr :: "nom_ops \<Rightarrow> nom_parser" where
  "type_expr N input = expr N input"

definition nat_term :: "nom_ops \<Rightarrow> nom_parser" where
  "nat_term N input = term_p N input"

definition type_term :: "nom_ops \<Rightarrow> nom_parser" where
  "type_term N = nom_map N (pair N (nom_map N (opt N (tag N ''!'')) (\<lambda>s. OOption (map_option (\<lambda>_. OUnit) (option_of s)))) (term_p N))
     (\<lambda>p. OTyped (option_of (fst_of p) \<noteq> None) (str_of (snd_of p)))"

definition result_type_p :: "nom_ops \<Rightarrow> nom_parser" where
  "result_type_p N input =
     then_parse (opt N (tag N ''!'') input) (\<lambda>input exclamation.
     then_parse (boxed_type_ident N input) (\<lambda>input ident.
     then_parse (many0 N (delimited N (space0 N) (subexpr N) (space_or_comment N)) input) (\<lambda>input exprs.
       if outs_of exprs \<noteq> []
       then Ok (input, OTyped (option_of exclamation \<noteq> None) (str_of ident @ '' '' @ join '' '' (map str_of (outs_of exprs))))
       else Ok (input, OTyped (option_of exclamation \<noteq> None) (str_of ident)))))"

section \<open>Fields\<close>

definition opt_args :: "nom_ops \<Rightarrow> nom_parser" where
  "opt_args N input =
     then_parse (preceded N (tag N ''{'') (many1 N (delimited N (space0 N) (var_ident N) (space_or_comment N))) input) (\<lambda>input names.
     then_parse (delimited N (space0 N) (tag N '':'') (space_or_comment N) input) (\<lambda>input _.
     then_parse (terminated N (type_expr N) (tag N ''}'') input) (\<lambda>input type_name.
       Ok (input, OOptionals (map (\<lambda>name. \<lparr>opt_name = str_of name, opt_type = str_of type_name\<rparr>) (outs_of names))))))"

definition conditional_def :: "nom_ops \<Rightarrow> nom_parser" where
  "conditional_def N input =
     then_parse (var_ident N input) (\<lambda>input field_ref.
     then_parse (opt N (preceded N (tag N ''.'') (nat_const N)) input) (\<lambda>input selector.
       case (case option_of selector of None \<Rightarrow> Some None
             | Some n \<Rightarrow> (case from_str_radix 10 (str_of n) of None \<Rightarrow> None | Some b \<Rightarrow> Some (Some b))) of
         None \<Rightarrow> Err Failure
       | Some selector \<Rightarrow>
           then_parse (tag N ''?'' input) (\<lambda>input _.
             Ok (input, OCondition \<lparr>field_ref = str_of field_ref, bit_selector = selector\<rparr>))))"

definition args_1 :: "nom_ops \<Rightarrow> nom_parser" where
  "args_1 N input =
     then_parse (var_ident_opt N input) (\<lambda>input ident.
     then_parse (tag N '':'' input) (\<lambda>input _.
     then_parse (opt N (conditional_def N) input) (\<lambda>input condition.
     then_parse (type_term N input) (\<lambda>input t.
       Ok (input, OFields [Field (Some (str_of ident))
         (Plain (snd (typed_of t)) (case option_of condition of None \<Rightarrow> None | Some c \<Rightarrow> condition_of c)) (fst (typed_of t))])))))"

definition multiplicity_p :: "nom_ops \<Rightarrow> nom_parser" where
  "multiplicity_p N = terminated N (nat_term N) (tag N ''*'')"

definition args_2_of :: "nom_ops \<Rightarrow> nom_parser \<Rightarrow> nom_parser" where
  "args_2_of N args input =
     then_parse (opt N (terminated N (var_ident_opt N) (tag N '':'')) input) (\<lambda>input ident.
     then_parse (opt N (multiplicity_p N) input) (\<lambda>input multiplicity.
     then_parse (tag N ''['' input) (\<lambda>input _.
     then_parse (many1 N (delimited N (space0 N) args (space0 N)) input) (\<lambda>input fs.
     then_parse (tag N '']'' input) (\<lambda>input _.
       Ok (input, OFields [Field (map_option str_of (option_of ident))
         (Repetition (map_option str_of (option_of multiplicity)) (concat (map fields_of (outs_of fs)))) False]))))))"

definition args_3 :: "nom_ops \<Rightarrow> nom_parser" where
  "args_3 N input =
     then_parse (tag N ''('' input) (\<lambda>input _.
     then_parse (many1 N (delimited N (space0 N) (var_ident_opt N) (space0 N)) input) (\<lambda>input names.
     then_parse (tag N '':'' input) (\<lambda>input _.
     then_parse (type_term N input) (\<lambda>input t.
     then_parse (tag N '')'' input) (\<lambda>input _.
       Ok (input, OFields (map (\<lambda>ident. Field (Some (str_of ident)) (Plain (snd (typed_of t)) None) (fst (typed_of t)))
         (outs_of names))))))))"

definition args_4 :: "nom_ops \<Rightarrow> nom_parser" where
  "args_4 N input =
     then_parse (type_term N input) (\<lambda>input t.
       Ok (input, OFields [Field None (Plain (snd (typed_of t)) None) (fst (typed_of t))]))"

definition args_of :: "nom_ops \<Rightarrow> nom_parser \<Rightarrow> nom_parser" where
  "args_of N args = alt N [args_1 N, args_2_of N args, args_3 N, args_4 N]"

fun args_at :: "nom_ops \<Rightarrow> nat \<Rightarrow> nom_parser" where
  "args_at N 0 input = Err Depth"
| "args_at N (Suc n) input = args_of N (args_at N n) input"

definition args :: "nom_ops \<Rightarrow> nom_parser" where
  "args N input = args_at N (Suc (length input)) input"

section \<open>Declarations\<close>

definition combinator_decl :: "nom_ops \<Rightarrow> nom_parser" where
  "combinator_decl N input =
     then_parse (preceded N (multispace0 N) (full_combinator_id N) input) (\<lambda>input ident.
     then_parse (opt N (delimited N (space0 N) (opt_args N) (space_or_comment N)) input) (\<lambda>input opts.
     then_parse (many0 N (delimited N (space0 N) (args N) (space_or_comment N)) input) (\<lambda>input fs.
     then_parse (delimited N (multispace0 N) (tag N ''='') (space_or_comment N) input) (\<lambda>input _.
     then_parse (result_type_p N input) (\<lambda>input t.
     then_parse (preceded N (multispace0 N) (tag N '';'') input) (\<lambda>input _.
       Ok (input, OCombinator \<lparr>functional = fst (typed_of t), builtin = False, comb_id = fst (ident_of ident),
         result_type = snd (typed_of t), constructor_number = snd (ident_of ident),
         optional_fields = (case option_of opts of None \<Rightarrow> [] | Some os \<Rightarrow> optionals_of os),
         comb_fields = concat (map fields_of (outs_of fs))\<rparr>)))))))"

definition functional_combinator_decl :: "nom_ops \<Rightarrow> nom_parser" where
  "functional_combinator_decl N input =
     then_parse (preceded N (multispace0 N) (full_combinator_id N) input) (\<lambda>input ident.
     then_parse (opt N (delimited N (space_or_comment N) (opt_args N) (space_or_comment N)) input) (\<lambda>input opts.
     then_parse (many0 N (delimited N (space_or_comment N) (args N) (space_or_comment N)) input) (\<lambda>input fs.
     then_parse (delimited N (multispace0 N) (tag N ''='') (multispace0 N) input) (\<lambda>input _.
     then_parse (result_type_p N input) (\<lambda>input t.
     then_parse (preceded N (multispace0 N) (tag N '';'') input) (\<lambda>input _.
       Ok (input, OCombinator \<lparr>functional = True, builtin = False, comb_id = fst (ident_of ident),
         result_type = snd (typed_of t), constructor_number = snd (ident_of ident),
         optional_fields = (case option_of opts of None \<Rightarrow> [] | Some os \<Rightarrow> optionals_of os),
         comb_fields = concat (map fields_of (outs_of fs))\<rparr>)))))))"

definition builtin_combinator_decl :: "nom_ops \<Rightarrow> nom_parser" where
  "builtin_combinator_decl N input =
     then_parse (preceded N (multispace0 N) (full_combinator_id N) input) (\<lambda>input ident.
     then_parse (delimited N (multispace0 N) (tag N ''?'') (space_or_comment N) input) (\<lambda>input _.
     then_parse (delimited N (multispace0 N) (tag N ''='') (space_or_comment N) input) (\<lambda>input _.
     then_parse (boxed_type_ident N input) (\<lambda>input t.
     then_parse (preceded N (multispace0 N) (tag N '';'') input) (\<lambda>input _.
       Ok (input, OCombinator \<lparr>functional = False, builtin = True, comb_id = fst (ident_of ident),
         result_type = str_of t, constructor_number = snd (ident_of ident), optional_fields = [], comb_fields = []\<rparr>))))))"

text \<open>The two parsers of the loop of \<open>parse\<close>.\<close>

definition section_of :: "nom_ops \<Rightarrow> string \<Rightarrow> nom_parser \<Rightarrow> nom_parser" where
  "section_of N title decl = opt N (preceded N
     (opt N (delimited N (opt N (space_or_comment N)) (tag N title) (opt N (space_or_comment N))))
     (many0 N (delimited N (opt N (space_or_comment N)) (alt N [decl, builtin_combinator_decl N]) (opt N (space_or_comment N)))))"

definition found_combinators :: "(nom_err, string \<times> out) res \<Rightarrow> (nom_err, string \<times> Combinator list option) res" where
  "found_combinators r = (case r of
     Err e \<Rightarrow> Err e
   | Ok (rest, v) \<Rightarrow> Ok (rest, map_option (\<lambda>cs. concat (map combinators_of (outs_of cs))) (option_of v)))"

definition types_section :: "nom_ops \<Rightarrow> nom_err section_parser" where
  "types_section N input = found_combinators (section_of N ''---types---'' (combinator_decl N) input)"

definition functions_section :: "nom_ops \<Rightarrow> nom_err section_parser" where
  "functions_section N input = found_combinators (section_of N ''---functions---'' (functional_combinator_decl N) input)"

definition parse_schema :: "nom_ops \<Rightarrow> string \<Rightarrow> (nom_err parse_failure, Combinator list) res option" where
  "parse_schema N input = parse (types_section N) (functions_section N) input"

section \<open>The combinators of \<^verbatim>\<open>nom\<close>\<close>

text \<open>
  What the documentation of the crate says of its combinators. A parser returns a suffix of its
  input; a law for a combinator that repeats another parser is stated for parsers that do, on the
  inputs they are called with. \<open>many0\<close> refuses a parser that succeeds without consuming anything.
\<close>

definition suffixing :: "nat \<Rightarrow> nom_parser \<Rightarrow> bool" where
  "suffixing k p \<longleftrightarrow> (\<forall>input rest x. length input \<le> k \<longrightarrow> p input = Ok (rest, x) \<longrightarrow> suffix rest input)"

definition eats :: "nom_parser \<Rightarrow> bool" where
  "eats p \<longleftrightarrow> (\<forall>input rest x. p input = Ok (rest, x) \<longrightarrow> length rest < length input)"

fun before_text :: "string \<Rightarrow> string \<Rightarrow> string option" where
  "before_text t [] = (if t = [] then Some [] else None)"
| "before_text t (c # cs) = (if prefix t (c # cs) then Some [] else map_option ((#) c) (before_text t cs))"

definition is_multispace :: "char \<Rightarrow> bool" where
  "is_multispace c \<longleftrightarrow> c = CHR '' '' \<or> c = CHR 0x09 \<or> c = CHR 0x0A \<or> c = CHR 0x0D"

definition is_space :: "char \<Rightarrow> bool" where
  "is_space c \<longleftrightarrow> c = CHR '' '' \<or> c = CHR 0x09"

definition took :: "nat \<Rightarrow> string \<Rightarrow> (nom_err, string \<times> out) res" where
  "took n input = Ok (drop n input, OStr (take n input))"

locale nom_crate =
  fixes N :: nom_ops
  assumes tag: "tag N t input = (if prefix t input then took (length t) input else Err Error)"
    and take_while: "take_while N P input = took (length (takeWhile P input)) input"
    and take_while1: "take_while1 N P input = (if takeWhile P input = [] then Err Error else took (length (takeWhile P input)) input)"
    and take_till: "take_till N P input = took (length (takeWhile (\<lambda>c. \<not> P c) input)) input"
    and take_while_m_n: "take_while_m_n N m n P input =
      (if length (takeWhile P (take n input)) < m then Err Error else took (length (takeWhile P (take n input))) input)"
    and take_until: "take_until N t input = (case before_text t input of None \<Rightarrow> Err Error | Some s \<Rightarrow> took (length s) input)"
    and satisfy: "satisfy N P input = (case input of [] \<Rightarrow> Err Error | c # rest \<Rightarrow> if P c then Ok (rest, OChar c) else Err Error)"
    and line_ending: "line_ending N input = (if prefix [CHR 0x0A] input then took 1 input
      else if prefix [CHR 0x0D, CHR 0x0A] input then took 2 input else Err Error)"
    and multispace0: "multispace0 N = take_while N is_multispace"
    and multispace1: "multispace1 N = take_while1 N is_multispace"
    and space0: "space0 N = take_while N is_space"
    and nom_is_hex_digit: "nom_is_hex_digit N c \<longleftrightarrow> hex_digit_val c \<noteq> None"
    and nom_map: "nom_map N p f input = then_parse (p input) (\<lambda>rest x. Ok (rest, f x))"
    and opt: "opt N p input = (case p input of Ok (rest, x) \<Rightarrow> Ok (rest, OOption (Some x))
      | Err e \<Rightarrow> if e = Error then Ok (input, OOption None) else Err e)"
    and recognize: "recognize N p input = then_parse (p input) (\<lambda>rest x. Ok (rest, OStr (take (length input - length rest) input)))"
    and alt: "alt N (p # ps) input = (if p input = Err Error \<and> ps \<noteq> [] then alt N ps input else p input)"
    and many0: "suffixing (length input) p \<Longrightarrow> many0 N p input = (if p input = Err Error then Ok (input, OList [])
      else then_parse (p input) (\<lambda>rest x. if length rest = length input then Err Error
        else then_parse (many0 N p rest) (\<lambda>rest xs. Ok (rest, OList (x # outs_of xs)))))"
    and many1: "suffixing (length input) p \<Longrightarrow> many1 N p input =
      then_parse (p input) (\<lambda>rest x. then_parse (many0 N p rest) (\<lambda>rest xs. Ok (rest, OList (x # outs_of xs))))"
    and separated_list1: "suffixing (length input) p \<Longrightarrow> suffixing (length input) sep \<Longrightarrow> eats sep \<Longrightarrow>
      separated_list1 N sep p input = then_parse (p input) (\<lambda>rest x.
        then_parse (many0 N (preceded N sep p) rest) (\<lambda>rest xs. Ok (rest, OList (x # outs_of xs))))"
    and pair: "pair N p q input = then_parse (p input) (\<lambda>rest x. then_parse (q rest) (\<lambda>rest y. Ok (rest, OPair x y)))"
    and preceded: "preceded N p q input = then_parse (p input) (\<lambda>rest x. q rest)"
    and terminated: "terminated N p q input = then_parse (p input) (\<lambda>rest x. then_parse (q rest) (\<lambda>rest y. Ok (rest, x)))"
    and delimited: "delimited N a p b input =
      then_parse (a input) (\<lambda>rest x. then_parse (p rest) (\<lambda>rest y. then_parse (b rest) (\<lambda>rest z. Ok (rest, y))))"
    and separated_pair: "separated_pair N p sep q input =
      then_parse (p input) (\<lambda>rest x. then_parse (sep rest) (\<lambda>rest y. then_parse (q rest) (\<lambda>rest z. Ok (rest, OPair x z))))"

text \<open>Functions that have this behaviour. The repetitions run at most once per character and once more.\<close>

definition std_tag :: "string \<Rightarrow> nom_parser" where
  "std_tag t input = (if prefix t input then took (length t) input else Err Error)"

definition std_take_while :: "(char \<Rightarrow> bool) \<Rightarrow> nom_parser" where
  "std_take_while P input = took (length (takeWhile P input)) input"

definition std_take_while1 :: "(char \<Rightarrow> bool) \<Rightarrow> nom_parser" where
  "std_take_while1 P input = (if takeWhile P input = [] then Err Error else took (length (takeWhile P input)) input)"

definition std_take_while_m_n :: "nat \<Rightarrow> nat \<Rightarrow> (char \<Rightarrow> bool) \<Rightarrow> nom_parser" where
  "std_take_while_m_n m n P input =
     (let s = takeWhile P (take n input) in if length s < m then Err Error else took (length s) input)"

definition std_take_until :: "string \<Rightarrow> nom_parser" where
  "std_take_until t input = (case before_text t input of None \<Rightarrow> Err Error | Some s \<Rightarrow> took (length s) input)"

definition std_satisfy :: "(char \<Rightarrow> bool) \<Rightarrow> nom_parser" where
  "std_satisfy P input = (case input of [] \<Rightarrow> Err Error | c # rest \<Rightarrow> if P c then Ok (rest, OChar c) else Err Error)"

definition std_line_ending :: nom_parser where
  "std_line_ending input = (if prefix [CHR 0x0A] input then took 1 input
     else if prefix [CHR 0x0D, CHR 0x0A] input then took 2 input else Err Error)"

definition std_map :: "nom_parser \<Rightarrow> (out \<Rightarrow> out) \<Rightarrow> nom_parser" where
  "std_map p f input = then_parse (p input) (\<lambda>rest x. Ok (rest, f x))"

definition std_opt :: "nom_parser \<Rightarrow> nom_parser" where
  "std_opt p input = (case p input of Ok (rest, x) \<Rightarrow> Ok (rest, OOption (Some x))
     | Err e \<Rightarrow> if e = Error then Ok (input, OOption None) else Err e)"

definition std_recognize :: "nom_parser \<Rightarrow> nom_parser" where
  "std_recognize p input = then_parse (p input) (\<lambda>rest x. Ok (rest, OStr (take (length input - length rest) input)))"

fun std_alt :: "nom_parser list \<Rightarrow> nom_parser" where
  "std_alt [] input = Err Error"
| "std_alt (p # ps) input = (if p input = Err Error \<and> ps \<noteq> [] then std_alt ps input else p input)"

definition std_pair :: "nom_parser \<Rightarrow> nom_parser \<Rightarrow> nom_parser" where
  "std_pair p q input = then_parse (p input) (\<lambda>rest x. then_parse (q rest) (\<lambda>rest y. Ok (rest, OPair x y)))"

definition std_preceded :: "nom_parser \<Rightarrow> nom_parser \<Rightarrow> nom_parser" where
  "std_preceded p q input = then_parse (p input) (\<lambda>rest x. q rest)"

definition std_terminated :: "nom_parser \<Rightarrow> nom_parser \<Rightarrow> nom_parser" where
  "std_terminated p q input = then_parse (p input) (\<lambda>rest x. then_parse (q rest) (\<lambda>rest y. Ok (rest, x)))"

definition std_delimited :: "nom_parser \<Rightarrow> nom_parser \<Rightarrow> nom_parser \<Rightarrow> nom_parser" where
  "std_delimited a p b input =
     then_parse (a input) (\<lambda>rest x. then_parse (p rest) (\<lambda>rest y. then_parse (b rest) (\<lambda>rest z. Ok (rest, y))))"

definition std_separated_pair :: "nom_parser \<Rightarrow> nom_parser \<Rightarrow> nom_parser \<Rightarrow> nom_parser" where
  "std_separated_pair p sep q input =
     then_parse (p input) (\<lambda>rest x. then_parse (sep rest) (\<lambda>rest y. then_parse (q rest) (\<lambda>rest z. Ok (rest, OPair x z))))"

fun many0_within :: "nat \<Rightarrow> nom_parser \<Rightarrow> nom_parser" where
  "many0_within 0 p input = Err Error"
| "many0_within (Suc n) p input = (if p input = Err Error then Ok (input, OList [])
     else then_parse (p input) (\<lambda>rest x. if length rest = length input then Err Error
       else then_parse (many0_within n p rest) (\<lambda>rest xs. Ok (rest, OList (x # outs_of xs)))))"

definition std_many0 :: "nom_parser \<Rightarrow> nom_parser" where
  "std_many0 p input = many0_within (Suc (length input)) p input"

definition std_many1 :: "nom_parser \<Rightarrow> nom_parser" where
  "std_many1 p input =
     then_parse (p input) (\<lambda>rest x. then_parse (std_many0 p rest) (\<lambda>rest xs. Ok (rest, OList (x # outs_of xs))))"

definition std_separated_list1 :: "nom_parser \<Rightarrow> nom_parser \<Rightarrow> nom_parser" where
  "std_separated_list1 sep p input = then_parse (p input) (\<lambda>rest x.
     then_parse (std_many0 (std_preceded sep p) rest) (\<lambda>rest xs. Ok (rest, OList (x # outs_of xs))))"

definition std_nom :: nom_ops where
  "std_nom = \<lparr>tag = std_tag, take_till = (\<lambda>P. std_take_while (\<lambda>c. \<not> P c)), take_until = std_take_until,
     take_while = std_take_while, take_while1 = std_take_while1, take_while_m_n = std_take_while_m_n,
     satisfy = std_satisfy, line_ending = std_line_ending, multispace0 = std_take_while is_multispace,
     multispace1 = std_take_while1 is_multispace, space0 = std_take_while is_space, nom_map = std_map,
     opt = std_opt, recognize = std_recognize, alt = std_alt, many0 = std_many0, many1 = std_many1,
     separated_list1 = std_separated_list1, delimited = std_delimited, pair = std_pair,
     preceded = std_preceded, separated_pair = std_separated_pair, terminated = std_terminated,
     nom_is_hex_digit = (\<lambda>c. hex_digit_val c \<noteq> None)\<rparr>"

lemma then_parse_simps [simp]:
  "then_parse (Ok (rest, x)) f = f rest x"
  "then_parse (Err e) f = Err e"
  by (simp_all add: then_parse_def)

lemma suffixing_mono: "suffixing k p \<Longrightarrow> j \<le> k \<Longrightarrow> suffixing j p"
  by (auto simp: suffixing_def)

lemma suffixing_le: "suffixing (length input) p \<Longrightarrow> p input = Ok (rest, x) \<Longrightarrow> length rest \<le> length input"
  by (auto simp: suffixing_def intro: suffix_length_le)

lemma many0_within_enough:
  "suffixing (length input) p \<Longrightarrow> length input < n \<Longrightarrow> length input < m \<Longrightarrow> many0_within n p input = many0_within m p input"
proof (induction n arbitrary: m input)
  case (Suc n)
  then obtain m' where m: "m = Suc m'" by (cases m) auto
  show ?case
  proof (cases "p input")
    case (Ok y)
    then obtain rest x where p: "p input = Ok (rest, x)" by (cases y) auto
    have "length rest \<le> length input" using Suc.prems(1) p by (rule suffixing_le)
    moreover have "suffixing (length rest) p" using Suc.prems(1) calculation by (rule suffixing_mono)
    ultimately have "length rest < length input \<Longrightarrow> many0_within n p rest = many0_within m' p rest"
      using Suc.IH [of rest m'] Suc.prems(2,3) m by auto
    then show ?thesis using p m \<open>length rest \<le> length input\<close> by auto
  qed (simp add: m)
qed simp

lemma std_many0_unfold:
  assumes "suffixing (length input) p"
  shows "std_many0 p input = (if p input = Err Error then Ok (input, OList [])
      else then_parse (p input) (\<lambda>rest x. if length rest = length input then Err Error
        else then_parse (std_many0 p rest) (\<lambda>rest xs. Ok (rest, OList (x # outs_of xs)))))"
proof (cases "p input")
  case (Ok y)
  then obtain rest x where p: "p input = Ok (rest, x)" by (cases y) auto
  have le: "length rest \<le> length input" using assms p by (rule suffixing_le)
  have "many0_within (length input) p rest = std_many0 p rest" if "length rest \<noteq> length input"
    unfolding std_many0_def using that le suffixing_mono [OF assms le] by (intro many0_within_enough) auto
  then show ?thesis using p by (simp add: std_many0_def)
qed (simp add: std_many0_def)

lemma std_nom_many0: "many0 std_nom = std_many0"
  by (simp add: std_nom_def)

interpretation std: nom_crate std_nom
  by (unfold_locales, unfold std_nom_many0)
    (simp_all add: std_nom_def std_tag_def std_take_while_def std_take_while1_def std_take_while_m_n_def std_take_until_def
      std_satisfy_def std_line_ending_def std_map_def std_opt_def std_recognize_def std_many1_def std_separated_list1_def
      std_pair_def std_preceded_def std_terminated_def std_delimited_def std_separated_pair_def Let_def std_many0_unfold)

section \<open>What every parser of the grammar does\<close>

text \<open>
  Two parsers agree up to a length when on every input not longer than it they return the same, the
  rest they return is a suffix of the input, and they neither panic nor go too deep. A parser that
  agrees with itself is well behaved.
\<close>

definition regular :: "string \<Rightarrow> (nom_err, string \<times> out) res \<Rightarrow> bool" where
  "regular input r \<longleftrightarrow> (case r of Ok (rest, x) \<Rightarrow> suffix rest input | Err e \<Rightarrow> e = Error \<or> e = Failure)"

definition agree :: "nat \<Rightarrow> nom_parser \<Rightarrow> nom_parser \<Rightarrow> bool" where
  "agree k p q \<longleftrightarrow> (\<forall>input. length input \<le> k \<longrightarrow> q input = p input \<and> regular input (p input))"

named_theorems agree_intros "parsers that agree"

lemma regular_simps [simp]:
  "regular input (Ok (rest, x)) \<longleftrightarrow> suffix rest input"
  "regular input (Err e) \<longleftrightarrow> e = Error \<or> e = Failure"
  by (simp_all add: regular_def)

lemma regular_took [simp]: "regular input (took n input)"
  by (simp add: took_def suffix_drop)

lemma agreeI: "(\<And>input. length input \<le> k \<Longrightarrow> q input = p input \<and> regular input (p input)) \<Longrightarrow> agree k p q"
  unfolding agree_def by blast

lemma agreeD: "agree k p q \<Longrightarrow> length input \<le> k \<Longrightarrow> q input = p input \<and> regular input (p input)"
  unfolding agree_def by blast

lemma agree_mono: "agree k p q \<Longrightarrow> j \<le> k \<Longrightarrow> agree j p q"
  unfolding agree_def by (meson le_trans)

lemma agree_suffixing: "agree k p q \<Longrightarrow> suffixing k p \<and> suffixing k q"
  by (fastforce simp: agree_def suffixing_def regular_def)

lemma agree_Ok [agree_intros]: "agree k (\<lambda>input. Ok (input, v)) (\<lambda>input. Ok (input, v))"
  by (rule agreeI) simp

lemma agree_if [agree_intros]:
  "agree k p q \<Longrightarrow> agree k p' q' \<Longrightarrow> agree k (\<lambda>input. if b then p input else p' input) (\<lambda>input. if b then q input else q' input)"
  by (cases b) simp_all

lemma agree_option [agree_intros]:
  "agree k p q \<Longrightarrow> (\<And>y. agree k (\<lambda>input. f input y) (\<lambda>input. g input y)) \<Longrightarrow>
   agree k (\<lambda>input. case x of None \<Rightarrow> p input | Some y \<Rightarrow> f input y) (\<lambda>input. case x of None \<Rightarrow> q input | Some y \<Rightarrow> g input y)"
  by (cases x) simp_all

text \<open>A parser and what follows it; what follows a parser that consumes something runs on a shorter input.\<close>

lemma agree_then_within:
  assumes "agree k p q"
    and "\<And>input rest x. length input \<le> k \<Longrightarrow> p input = Ok (rest, x) \<Longrightarrow> suffix rest input \<Longrightarrow>
      g rest x = f rest x \<and> regular rest (f rest x)"
  shows "agree k (\<lambda>input. then_parse (p input) f) (\<lambda>input. then_parse (q input) g)"
proof (rule agreeI)
  fix input :: string
  assume k: "length input \<le> k"
  from agreeD [OF assms(1) k] have q: "q input = p input" and p: "regular input (p input)" by auto
  show "then_parse (q input) g = then_parse (p input) f \<and> regular input (then_parse (p input) f)"
  proof (cases "p input")
    case (Err e)
    then show ?thesis using p q by simp
  next
    case (Ok y)
    then obtain rest x where y: "p input = Ok (rest, x)" by (cases y) auto
    then have s: "suffix rest input" using p by simp
    have "regular input (f rest x)"
      using assms(2) [OF k y s] s by (auto simp: regular_def split: res.split intro: suffix_order.order_trans)
    then show ?thesis using y q assms(2) [OF k y s] by simp
  qed
qed

lemma agree_then [agree_intros]:
  assumes "agree k p q" "\<And>x. agree k (\<lambda>input. f input x) (\<lambda>input. g input x)"
  shows "agree k (\<lambda>input. then_parse (p input) f) (\<lambda>input. then_parse (q input) g)"
  using assms(1)
proof (rule agree_then_within)
  fix input rest :: string and x
  assume "length input \<le> k" "suffix rest input"
  then have "length rest \<le> k" using suffix_length_le le_trans by blast
  then show "g rest x = f rest x \<and> regular rest (f rest x)" using agreeD [OF assms(2)] by blast
qed

lemma agree_then_eats:
  assumes "agree k p q" "eats p" "\<And>j x. j < k \<Longrightarrow> agree j (\<lambda>input. f input x) (\<lambda>input. g input x)"
  shows "agree k (\<lambda>input. then_parse (p input) f) (\<lambda>input. then_parse (q input) g)"
  using assms(1)
proof (rule agree_then_within)
  fix input rest :: string and x
  assume "length input \<le> k" "p input = Ok (rest, x)"
  then have "length rest < k" using assms(2) by (fastforce simp: eats_def)
  then show "g rest x = f rest x \<and> regular rest (f rest x)" using agreeD [OF assms(3)] by blast
qed

context nom_crate
begin

lemmas simple_parsers = tag take_while take_while1 take_till take_while_m_n take_until line_ending
lemmas composed_parsers = pair preceded terminated delimited separated_pair nom_map

lemma agree_simple [agree_intros]:
  "agree k (tag N t) (tag N t)"
  "agree k (take_while N P) (take_while N P)"
  "agree k (take_while1 N P) (take_while1 N P)"
  "agree k (take_till N P) (take_till N P)"
  "agree k (take_while_m_n N a b P) (take_while_m_n N a b P)"
  "agree k (take_until N t) (take_until N t)"
  "agree k (line_ending N) (line_ending N)"
  by (rule agreeI, simp add: simple_parsers split: option.split)+

lemma agree_spaces [agree_intros]:
  "agree k (multispace0 N) (multispace0 N)"
  "agree k (multispace1 N) (multispace1 N)"
  "agree k (space0 N) (space0 N)"
  by (simp_all add: multispace0 multispace1 space0 agree_simple)

lemma agree_satisfy [agree_intros]: "agree k (satisfy N P) (satisfy N P)"
  by (rule agreeI) (auto simp: satisfy suffix_Cons split: list.split)

lemma eats_tag: "t \<noteq> [] \<Longrightarrow> eats (tag N t)"
  by (auto simp: eats_def tag took_def prefix_def split: if_splits)

lemma agree_composed [agree_intros]:
  "agree k p p' \<Longrightarrow> agree k (nom_map N p f) (nom_map N p' f)"
  "agree k p p' \<Longrightarrow> agree k q q' \<Longrightarrow> agree k (pair N p q) (pair N p' q')"
  "agree k p p' \<Longrightarrow> agree k q q' \<Longrightarrow> agree k (preceded N p q) (preceded N p' q')"
  "agree k p p' \<Longrightarrow> agree k q q' \<Longrightarrow> agree k (terminated N p q) (terminated N p' q')"
  "agree k a a' \<Longrightarrow> agree k p p' \<Longrightarrow> agree k b b' \<Longrightarrow> agree k (delimited N a p b) (delimited N a' p' b')"
  "agree k p p' \<Longrightarrow> agree k b b' \<Longrightarrow> agree k q q' \<Longrightarrow> agree k (separated_pair N p b q) (separated_pair N p' b' q')"
  by (simp_all add: composed_parsers [abs_def] agree_then agree_Ok)

lemma agree_after_tag:
  assumes "t \<noteq> []" "\<And>j. j < k \<Longrightarrow> agree j p p'"
  shows "agree k (preceded N (tag N t) p) (preceded N (tag N t) p')"
    and "\<And>u. agree k (delimited N (tag N t) p (tag N u)) (delimited N (tag N t) p' (tag N u))"
  using assms by (simp_all add: composed_parsers [abs_def] agree_then_eats eats_tag agree_then agree_Ok agree_simple)

lemma agree_opt [agree_intros]: "agree k p q \<Longrightarrow> agree k (opt N p) (opt N q)"
  by (rule agreeI) (drule (1) agreeD, auto simp: opt split: res.split)

lemma agree_recognize [agree_intros]: "agree k p q \<Longrightarrow> agree k (recognize N p) (recognize N q)"
  by (rule agreeI) (drule (1) agreeD, auto simp: recognize then_parse_def regular_def split: res.split)

lemma agree_alt1 [agree_intros]: "agree k p q \<Longrightarrow> agree k (alt N [p]) (alt N [q])"
  by (rule agreeI) (drule (1) agreeD, simp add: alt)

lemma agree_alt [agree_intros]:
  "agree k p q \<Longrightarrow> agree k (alt N (p1 # ps)) (alt N (q1 # qs)) \<Longrightarrow> agree k (alt N (p # p1 # ps)) (alt N (q # q1 # qs))"
  unfolding agree_def by (subst (1 2 3) alt) auto

lemma agree_many0 [agree_intros]:
  assumes "agree k p q"
  shows "agree k (many0 N p) (many0 N q)"
proof -
  have "many0 N q input = many0 N p input \<and> regular input (many0 N p input)" if "length input \<le> k" for input
    using that
  proof (induction "length input" arbitrary: input rule: less_induct)
    case less
    from agreeD [OF assms less.prems] have q: "q input = p input" and p: "regular input (p input)" by auto
    have s: "suffixing (length input) p" "suffixing (length input) q"
      using agree_suffixing [OF assms] less.prems suffixing_mono by blast+
    show ?case
    proof (cases "p input")
      case (Err e)
      then show ?thesis using p q by (auto simp: many0 s)
    next
      case (Ok y)
      then obtain rest x where y: "p input = Ok (rest, x)" by (cases y) auto
      then have x: "suffix rest input" using p by simp
      have le: "length rest \<le> length input" using x by (rule suffix_length_le)
      show ?thesis
      proof (cases "length rest = length input")
        case False
        then have "many0 N q rest = many0 N p rest \<and> regular rest (many0 N p rest)"
          using less.hyps [of rest] less.prems le by simp
        then show ?thesis using False y q x
          by (auto simp: many0 [OF s(1)] many0 [OF s(2)] then_parse_def regular_def split: res.split
              intro: suffix_order.order_trans)
      qed (simp add: many0 s y q)
    qed
  qed
  then show ?thesis by (rule agreeI)
qed

lemma agree_many1 [agree_intros]:
  assumes "agree k p q"
  shows "agree k (many1 N p) (many1 N q)"
proof -
  have m: "many1 N r input = then_parse (r input) (\<lambda>rest x. then_parse (many0 N r rest) (\<lambda>rest xs. Ok (rest, OList (x # outs_of xs))))"
    if "length input \<le> k" "r = p \<or> r = q" for r input
    by (rule many1, rule suffixing_mono [OF _ that(1)], use that(2) agree_suffixing [OF assms] in blast)
  have "agree k (\<lambda>input. then_parse (p input) (\<lambda>rest x. then_parse (many0 N p rest) (\<lambda>rest xs. Ok (rest, OList (x # outs_of xs)))))
    (\<lambda>input. then_parse (q input) (\<lambda>rest x. then_parse (many0 N q rest) (\<lambda>rest xs. Ok (rest, OList (x # outs_of xs)))))"
    using assms by (intro agree_intros)
  then show ?thesis by (simp add: agree_def m)
qed

lemma agree_separated [agree_intros]:
  assumes "t \<noteq> []" "agree k p q"
  shows "agree k (separated_list1 N (tag N t) p) (separated_list1 N (tag N t) q)"
proof -
  have m: "separated_list1 N (tag N t) r input = then_parse (r input) (\<lambda>rest x.
      then_parse (many0 N (preceded N (tag N t) r) rest) (\<lambda>rest xs. Ok (rest, OList (x # outs_of xs))))"
    if "length input \<le> k" "r = p \<or> r = q" for r input
  proof (rule separated_list1)
    show "suffixing (length input) r"
      by (rule suffixing_mono [OF _ that(1)], use that(2) agree_suffixing [OF assms(2)] in blast)
    show "suffixing (length input) (tag N t)" using agree_suffixing [OF agree_simple(1)] by blast
  qed (rule eats_tag [OF assms(1)])
  have "agree k (\<lambda>input. then_parse (p input) (\<lambda>rest x.
      then_parse (many0 N (preceded N (tag N t) p) rest) (\<lambda>rest xs. Ok (rest, OList (x # outs_of xs)))))
    (\<lambda>input. then_parse (q input) (\<lambda>rest x.
      then_parse (many0 N (preceded N (tag N t) q) rest) (\<lambda>rest xs. Ok (rest, OList (x # outs_of xs)))))"
    using assms by (intro agree_intros)
  then show ?thesis by (simp add: agree_def m)
qed

end

text \<open>Eight hexadecimal digits are a number of 32 bits: the \<open>expect\<close> of \<open>lc_ident_full\<close> cannot fail.\<close>

lemma hex_digit_val_less: "hex_digit_val c = Some d \<Longrightarrow> 0 \<le> d \<and> d < 16"
  by (auto simp: hex_digit_val_def is_digit_def split: if_splits)

lemma from_radix_fits:
  "list_all (\<lambda>c. hex_digit_val c \<noteq> None) s \<Longrightarrow> length s \<le> 8 \<Longrightarrow> acc < 16 ^ (8 - length s) \<Longrightarrow> from_radix 16 acc s \<noteq> None"
proof (induction s arbitrary: acc)
  case (Cons c cs)
  then obtain d where d: "hex_digit_val c = Some d" by auto
  let ?m = "16 ^ (8 - length (c # cs)) :: int"
  have m: "16 * ?m = 16 ^ (8 - length cs)" using Cons.prems(2) by (simp flip: power_Suc add: Suc_diff_Suc)
  have "acc * 16 + d < 16 * ?m" using hex_digit_val_less [OF d] Cons.prems(3) by linarith
  moreover have "(16::int) ^ (8 - length cs) \<le> 16 ^ 8" by (rule power_increasing) simp_all
  ultimately have "acc * 16 + d < 16 ^ (8 - length cs)" "acc * 16 + d < 2 ^ 32" using m by simp_all
  then show ?case using Cons d hex_digit_val_less [OF d] by simp
qed simp

context nom_crate
begin

lemma constructor_number_fits:
  assumes "opt N (preceded N (tag N ''#'') (take_while_m_n N 8 8 (is_hex_digit N))) input = Ok (rest, v)"
    and "option_of v = Some n"
  shows "from_str_radix 16 (str_of n) \<noteq> None"
proof -
  let ?P = "is_hex_digit N"
  obtain i where i: "take_while_m_n N 8 8 ?P i = Ok (rest, n)"
    using assms by (auto simp: opt preceded then_parse_def split: res.splits if_splits)
  then have n: "n = OStr (take (length (takeWhile ?P (take 8 i))) i)" and "8 \<le> length (takeWhile ?P (take 8 i))"
    by (auto simp: take_while_m_n took_def split: if_splits)
  then have l: "takeWhile ?P (take 8 i) = take 8 i" "length (take 8 i) = 8"
    using length_takeWhile_le [of ?P "take 8 i"] takeWhile_eq_take [of ?P "take 8 i"] by auto
  then have "list_all ?P (take 8 i)" by (metis list_all_iff set_takeWhileD)
  moreover have "str_of n = take 8 i" using n l by simp
  ultimately show ?thesis
    using l(2) from_radix_fits [of "take 8 i" 0] by (auto simp: from_str_radix_def is_hex_digit_def nom_is_hex_digit list_all_iff)
qed

lemma agree_comments [agree_intros]:
  "agree k (single_line_comment N) (single_line_comment N)"
  "agree k (multi_line_comment N) (multi_line_comment N)"
  unfolding single_line_comment_def multi_line_comment_def by (intro agree_intros)+

lemma agree_space_or_comment [agree_intros]: "agree k (space_or_comment N) (space_or_comment N)"
  unfolding space_or_comment_def [abs_def] by (intro agree_intros)

lemma agree_idents [agree_intros]:
  "agree k (lc_ident N) (lc_ident N)"
  "agree k (uc_ident N) (uc_ident N)"
  "agree k (nat_const N) (nat_const N)"
  unfolding lc_ident_def [abs_def] uc_ident_def [abs_def] nat_const_def by (intro agree_intros)+

lemma agree_ident_ns [agree_intros]:
  "agree k (lc_ident_ns N) (lc_ident_ns N)"
  "agree k (uc_ident_ns N) (uc_ident_ns N)"
  "agree k (var_ident N) (var_ident N)"
  unfolding lc_ident_ns_def uc_ident_ns_def [abs_def] namespace_ident_def [abs_def] var_ident_def
  by (intro agree_intros; simp)+

lemma agree_lc_ident_full [agree_intros]: "agree k (lc_ident_full N) (lc_ident_full N)"
  unfolding lc_ident_full_def [abs_def]
proof (rule agree_then)
  fix ident
  show "agree k (\<lambda>input. then_parse (opt N (preceded N (tag N ''#'') (take_while_m_n N 8 8 (is_hex_digit N))) input)
      (\<lambda>input number. case option_of number of None \<Rightarrow> Ok (input, OIdent (str_of ident) None)
        | Some n \<Rightarrow> (case from_str_radix 16 (str_of n) of None \<Rightarrow> Err Panics
            | Some number \<Rightarrow> Ok (input, OIdent (str_of ident) (Some number)))))
    (\<lambda>input. then_parse (opt N (preceded N (tag N ''#'') (take_while_m_n N 8 8 (is_hex_digit N))) input)
      (\<lambda>input number. case option_of number of None \<Rightarrow> Ok (input, OIdent (str_of ident) None)
        | Some n \<Rightarrow> (case from_str_radix 16 (str_of n) of None \<Rightarrow> Err Panics
            | Some number \<Rightarrow> Ok (input, OIdent (str_of ident) (Some number)))))"
    by (rule agree_then_within, intro agree_intros) (auto split: option.split dest: constructor_number_fits)
qed (intro agree_intros)

lemma agree_ids [agree_intros]:
  "agree k (full_combinator_id N) (full_combinator_id N)"
  "agree k (boxed_type_ident N) (boxed_type_ident N)"
  "agree k (var_ident_opt N) (var_ident_opt N)"
  "agree k (type_ident N) (type_ident N)"
  unfolding full_combinator_id_def boxed_type_ident_def [abs_def] var_ident_opt_def type_ident_def
  by (intro agree_intros)+

text \<open>A term holds terms only behind a parenthesis or a percent sign, on a shorter input.\<close>

lemma agree_expr_of: "agree k t t' \<Longrightarrow> agree k (expr_of N t) (expr_of N t')"
  unfolding expr_of_def subexpr_of_def by (intro agree_intros; simp)

lemma agree_term_of: "(\<And>j. j < k \<Longrightarrow> agree j t t') \<Longrightarrow> agree k (term_of N t) (term_of N t')"
  unfolding term_of_def by (intro agree_intros agree_after_tag; simp add: agree_expr_of)

lemma agree_term_at: "k < n \<Longrightarrow> k < m \<Longrightarrow> agree k (term_at N n) (term_at N m)"
proof (induction k arbitrary: n m rule: less_induct)
  case (less k)
  then obtain n' m' where n: "n = Suc n'" "m = Suc m'" by (metis less_imp_Suc_add)
  have "agree k (term_of N (term_at N n')) (term_of N (term_at N m'))"
    by (rule agree_term_of, rule less.IH) (use less.prems n in auto)
  then show ?case by (simp add: n agree_def)
qed

lemma agree_term [agree_intros]: "agree k (term_p N) (term_p N)"
  unfolding term_p_def [abs_def] by (rule agreeI) (use agree_term_at agreeD in blast)

lemma term_unfold: "term_p N = term_of N (term_p N)"
proof
  fix input :: string
  have "agree (length input) (term_of N (term_at N (length input))) (term_of N (term_p N))"
  proof (rule agree_term_of, rule agreeI)
    fix j and i :: string
    assume "j < length input" "length i \<le> j"
    then show "term_p N i = term_at N (length input) i \<and> regular i (term_at N (length input) i)"
      using agreeD [OF agree_term_at [of "length i" "length input" "Suc (length i)"], of i] by (simp add: term_p_def)
  qed
  then show "term_p N input = term_of N (term_p N) input" using agreeD by (fastforce simp: term_p_def)
qed

end

lemma agree_Failure [agree_intros]: "agree k (\<lambda>input. Err Failure) (\<lambda>input. Err Failure)"
  by (rule agreeI) simp

context nom_crate
begin

lemma agree_type_term [agree_intros]:
  "agree k (subexpr N) (subexpr N)"
  "agree k (type_expr N) (type_expr N)"
  "agree k (nat_term N) (nat_term N)"
  "agree k (type_term N) (type_term N)"
  unfolding subexpr_def subexpr_of_def type_expr_def [abs_def] expr_def nat_term_def [abs_def] type_term_def
  by (intro agree_intros agree_expr_of)+

lemma agree_result_type_p [agree_intros]: "agree k (result_type_p N) (result_type_p N)"
  unfolding result_type_p_def [abs_def] by (intro agree_intros)

lemma agree_field_parts [agree_intros]:
  "agree k (opt_args N) (opt_args N)"
  "agree k (conditional_def N) (conditional_def N)"
  "agree k (multiplicity_p N) (multiplicity_p N)"
  unfolding opt_args_def [abs_def] conditional_def_def [abs_def] multiplicity_p_def by (intro agree_intros)+

lemma agree_args_plain [agree_intros]:
  "agree k (args_1 N) (args_1 N)"
  "agree k (args_3 N) (args_3 N)"
  "agree k (args_4 N) (args_4 N)"
  unfolding args_1_def [abs_def] args_3_def [abs_def] args_4_def [abs_def] by (intro agree_intros)+

text \<open>A field holds fields only behind a bracket.\<close>

lemma agree_args_of:
  assumes "\<And>j. j < k \<Longrightarrow> agree j a a'"
  shows "agree k (args_of N a) (args_of N a')"
proof -
  have "agree k (args_2_of N a) (args_2_of N a')"
    unfolding args_2_of_def [abs_def]
    by (rule agree_then, intro agree_intros, rule agree_then, intro agree_intros, rule agree_then_eats, intro agree_intros,
        rule eats_tag, simp, intro agree_intros assms)
  then show ?thesis unfolding args_of_def by (intro agree_intros)
qed

lemma agree_args_at: "k < n \<Longrightarrow> k < m \<Longrightarrow> agree k (args_at N n) (args_at N m)"
proof (induction k arbitrary: n m rule: less_induct)
  case (less k)
  then obtain n' m' where n: "n = Suc n'" "m = Suc m'" by (metis less_imp_Suc_add)
  have "agree k (args_of N (args_at N n')) (args_of N (args_at N m'))"
    by (rule agree_args_of, rule less.IH) (use less.prems n in auto)
  then show ?case by (simp add: n agree_def)
qed

lemma agree_args [agree_intros]: "agree k (args N) (args N)"
  unfolding args_def [abs_def] by (rule agreeI) (use agree_args_at agreeD in blast)

lemma args_unfold: "args N = args_of N (args N)"
proof
  fix input :: string
  have "agree (length input) (args_of N (args_at N (length input))) (args_of N (args N))"
  proof (rule agree_args_of, rule agreeI)
    fix j and i :: string
    assume "j < length input" "length i \<le> j"
    then show "args N i = args_at N (length input) i \<and> regular i (args_at N (length input) i)"
      using agreeD [OF agree_args_at [of "length i" "length input" "Suc (length i)"], of i] by (simp add: args_def)
  qed
  then show "args N input = args_of N (args N) input" using agreeD by (fastforce simp: args_def)
qed

lemma agree_decls [agree_intros]:
  "agree k (combinator_decl N) (combinator_decl N)"
  "agree k (functional_combinator_decl N) (functional_combinator_decl N)"
  "agree k (builtin_combinator_decl N) (builtin_combinator_decl N)"
  unfolding combinator_decl_def [abs_def] functional_combinator_decl_def [abs_def] builtin_combinator_decl_def [abs_def]
  by (intro agree_intros)+

lemma agree_section: "agree k d d \<Longrightarrow> agree k (section_of N title d) (section_of N title d)"
  unfolding section_of_def by (intro agree_intros)

text \<open>What a section parser returns: a suffix of its input, or one of the two errors of \<^verbatim>\<open>nom\<close>.\<close>

lemma section_regular:
  assumes "agree (length input) p p"
  shows "found_combinators (p input) = Ok (rest, found) \<Longrightarrow> suffix rest input"
    and "found_combinators (p input) = Err e \<Longrightarrow> e = Error \<or> e = Failure"
  using agreeD [OF assms, of input] by (auto simp: found_combinators_def split: res.splits)

lemmas sections_regular =
  section_regular [OF agree_section [OF agree_decls(1)]] section_regular [OF agree_section [OF agree_decls(2)]]

end

text \<open>The sections of the real grammar are what the loop of \<open>parse\<close> needs.\<close>

sublocale nom_crate \<subseteq> schema: section_grammar "types_section N" "functions_section N"
  by unfold_locales (auto simp: types_section_def functions_section_def dest: sections_regular)

context nom_crate
begin

lemma schema_grammar: "section_grammar (types_section N) (functions_section N)"
  by (rule schema.section_grammar_axioms)

end

end
