(* ===== verification/Tl_Printed.thy ===== *)
theory Tl_Printed
  imports Tl_Grammar
begin

text \<open>
  The grammar of \<^verbatim>\<open>tl_parser/src/lib.rs\<close> reads back what a schema writes: the text the number of a
  combinator is computed from is a declaration of that combinator, and a schema of such declarations
  is read as the list of its combinators.
\<close>

section \<open>Reading a printed schema\<close>

text \<open>Names, types and fields as a schema writes them.\<close>

definition lc_word :: "string \<Rightarrow> bool" where
  "lc_word w \<longleftrightarrow> w \<noteq> [] \<and> is_lc_letter (hd w) \<and> list_all is_ident_char w"

definition uc_word :: "string \<Rightarrow> bool" where
  "uc_word w \<longleftrightarrow> w \<noteq> [] \<and> is_uc_letter (hd w) \<and> list_all is_ident_char w"

definition lc_name :: "string \<Rightarrow> bool" where
  "lc_name n \<longleftrightarrow> list_all lc_word (split CHR ''.'' n)"

definition uc_name :: "string \<Rightarrow> bool" where
  "uc_name n \<longleftrightarrow> list_all lc_word (butlast (split CHR ''.'' n)) \<and> uc_word (last (split CHR ''.'' n))"

definition type_name :: "string \<Rightarrow> bool" where
  "type_name n \<longleftrightarrow> n = ''#'' \<or> lc_name n \<or> uc_name n"

definition type_ref :: "string \<Rightarrow> bool" where
  "type_ref t \<longleftrightarrow> (case split_once CHR ''<'' t of
     None \<Rightarrow> type_name t
   | Some (h, params) \<Rightarrow> type_name h \<and> params \<noteq> [] \<and> last params = CHR ''>'' \<and> list_all type_name (split CHR '','' (butlast params)))"

definition condition_text :: "Condition \<Rightarrow> bool" where
  "condition_text c \<longleftrightarrow> lc_word (field_ref c) \<or> uc_word (field_ref c)"

definition name_text :: "string \<Rightarrow> bool" where
  "name_text n \<longleftrightarrow> lc_word n \<or> uc_word n \<or> n = ''_''"

text \<open>What follows a text: something that does not belong to it.\<close>

fun followed :: "(char \<Rightarrow> bool) \<Rightarrow> string \<Rightarrow> bool" where
  "followed P [] \<longleftrightarrow> True"
| "followed P (c # cs) \<longleftrightarrow> P c"

definition word_end :: "string \<Rightarrow> bool" where
  "word_end = followed (\<lambda>c. \<not> is_ident_char c)"

definition name_end :: "string \<Rightarrow> bool" where
  "name_end = followed (\<lambda>c. \<not> is_ident_char c \<and> c \<noteq> CHR ''.'')"

definition type_end :: "string \<Rightarrow> bool" where
  "type_end = followed (\<lambda>c. \<not> is_ident_char c \<and> c \<noteq> CHR ''.'' \<and> c \<noteq> CHR ''<'')"

lemmas followed_defs = word_end_def name_end_def type_end_def

lemma followed_mono: "followed P r \<Longrightarrow> (\<And>c. P c \<Longrightarrow> Q c) \<Longrightarrow> followed Q r"
  by (cases r) auto

lemma ends [intro]: "type_end r \<Longrightarrow> name_end r" "name_end r \<Longrightarrow> word_end r"
  unfolding followed_defs by (erule followed_mono, simp)+

lemma letter_classes:
  "is_lc_letter c \<Longrightarrow> is_ident_char c" "is_uc_letter c \<Longrightarrow> is_ident_char c" "is_digit c \<Longrightarrow> is_ident_char c"
  "is_lc_letter c \<Longrightarrow> \<not> is_uc_letter c" "is_digit c \<Longrightarrow> \<not> is_lc_letter c" "is_digit c \<Longrightarrow> \<not> is_uc_letter c"
  by (auto simp: is_ident_char_def is_letter_def is_lc_letter_def is_uc_letter_def is_digit_def)

lemma mark_classes [simp]:
  "c \<in> set ''.,<>()[]{}#%?:*=;!/- '' \<Longrightarrow> \<not> is_ident_char c"
  "c \<in> set ''.,<>()[]{}#%?:*=;!/- '' \<Longrightarrow> \<not> is_lc_letter c"
  "c \<in> set ''.,<>()[]{}#%?:*=;!/- '' \<Longrightarrow> \<not> is_uc_letter c"
  "c \<in> set ''.,<>()[]{}#%?:*=;!/- '' \<Longrightarrow> \<not> is_digit c"
  by (auto simp: is_ident_char_def is_letter_def is_lc_letter_def is_uc_letter_def is_digit_def is_underscore_def)

lemma lc_wordD: "lc_word w \<Longrightarrow> \<exists>c u. w = c # u \<and> is_lc_letter c \<and> list_all is_ident_char u"
  by (cases w) (auto simp: lc_word_def)

lemma uc_wordD: "uc_word w \<Longrightarrow> \<exists>c u. w = c # u \<and> is_uc_letter c \<and> list_all is_ident_char u"
  by (cases w) (auto simp: uc_word_def)

lemma takeWhile_word: "list_all P w \<Longrightarrow> followed (\<lambda>c. \<not> P c) r \<Longrightarrow> takeWhile P (w @ r) = w"
  by (induction w) (cases r, auto)+

lemma join_concat: "join t (x # xs) = x @ concat (map (\<lambda>y. t @ y) xs)"
  by (induction xs arbitrary: x) auto

lemma join_split: "join [d] (split d n) = n"
proof (induction n)
  case (Cons c n)
  then show ?case by (cases "split d n") (auto simp: join_concat)
qed simp

lemma split_nonempty: "split d n \<noteq> []"
  by (induction n) (auto split: list.split)

text \<open>A repetition reads the texts of a list one after the other.\<close>

context nom_crate
begin

lemma many0_reads:
  assumes p: "\<And>k. agree k p p"
    and read: "\<And>x r. x \<in> set xs \<Longrightarrow> Q r \<Longrightarrow> p (txt x @ r) = Ok (r, val x)"
    and nonempty: "\<And>x. x \<in> set xs \<Longrightarrow> txt x \<noteq> []"
    and start: "\<And>x r. x \<in> set (tl xs) \<Longrightarrow> Q (txt x @ r)"
    and stop: "Q rest" "p rest = Err Error"
  shows "many0 N p (concat (map txt xs) @ rest) = Ok (rest, OList (map val xs))"
  using read nonempty start
proof (induction xs)
  case Nil
  then show ?case using stop agree_suffixing [OF p] by (simp add: many0)
next
  case (Cons x xs)
  let ?r = "concat (map txt xs) @ rest"
  have "Q ?r" using stop(1) Cons.prems(3) by (cases xs) auto
  then have x: "p (txt x @ ?r) = Ok (?r, val x)" using Cons.prems(1) by simp
  have "many0 N p ?r = Ok (rest, OList (map val xs))"
    by (rule Cons.IH) (use Cons.prems in \<open>(cases xs; auto)\<close>)+
  moreover have "txt x \<noteq> []" using Cons.prems(2) by simp
  ultimately show ?case using x many0 [of "txt x @ ?r" p] agree_suffixing [OF p] by simp
qed

lemma separated_reads:
  assumes p: "\<And>k. agree k p p"
    and read: "\<And>x r. x \<in> set xs \<Longrightarrow> Q r \<Longrightarrow> p (x @ r) = Ok (r, OStr x)"
    and sep: "t \<noteq> []" "\<And>r. Q (t @ r)"
    and stop: "Q rest" "preceded N (tag N t) p rest = Err Error" and "xs \<noteq> []"
  shows "separated_list1 N (tag N t) p (join t xs @ rest) = Ok (rest, OList (map OStr xs))"
proof -
  obtain x ys where xs: "xs = x # ys" using assms(7) by (cases xs) auto
  let ?r = "concat (map (\<lambda>y. t @ y) ys) @ rest"
  have "Q ?r" using stop(1) sep(2) by (cases ys) simp_all
  then have x: "p (x @ ?r) = Ok (?r, OStr x)" using read xs by simp
  have "many0 N (preceded N (tag N t) p) ?r = Ok (rest, OList (map OStr ys))"
    by (rule many0_reads [where Q = Q])
      (use xs read sep stop p in \<open>auto simp: preceded tag took_def intro: agree_intros\<close>)
  with x xs show ?thesis
    using separated_list1 [of "join t xs @ rest" p "tag N t"] agree_suffixing [OF p] agree_suffixing [OF agree_simple(1)] eats_tag sep(1)
    by (simp add: join_concat)
qed

end

text \<open>Names.\<close>

lemma lc_name_words:
  assumes "lc_name n"
  obtains ws where "n = join ''.'' ws" "ws \<noteq> []" "\<forall>w\<in>set ws. lc_word w"
  using that [of "split CHR ''.'' n"] assms by (simp add: lc_name_def join_split split_nonempty list_all_iff)

lemma join_snoc: "ws \<noteq> [] \<Longrightarrow> join t (ws @ [w]) = join t ws @ t @ w"
  by (cases ws) (simp_all add: join_concat)

lemma uc_name_words:
  assumes "uc_name n"
  obtains (bare) "uc_word n" | (spaced) ws w where "n = join ''.'' ws @ ''.'' @ w" "ws \<noteq> []" "\<forall>w\<in>set ws. lc_word w" "uc_word w"
proof -
  let ?ws = "butlast (split CHR ''.'' n)" and ?w = "last (split CHR ''.'' n)"
  have n: "n = join ''.'' (?ws @ [?w])" using join_split [of "CHR ''.''" n] split_nonempty by simp
  have wf: "\<forall>w\<in>set ?ws. lc_word w" "uc_word ?w" using assms by (simp_all add: uc_name_def list_all_iff)
  show ?thesis
  proof (cases "?ws = []")
    case True
    then have "n = ?w" using n by simp
    then show ?thesis using wf(2) bare by simp
  next
    case False
    then have "n = join ''.'' ?ws @ ''.'' @ ?w" using n join_snoc by metis
    then show ?thesis using False wf spaced by blast
  qed
qed

text \<open>How a name and a type begin.\<close>

lemma word_head: "lc_word w \<Longrightarrow> \<exists>c u. w @ r = c # u \<and> is_lc_letter c" "uc_word w \<Longrightarrow> \<exists>c u. w @ r = c # u \<and> is_uc_letter c"
  using lc_wordD uc_wordD by fastforce+

lemma lc_name_head: "lc_name n \<Longrightarrow> \<exists>c u. n @ r = c # u \<and> is_lc_letter c"
  by (erule lc_name_words, metis append_assoc join_concat list.exhaust list.set_intros(1) word_head(1))

lemma uc_name_head: "uc_name n \<Longrightarrow> \<exists>c u. n @ r = c # u \<and> (is_lc_letter c \<or> is_uc_letter c)"
  by (erule uc_name_words, use word_head(2) in blast,
      metis append_assoc join_concat list.exhaust list.set_intros(1) word_head(1))

lemma type_name_head: "type_name n \<Longrightarrow> \<exists>c u. n @ r = c # u \<and> (is_lc_letter c \<or> is_uc_letter c \<or> c = CHR ''#'')"
  using lc_name_head uc_name_head by (fastforce simp: type_name_def)

lemma split_once_append_eq: "split_once d t = Some (a, b) \<Longrightarrow> t = a @ d # b"
  by (induction t arbitrary: a) (auto split: if_splits option.splits)

lemma type_ref_parts:
  assumes "type_ref t"
  obtains (bare) "type_name t"
  | (params) h vs where "t = h @ ''<'' @ join '','' vs @ ''>''" "type_name h" "vs \<noteq> []" "\<forall>v\<in>set vs. type_name v"
proof (cases "split_once CHR ''<'' t")
  case None
  then show ?thesis using assms bare by (simp add: type_ref_def)
next
  case (Some p)
  then obtain h b where p: "split_once CHR ''<'' t = Some (h, b)" by (cases p) auto
  then have wf: "type_name h" "b \<noteq> []" "last b = CHR ''>''" "\<forall>v\<in>set (split CHR '','' (butlast b)). type_name v"
    using assms by (auto simp: type_ref_def list_all_iff)
  then have "b = join '','' (split CHR '','' (butlast b)) @ ''>''" by (metis append_butlast_last_id join_split)
  with split_once_append_eq [OF p] wf(1,4) show ?thesis by (intro params [of h "split CHR '','' (butlast b)"]) (simp_all add: split_nonempty)
qed

lemma type_ref_head: "type_ref t \<Longrightarrow> \<exists>c u. t @ r = c # u \<and> (is_lc_letter c \<or> is_uc_letter c \<or> c = CHR ''#'')"
  by (erule type_ref_parts) (use type_name_head in \<open>fastforce+\<close>)

context nom_crate
begin

lemma ident_reads:
  "lc_word w \<Longrightarrow> word_end r \<Longrightarrow> lc_ident N (w @ r) = Ok (r, OStr w)"
  "uc_word w \<Longrightarrow> word_end r \<Longrightarrow> uc_ident N (w @ r) = Ok (r, OStr w)"
  by (auto dest!: lc_wordD uc_wordD simp: lc_ident_def uc_ident_def satisfy take_while takeWhile_word word_end_def took_def)

lemma ident_fails:
  "followed (\<lambda>c. \<not> is_lc_letter c) r \<Longrightarrow> lc_ident N r = Err Error"
  "followed (\<lambda>c. \<not> is_uc_letter c) r \<Longrightarrow> uc_ident N r = Err Error"
  by (cases r; simp add: lc_ident_def uc_ident_def satisfy)+

lemma words_read:
  assumes "ws \<noteq> []" "\<forall>w\<in>set ws. lc_word w" "word_end r" "preceded N (tag N ''.'') (lc_ident N) r = Err Error"
  shows "separated_list1 N (tag N ''.'') (lc_ident N) (join ''.'' ws @ r) = Ok (r, OList (map OStr ws))"
  by (rule separated_reads [where Q = word_end]) (use assms in \<open>auto simp: ident_reads word_end_def intro: agree_intros\<close>)

lemma after_name: "name_end r \<Longrightarrow> tag N ''.'' r = Err Error"
  by (cases r) (auto simp: name_end_def tag)

lemma lc_ident_ns_reads: "lc_name n \<Longrightarrow> name_end r \<Longrightarrow> lc_ident_ns N (n @ r) = Ok (r, OStr n)"
  by (erule lc_name_words) (auto simp: lc_ident_ns_def nom_map words_read preceded after_name ends comp_def)

lemma lc_ident_ns_fails:
  assumes "followed (\<lambda>c. \<not> is_lc_letter c) r"
  shows "separated_list1 N (tag N ''.'') (lc_ident N) r = Err Error" "lc_ident_ns N r = Err Error"
proof -
  show "separated_list1 N (tag N ''.'') (lc_ident N) r = Err Error"
    using separated_list1 [of r "lc_ident N" "tag N ''.''"] agree_suffixing [OF agree_simple(1)] agree_suffixing [OF agree_idents(1)]
      eats_tag [of "''.''"] ident_fails(1) [OF assms] by simp
  then show "lc_ident_ns N r = Err Error" by (simp add: lc_ident_ns_def nom_map)
qed

lemma uc_ident_ns_fails:
  "followed (\<lambda>c. \<not> is_lc_letter c \<and> \<not> is_uc_letter c) r \<Longrightarrow> uc_ident_ns N r = Err Error"
  using lc_ident_ns_fails(1) [OF followed_mono] ident_fails(2) [OF followed_mono]
  by (simp add: uc_ident_ns_def namespace_ident_def [abs_def] opt terminated)

lemma uc_ident_ns_of_lc:
  assumes "lc_name n" "name_end r"
  shows "uc_ident_ns N (n @ r) = Err Error"
proof -
  obtain ws where ws: "n = join ''.'' ws" "ws \<noteq> []" "\<forall>w\<in>set ws. lc_word w" using assms(1) by (rule lc_name_words)
  have "followed (\<lambda>c. \<not> is_uc_letter c) (n @ r)" using lc_name_head [OF assms(1), of r] letter_classes(4) by auto
  then show ?thesis using ws assms(2)
    by (simp add: uc_ident_ns_def namespace_ident_def [abs_def] opt terminated words_read preceded after_name ends ident_fails)
qed

lemma uc_ident_ns_reads:
  assumes "uc_name n" "name_end r"
  shows "uc_ident_ns N (n @ r) = Ok (r, OStr n)"
  using assms(1)
proof (cases rule: uc_name_words)
  case bare
  then have "followed (\<lambda>c. \<not> is_lc_letter c) (n @ r)" using word_head(2) [of n r] letter_classes(4) by auto
  then show ?thesis using bare assms(2)
    by (simp add: uc_ident_ns_def namespace_ident_def [abs_def] opt terminated lc_ident_ns_fails ident_reads ends)
next
  case (spaced ws w)
  have "followed (\<lambda>c. \<not> is_lc_letter c) (w @ r)" using word_head(2) [OF spaced(4), of r] letter_classes(4) by auto
  then have "preceded N (tag N ''.'') (lc_ident N) (''.'' @ w @ r) = Err Error" by (simp add: preceded tag took_def ident_fails)
  moreover have "word_end (''.'' @ w @ r)" by (simp add: word_end_def)
  ultimately show ?thesis using words_read [OF spaced(2,3)] spaced assms(2)
    by (simp add: uc_ident_ns_def namespace_ident_def [abs_def] opt terminated tag took_def ident_reads ends comp_def)
qed

lemma type_ident_reads: "type_name n \<Longrightarrow> name_end r \<Longrightarrow> type_ident N (n @ r) = Ok (r, OStr n)"
  by (auto simp: type_name_def type_ident_def boxed_type_ident_def [abs_def] alt uc_ident_ns_reads uc_ident_ns_of_lc
      lc_ident_ns_reads uc_ident_ns_fails lc_ident_ns_fails nom_map tag took_def)

lemma type_ident_fails:
  "followed (\<lambda>c. \<not> is_lc_letter c \<and> \<not> is_uc_letter c \<and> c \<noteq> CHR ''#'') r \<Longrightarrow> type_ident N r = Err Error"
  using uc_ident_ns_fails [OF followed_mono] lc_ident_ns_fails(2) [OF followed_mono]
  by (cases r) (auto simp: type_ident_def boxed_type_ident_def [abs_def] alt nom_map tag)

end

text \<open>Terms.\<close>

definition no_term :: "string \<Rightarrow> bool" where
  "no_term = followed (\<lambda>c. \<not> is_ident_char c \<and> c \<noteq> CHR ''('' \<and> c \<noteq> CHR ''#'' \<and> c \<noteq> CHR ''%'')"

context nom_crate
begin

lemma alt_next: "p input = Err Error \<Longrightarrow> alt N (p # q # ps) input = alt N (q # ps) input"
  by (simp add: alt)

lemma alt_first: "p input = Ok v \<Longrightarrow> alt N (p # ps) input = Ok v"
  by (simp add: alt)

lemma tag_fails: "followed (\<lambda>d. d \<noteq> c) r \<Longrightarrow> tag N (c # t) r = Err Error"
  by (cases r) (auto simp: tag)

lemma params_read:
  assumes "type_name h" "vs \<noteq> []" "\<forall>v\<in>set vs. type_name v"
  shows "recognize N (pair N (type_ident N) (delimited N (tag N ''<'') (separated_list1 N (tag N '','') (type_ident N)) (tag N ''>'')))
    (h @ ''<'' @ join '','' vs @ ''>'' @ r) = Ok (r, OStr (h @ ''<'' @ join '','' vs @ ''>''))"
proof -
  have "type_ident N (h @ ''<'' @ join '','' vs @ ''>'' @ r) = Ok (''<'' @ join '','' vs @ ''>'' @ r, OStr h)"
    by (rule type_ident_reads) (use assms(1) in \<open>simp_all add: name_end_def\<close>)
  moreover have "separated_list1 N (tag N '','') (type_ident N) (join '','' vs @ (''>'' @ r)) = Ok (''>'' @ r, OList (map OStr vs))"
    by (rule separated_reads [where Q = name_end])
      (use assms in \<open>auto simp: type_ident_reads name_end_def preceded tag intro: agree_intros\<close>)
  ultimately show ?thesis by (simp add: recognize pair delimited tag took_def)
qed

lemma term_reads:
  assumes "type_ref t" "type_end r"
  shows "term_p N (t @ r) = Ok (r, OStr t)"
proof -
  let ?d = "delimited N (tag N ''('') (expr_of N (term_p N)) (tag N '')'')"
  have "followed (\<lambda>c. c \<noteq> CHR ''('') (t @ r)"
    using type_ref_head [OF assms(1), of r] by auto
  then have d: "?d (t @ r) = Err Error" by (simp add: delimited tag_fails)
  from assms(1) show ?thesis
  proof (cases rule: type_ref_parts)
    case bare
    then have i: "type_ident N (t @ r) = Ok (r, OStr t)" using assms(2) by (simp add: type_ident_reads ends)
    have "followed (\<lambda>c. c \<noteq> CHR ''<'') r" using assms(2) by (cases r) (auto simp: type_end_def)
    with i have "nom_map N (recognize N (pair N (type_ident N)
        (delimited N (tag N ''<'') (separated_list1 N (tag N '','') (type_ident N)) (tag N ''>'')))) (\<lambda>s. s) (t @ r) = Err Error"
      by (simp add: nom_map recognize pair delimited tag_fails)
    with i d show ?thesis by (subst term_unfold) (simp add: term_of_def alt_next alt_first)
  next
    case (params h vs)
    then show ?thesis using params_read [OF params(2-4), of r] d
      by (subst term_unfold) (simp add: term_of_def alt_next nom_map alt_first)
  qed
qed

lemma simple_terms_fail:
  assumes "no_term r"
  shows "type_ident N r = Err Error" "var_ident N r = Err Error" "nat_const N r = Err Error"
proof -
  have r: "followed (\<lambda>c. \<not> is_lc_letter c \<and> \<not> is_uc_letter c \<and> \<not> is_digit c \<and> c \<noteq> CHR ''#'') r"
    using assms unfolding no_term_def by (rule followed_mono) (auto dest: letter_classes)
  show "type_ident N r = Err Error" by (rule type_ident_fails, rule followed_mono [OF r]) simp
  show "var_ident N r = Err Error"
    using ident_fails [of r] followed_mono [OF r] by (auto simp: var_ident_def alt)
  show "nat_const N r = Err Error" using r by (cases r) (simp_all add: nat_const_def take_while1)
qed

lemma term_fails:
  assumes "no_term r"
  shows "term_p N r = Err Error"
proof -
  have "followed (\<lambda>c. c \<noteq> CHR ''('') r" "followed (\<lambda>c. c \<noteq> CHR ''%'') r"
    using assms by (cases r; auto simp: no_term_def)+
  then show ?thesis using simple_terms_fail [OF assms]
    by (subst term_unfold) (simp add: term_of_def alt delimited preceded nom_map recognize pair tag_fails)
qed

lemma subexpr_fails:
  assumes "no_term r"
  shows "subexpr N r = Err Error"
proof -
  let ?p = "nom_map N (separated_pair N (alt N [term_p N, nom_map N (nat_const N) (\<lambda>s. s)]) (nom_map N (tag N ''+'') (\<lambda>s. s))
            (alt N [term_p N, nom_map N (nat_const N) (\<lambda>s. s)])) (\<lambda>p. OStr (str_of (fst_of p) @ '' + '' @ str_of (snd_of p)))"
  have "agree (length r) ?p ?p" by (intro agree_intros)
  then have "suffixing (length r) ?p" using agree_suffixing by blast
  moreover have "?p r = Err Error"
    using term_fails [OF assms] simple_terms_fail [OF assms] by (simp add: nom_map separated_pair alt)
  ultimately show ?thesis using term_fails [OF assms] by (simp add: subexpr_def subexpr_of_def alt nom_map [of "many1 N _"] many1)
qed

lemma type_term_reads: "type_ref t \<Longrightarrow> type_end r \<Longrightarrow> type_term N (t @ r) = Ok (r, OTyped False t)"
  using type_ref_head [of t r] term_reads [of t r] by (auto simp: type_term_def nom_map pair opt tag)

lemma type_term_fails: "no_term r \<Longrightarrow> followed (\<lambda>c. c \<noteq> CHR ''!'') r \<Longrightarrow> type_term N r = Err Error"
  by (simp add: type_term_def nom_map pair opt tag_fails term_fails)

end

text \<open>Numbers.\<close>

lemma from_radix_append:
  "from_radix b acc (xs @ ys) = Option.bind (from_radix b acc xs) (\<lambda>a. from_radix b a ys)"
  by (induction b acc xs rule: from_radix.induct) (auto split: option.splits)

lemma digit_char: "d < 10 \<Longrightarrow> is_digit (char_of (48 + d)) \<and> hex_digit_val (char_of (48 + d)) = Some (int d)" for d :: nat
proof -
  assume d: "d < 10"
  have "(of_char (char_of (48 + d) :: char) :: int) = int (of_char (char_of (48 + d) :: char))" by (simp only: of_nat_of_char)
  also have "\<dots> = 48 + int d" using d by simp
  finally show ?thesis using d by (simp add: is_digit_def hex_digit_val_def)
qed

lemma show_nat_all_digits: "list_all is_digit (show_nat n) \<and> show_nat n \<noteq> []"
proof (induction n rule: show_nat.induct)
  case (1 n)
  then show ?case by (simp add: show_nat.simps [of n] digit_char)
qed

lemma from_radix_show_nat: "int n < 2 ^ 32 \<Longrightarrow> from_radix 10 0 (show_nat n) = Some (int n)"
proof (induction n rule: show_nat.induct)
  case (1 n)
  show ?case
  proof (cases "n < 10")
    case True
    then show ?thesis using "1.prems" by (simp add: show_nat.simps [of n] digit_char)
  next
    case False
    then have "from_radix 10 0 (show_nat (n div 10)) = Some (int (n div 10))" using 1 by (auto simp: zdiv_int)
    moreover have "int (n div 10) * 10 + int (n mod 10) = int n" by (simp add: zdiv_int zmod_int)
    ultimately show ?thesis using False "1.prems"
      by (simp add: show_nat.simps [of n] from_radix_append digit_char)
  qed
qed

lemma from_str_radix_show: "from_str_radix 10 (show_nat (unat b)) = Some b"
proof -
  have "int (unat b) < 2 ^ 32" using unat_u32_less [of b] by (metis of_nat_less_iff of_nat_numeral of_nat_power)
  then show ?thesis using from_radix_show_nat [of "unat b"] show_nat_all_digits by (simp add: from_str_radix_def)
qed

text \<open>
  The fields whose text is read back. A repetition that has a name has no multiplicity, see
  \<open>named_repetition_misread\<close>.
\<close>

fun printable_field :: "Field \<Rightarrow> bool" where
  "printable_field (Field None (Plain t c) e) \<longleftrightarrow> \<not> e \<and> type_ref t \<and> c = None"
| "printable_field (Field (Some n) (Plain t c) e) \<longleftrightarrow> \<not> e \<and> name_text n \<and> type_ref t \<and> (\<forall>x\<in>set_option c. condition_text x)"
| "printable_field (Field None (Repetition m fs) e) \<longleftrightarrow> \<not> e \<and> (\<forall>x\<in>set_option m. type_ref x) \<and> fs \<noteq> [] \<and> list_all printable_field fs"
| "printable_field (Field (Some n) (Repetition m fs) e) \<longleftrightarrow> \<not> e \<and> name_text n \<and> m = None \<and> fs \<noteq> [] \<and> list_all printable_field fs"

text \<open>What the readers of spaces skip.\<close>

definition solid :: "string \<Rightarrow> bool" where
  "solid = followed (\<lambda>c. \<not> is_multispace c \<and> c \<noteq> CHR ''/'' \<and> c \<noteq> CHR ''{'')"

definition skips :: "nom_parser \<Rightarrow> bool" where
  "skips p \<longleftrightarrow> (\<forall>r. solid r \<longrightarrow> (\<exists>v. p r = Ok (r, v)) \<and> (\<exists>v. p ('' '' @ r) = Ok (r, v)))"

lemma skipsD: "skips p \<Longrightarrow> solid r \<Longrightarrow> \<exists>v. p r = Ok (r, v)" "skips p \<Longrightarrow> solid r \<Longrightarrow> \<exists>v. p (CHR '' '' # r) = Ok (r, v)"
  by (auto simp: skips_def)

lemma solid_space: "solid r \<Longrightarrow> takeWhile is_multispace r = [] \<and> takeWhile is_space r = []"
  by (cases r) (auto simp: solid_def is_multispace_def is_space_def)

lemma solid_ident: "is_ident_char c \<Longrightarrow> solid (c # r)"
  by (auto simp: solid_def is_multispace_def is_ident_char_def is_letter_def is_lc_letter_def is_uc_letter_def is_digit_def is_underscore_def)

lemma name_text_head: "name_text n \<Longrightarrow> \<exists>c u. n @ r = c # u \<and> is_ident_char c"
  using word_head [of n r] letter_classes by (auto simp: name_text_def is_ident_char_def is_underscore_def)

lemma name_text_solid: "name_text n \<Longrightarrow> solid (n @ r)"
  using name_text_head [of n r] solid_ident by auto

lemma type_ref_solid:
  assumes "type_ref t"
  shows "solid (t @ r)"
proof -
  obtain c u where "t @ r = c # u" "is_lc_letter c \<or> is_uc_letter c \<or> c = CHR ''#''" using type_ref_head [OF assms] by blast
  moreover have "solid (CHR ''#'' # u)" by (simp add: solid_def is_multispace_def)
  ultimately show ?thesis using letter_classes(1,2) solid_ident by metis
qed

lemma bracket_solid: "solid (CHR ''['' # r)" "solid (CHR '']'' # r)" "solid (CHR ''='' # r)" "solid (CHR '';'' # r)"
  by (simp_all add: solid_def is_multispace_def)

lemma repetition_solid: "\<forall>x\<in>set_option m. type_ref x \<Longrightarrow> solid (field_type_form form (Repetition m fs) @ r)"
  by (cases m) (simp_all add: type_ref_solid bracket_solid)

lemma field_form_solid: "printable_field f \<Longrightarrow> solid (field_form f @ r)"
  by (cases f rule: printable_field.cases) (auto simp: type_ref_solid name_text_solid repetition_solid)

text \<open>The first word of a type, where \<open>args_1\<close> and \<open>conditional_def\<close> look for a name.\<close>

lemma type_name_words:
  assumes "type_name t" "t \<noteq> ''#''"
  obtains w ws where "t = join ''.'' (w # ws)" "\<forall>v\<in>set (w # ws). lc_word v \<or> uc_word v"
proof -
  let ?ws = "split CHR ''.'' t"
  have "?ws = butlast ?ws @ [last ?ws]" using split_nonempty by simp
  then have "\<forall>v\<in>set ?ws. lc_word v \<or> uc_word v"
    using assms by (auto simp: type_name_def lc_name_def uc_name_def list_all_iff) (metis Un_iff empty_iff insert_iff list.set(1,2) set_append)
  then show ?thesis using that join_split [of "CHR ''.''" t] split_nonempty [of "CHR ''.''" t] by (metis list.exhaust)
qed

lemma type_name_first_word:
  assumes "type_name t" "t \<noteq> ''#''"
  obtains w u where "t = w @ u" "lc_word w \<or> uc_word w"
    "u = [] \<or> (\<exists>c v. u = CHR ''.'' # c # v \<and> \<not> is_digit c)"
proof -
  obtain w ws where t: "t = join ''.'' (w # ws)" and words: "\<forall>v\<in>set (w # ws). lc_word v \<or> uc_word v"
    using type_name_words [OF assms] by blast
  show ?thesis
  proof (cases ws)
    case Nil
    then show ?thesis using t words that [of w "[]"] by simp
  next
    case (Cons x xs)
    then obtain c u where "x = c # u" "\<not> is_digit c" using words word_head [of x "[]"] letter_classes by fastforce
    then show ?thesis using t words Cons that [of w "''.'' @ join ''.'' ws"] by (simp add: join_concat)
  qed
qed

definition unmarked :: "string \<Rightarrow> bool" where
  "unmarked = followed (\<lambda>c. c \<noteq> CHR '':'' \<and> c \<noteq> CHR ''?'')"

definition no_name :: "nom_ops \<Rightarrow> string \<Rightarrow> bool" where
  "no_name N s \<longleftrightarrow> var_ident N s = Err Error \<and> var_ident_opt N s = Err Error \<or>
     (\<exists>u w. var_ident N s = Ok (u, w) \<and> var_ident_opt N s = Ok (u, w) \<and> unmarked u \<and>
        preceded N (tag N ''.'') (nat_const N) u = Err Error)"

context nom_crate
begin

lemma skips_spaces: "skips (space0 N)" "skips (multispace0 N)"
  using solid_space by (auto simp: skips_def space0 multispace0 take_while took_def is_space_def [of "CHR '' ''"] is_multispace_def [of "CHR '' ''"])

lemma skips_space_or_comment: "skips (space_or_comment N)"
proof -
  let ?p = "alt N [multispace1 N, single_line_comment N, multi_line_comment N, line_ending N]"
  have "agree k ?p ?p" for k by (intro agree_intros)
  then have s: "suffixing k ?p" for k using agree_suffixing by blast
  have stop: "?p r = Err Error" if "solid r" for r
    using that by (cases r) (auto simp: solid_def alt multispace1 take_while1 single_line_comment_def multi_line_comment_def
        preceded delimited tag line_ending is_multispace_def)
  have "?p ('' '' @ r) = Ok (r, OStr '' '')" if "solid r" for r
    using solid_space [OF that] by (simp add: alt_first multispace1 take_while1 is_multispace_def [of "CHR '' ''"] took_def)
  then show ?thesis using stop s by (simp add: skips_def space_or_comment_def many0)
qed

lemma var_ident_reads: "lc_word w \<or> uc_word w \<Longrightarrow> word_end r \<Longrightarrow> var_ident N (w @ r) = Ok (r, OStr w)"
proof (cases "lc_word w")
  case False
  assume "lc_word w \<or> uc_word w" "word_end r"
  moreover have "followed (\<lambda>c. \<not> is_lc_letter c) (w @ r)"
    using calculation(1) False word_head(2) [of w r] letter_classes(4) by auto
  ultimately show ?thesis using False by (simp add: var_ident_def alt ident_reads ident_fails)
qed (simp add: var_ident_def alt_first ident_reads)

lemma var_ident_fails: "followed (\<lambda>c. \<not> is_lc_letter c \<and> \<not> is_uc_letter c) r \<Longrightarrow> var_ident N r = Err Error"
  using ident_fails [OF followed_mono] by (simp add: var_ident_def alt)

lemma var_ident_opt_reads: "name_text n \<Longrightarrow> word_end r \<Longrightarrow> var_ident_opt N (n @ r) = Ok (r, OStr n)"
  using var_ident_fails [of "''_'' @ r"]
  by (auto simp: name_text_def var_ident_opt_def alt var_ident_reads nom_map tag took_def is_lc_letter_def is_uc_letter_def)

lemma var_ident_opt_fails:
  "followed (\<lambda>c. \<not> is_lc_letter c \<and> \<not> is_uc_letter c \<and> c \<noteq> CHR ''_'') r \<Longrightarrow> var_ident_opt N r = Err Error"
  using var_ident_fails [OF followed_mono, of _ r] tag_fails [OF followed_mono, of _ r "CHR ''_''" "[]"]
  by (simp add: var_ident_opt_def alt nom_map)

text \<open>A type is not taken for a name or a condition.\<close>

lemma type_name_no_name:
  assumes "type_name t" "name_end r" "unmarked r"
  shows "no_name N (t @ r)"
proof (cases "t = ''#''")
  case True
  then show ?thesis by (simp add: no_name_def var_ident_fails var_ident_opt_fails)
next
  case False
  then obtain w u where t: "t = w @ u" "lc_word w \<or> uc_word w" "u = [] \<or> (\<exists>c v. u = CHR ''.'' # c # v \<and> \<not> is_digit c)"
    using type_name_first_word [OF assms(1)] by blast
  then have e: "word_end (u @ r)" "unmarked (u @ r)" using assms(2,3) ends(2) [of r] by (auto simp: word_end_def unmarked_def)
  then have w: "var_ident N (w @ u @ r) = Ok (u @ r, OStr w)" using var_ident_reads [OF t(2)] by simp
  then have "var_ident_opt N (w @ u @ r) = Ok (u @ r, OStr w)" by (simp add: var_ident_opt_def alt_first)
  moreover have "preceded N (tag N ''.'') (nat_const N) (u @ r) = Err Error"
    using t(3) after_name [OF assms(2)] by (auto simp: preceded tag took_def nat_const_def take_while1)
  ultimately show ?thesis using w e t(1) by (simp add: no_name_def)
qed

lemma type_ref_no_name: "type_ref t \<Longrightarrow> type_end r \<Longrightarrow> unmarked r \<Longrightarrow> no_name N (t @ r)"
  by (erule type_ref_parts) (auto simp: ends(1) intro!: type_name_no_name, auto simp: name_end_def unmarked_def)

lemma unmarked_tag: "unmarked u \<Longrightarrow> tag N '':'' u = Err Error" "unmarked u \<Longrightarrow> tag N ''?'' u = Err Error"
  unfolding unmarked_def by (rule tag_fails, erule followed_mono, simp)+

lemma no_nameD:
  assumes "no_name N s"
  shows "conditional_def N s = Err Error" "args_1 N s = Err Error" "terminated N (var_ident_opt N) (tag N '':'') s = Err Error"
  using assms by (auto simp: no_name_def conditional_def_def args_1_def opt terminated unmarked_tag)

lemma condition_reads:
  assumes "condition_text c"
  shows "conditional_def N (condition_form c @ ''?'' @ r) = Ok (r, OCondition c)"
proof (cases "bit_selector c")
  case None
  have "var_ident N (field_ref c @ ''?'' @ r) = Ok (''?'' @ r, OStr (field_ref c))"
    using assms by (intro var_ident_reads) (auto simp: condition_text_def word_end_def)
  then show ?thesis using None by (simp add: conditional_def_def condition_form_def opt preceded tag took_def)
next
  case (Some b)
  let ?n = "show_nat (unat b)"
  have v: "var_ident N (field_ref c @ ''.'' @ ?n @ ''?'' @ r) = Ok (''.'' @ ?n @ ''?'' @ r, OStr (field_ref c))"
    using assms by (intro var_ident_reads) (auto simp: condition_text_def word_end_def)
  have "takeWhile is_digit (?n @ ''?'' @ r) = ?n" using show_nat_all_digits by (intro takeWhile_word) auto
  then have "nat_const N (?n @ ''?'' @ r) = Ok (''?'' @ r, OStr ?n)"
    using show_nat_all_digits [of "unat b"] by (simp add: nat_const_def take_while1 took_def)
  then show ?thesis using v Some
    by (simp add: conditional_def_def condition_form_def opt preceded tag took_def from_str_radix_show)
qed

end

text \<open>Fields.\<close>

definition reads_field :: "nom_ops \<Rightarrow> Field \<Rightarrow> bool" where
  "reads_field N f \<longleftrightarrow> (\<forall>r. args N (field_form f @ '' '' @ r) = Ok ('' '' @ r, OFields [f])) \<and> (\<forall>r. solid (field_form f @ r))"

definition spaced_fields :: "Field list \<Rightarrow> string" where
  "spaced_fields fs = concat (map (\<lambda>f. field_form f @ '' '') fs)"

lemma join_spaced: "fs \<noteq> [] \<Longrightarrow> join '' '' (map field_form fs) @ CHR '' '' # r = spaced_fields fs @ r"
  by (induction fs rule: list_nonempty_induct) (auto simp: spaced_fields_def neq_Nil_conv)

context nom_crate
begin

lemma fields_read:
  assumes L: "skips L" "\<And>k. agree k L L" and T: "skips T" "\<And>k. agree k T T"
    and fs: "\<forall>f\<in>set fs. reads_field N f" "fs \<noteq> []" and rest: "solid rest" "args N rest = Err Error"
  shows "many0 N (delimited N L (args N) T) ('' '' @ spaced_fields fs @ rest) = Ok (rest, OList (map (\<lambda>f. OFields [f]) fs))"
proof -
  let ?p = "delimited N L (args N) T"
  let ?txt = "\<lambda>(pre, f). pre @ field_form f @ '' ''" and ?val = "\<lambda>(pre :: string, f). OFields [f]"
  obtain f gs where fgs: "fs = f # gs" using fs(2) by (cases fs) auto
  let ?xs = "('' '', f) # map (\<lambda>g. ('''', g)) gs"
  have read: "?p (?txt x @ r) = Ok (r, ?val x)" if "x \<in> set ?xs" "solid r" for x r
  proof -
    have "x = ('' '', f) \<or> (\<exists>g\<in>set gs. x = ('''', g))" using that(1) by auto
    then obtain pre g where x: "x = (pre, g)" "pre = '''' \<or> pre = '' ''" "reads_field N g" using fs(1) fgs by (metis list.set_intros)
    then have g: "args N (field_form g @ CHR '' '' # r) = Ok (CHR '' '' # r, OFields [g])" "solid (field_form g @ CHR '' '' # r)"
      by (simp_all add: reads_field_def)
    show ?thesis using x g skipsD [OF L(1) g(2)] skipsD(2) [OF T(1) that(2)] by (auto simp: delimited)
  qed
  have "many0 N ?p (concat (map ?txt ?xs) @ rest) = Ok (rest, OList (map ?val ?xs))"
  proof (rule many0_reads [where Q = solid])
    show "agree k ?p ?p" for k using L(2) T(2) by (intro agree_intros)
    show "solid (?txt x @ r)" if "x \<in> set (tl ?xs)" for x r using that fs(1) fgs by (auto simp: reads_field_def)
    show "?p rest = Err Error" using skipsD(1) [OF L(1) rest(1)] rest(2) by (auto simp: delimited)
  qed (use read rest(1) in auto)
  then show ?thesis by (simp add: fgs comp_def spaced_fields_def)
qed

lemma many1_many0:
  "suffixing (length input) p \<Longrightarrow> many0 N p input = Ok (rest, OList (x # xs)) \<Longrightarrow> many1 N p input = Ok (rest, OList (x # xs))"
  by (auto simp: many0 many1 then_parse_def split: if_splits res.splits prod.splits)

lemma bracketed_fields_read:
  assumes "\<forall>f\<in>set fs. reads_field N f" "fs \<noteq> []"
  shows "many1 N (delimited N (space0 N) (args N) (space0 N)) ('' '' @ join '' '' (map field_form fs) @ '' ]'' @ r)
    = Ok (CHR '']'' # r, OList (map (\<lambda>f. OFields [f]) fs))"
proof -
  let ?p = "delimited N (space0 N) (args N) (space0 N)" and ?i = "'' '' @ spaced_fields fs @ '']'' @ r"
  have p: "agree k ?p ?p" for k by (intro agree_intros)
  obtain f gs where fgs: "fs = f # gs" using assms(2) by (cases fs) auto
  have nt: "no_term (CHR '']'' # r)" by (simp add: no_term_def)
  have "args N (CHR '']'' # r) = Err Error"
    by (subst args_unfold) (simp add: args_of_def alt args_1_def args_2_of_def args_3_def args_4_def opt terminated
        var_ident_opt_fails multiplicity_p_def nat_term_def [abs_def] term_fails [OF nt] type_term_fails [OF nt] tag)
  then have "many0 N ?p ?i = Ok (CHR '']'' # r, OList (map (\<lambda>f. OFields [f]) fs))"
    using fields_read [OF skips_spaces(1) agree_spaces(3) skips_spaces(1) agree_spaces(3) assms, of "'']'' @ r"] bracket_solid(2) by simp
  then have "many1 N ?p ?i = Ok (CHR '']'' # r, OList (map (\<lambda>f. OFields [f]) fs))"
    using many1_many0 agree_suffixing [OF p] fgs by simp
  then show ?thesis by (simp add: join_spaced [OF assms(2)])
qed

end

context nom_crate
begin

lemma args_first: "args_1 N s = Ok v \<Longrightarrow> args N s = Ok v"
  by (subst args_unfold) (simp add: args_of_def alt_first)

lemma args_second: "args_1 N s = Err Error \<Longrightarrow> args_2_of N (args N) s = Ok v \<Longrightarrow> args N s = Ok v"
  by (subst args_unfold) (simp add: args_of_def alt)

lemma named_plain_read:
  assumes "name_text n" "type_ref t" "\<forall>x\<in>set_option c. condition_text x" and e: "type_end r" "unmarked r"
  shows "args N (n @ '':'' @ field_type_form form (Plain t c) @ r) = Ok (r, OFields [Field (Some n) (Plain t c) False])"
proof (rule args_first)
  have n: "var_ident_opt N (n @ CHR '':'' # u) = Ok (CHR '':'' # u, OStr n)" for u
    using var_ident_opt_reads [OF assms(1), of "CHR '':'' # u"] by (simp add: word_end_def)
  have t: "type_term N (t @ r) = Ok (r, OTyped False t)" by (rule type_term_reads [OF assms(2) e(1)])
  show "args_1 N (n @ '':'' @ field_type_form form (Plain t c) @ r) = Ok (r, OFields [Field (Some n) (Plain t c) False])"
  proof (cases c)
    case None
    have "conditional_def N (t @ r) = Err Error" by (rule no_nameD(1) [OF type_ref_no_name [OF assms(2) e]])
    then show ?thesis using None t by (simp add: args_1_def n tag took_def opt)
  next
    case (Some x)
    then have "conditional_def N (condition_form x @ CHR ''?'' # t @ r) = Ok (t @ r, OCondition x)"
      using condition_reads [of x "t @ r"] assms(3) by simp
    then show ?thesis using Some t by (simp add: args_1_def n tag took_def opt)
  qed
qed

lemma unnamed_plain_read:
  assumes "type_ref t"
  shows "args N (t @ '' '' @ r) = Ok ('' '' @ r, OFields [Field None (Plain t None) False])"
proof -
  let ?r = "'' '' @ r"
  have e: "type_end ?r" "unmarked ?r" by (simp_all add: type_end_def unmarked_def)
  note nn = no_nameD [OF type_ref_no_name [OF assms e]]
  have m: "multiplicity_p N (t @ ?r) = Err Error"
    using term_reads [OF assms e(1)] by (simp add: multiplicity_p_def terminated nat_term_def [abs_def] tag)
  have "tag N ''['' (t @ ?r) = Err Error" "tag N ''('' (t @ ?r) = Err Error"
    using type_ref_head [OF assms, of ?r] by (auto simp: tag)
  then have "args_2_of N (args N) (t @ ?r) = Err Error" "args_3 N (t @ ?r) = Err Error"
    using nn(3) m by (simp_all add: args_2_of_def args_3_def opt)
  moreover have "args_4 N (t @ ?r) = Ok (?r, OFields [Field None (Plain t None) False])"
    using type_term_reads [OF assms e(1)] by (simp add: args_4_def)
  ultimately show ?thesis using nn(2) by (subst args_unfold) (simp add: args_of_def alt)
qed

lemma brackets_read:
  assumes "opt N (terminated N (var_ident_opt N) (tag N '':'')) s = Ok (s1, OOption i)"
    and "opt N (multiplicity_p N) s1 = Ok (''[ '' @ join '' '' (map field_form fs) @ '' ]'' @ r, OOption m)"
    and "\<forall>f\<in>set fs. reads_field N f" "fs \<noteq> []"
  shows "args_2_of N (args N) s = Ok (r, OFields [Field (map_option str_of i) (Repetition (map_option str_of m) fs) False])"
  using assms(1,2) bracketed_fields_read [OF assms(3,4), of r]
  by (simp add: args_2_of_def tag took_def comp_def)

lemma at_bracket:
  "opt N (multiplicity_p N) (CHR ''['' # u) = Ok (CHR ''['' # u, OOption None)"
  "opt N (terminated N (var_ident_opt N) (tag N '':'')) (CHR ''['' # u) = Ok (CHR ''['' # u, OOption None)"
  "args_1 N (CHR ''['' # u) = Err Error"
  "conditional_def N (CHR ''['' # u) = Err Error"
  "type_term N (CHR ''['' # u) = Err Error"
proof -
  have nt: "no_term (CHR ''['' # u)" by (simp add: no_term_def)
  show "opt N (multiplicity_p N) (CHR ''['' # u) = Ok (CHR ''['' # u, OOption None)"
    by (simp add: opt multiplicity_p_def terminated nat_term_def [abs_def] term_fails [OF nt])
  show "opt N (terminated N (var_ident_opt N) (tag N '':'')) (CHR ''['' # u) = Ok (CHR ''['' # u, OOption None)"
    by (simp add: opt terminated var_ident_opt_fails)
  show "args_1 N (CHR ''['' # u) = Err Error" by (simp add: args_1_def var_ident_opt_fails)
  show "conditional_def N (CHR ''['' # u) = Err Error" by (simp add: conditional_def_def simple_terms_fail [OF nt])
  show "type_term N (CHR ''['' # u) = Err Error" by (rule type_term_fails [OF nt]) simp
qed

lemma unnamed_repetition_read:
  assumes "\<forall>x\<in>set_option m. type_ref x" "\<forall>f\<in>set fs. reads_field N f" "fs \<noteq> []"
  shows "args N (field_type_form field_form (Repetition m fs) @ '' '' @ r) = Ok ('' '' @ r, OFields [Field None (Repetition m fs) False])"
proof (cases m)
  case None
  let ?s = "''[ '' @ join '' '' (map field_form fs) @ '' ]'' @ '' '' @ r"
  have "args_2_of N (args N) ?s = Ok ('' '' @ r, OFields [Field None (Repetition m fs) False])"
    using brackets_read [of ?s ?s None fs "'' '' @ r" None] assms(2,3) None by (simp add: at_bracket)
  then show ?thesis using args_second [of ?s] None by (simp add: at_bracket)
next
  case (Some x)
  let ?u = "''[ '' @ join '' '' (map field_form fs) @ '' ]'' @ '' '' @ r"
  have x: "type_ref x" using assms(1) Some by simp
  have e: "type_end (''*'' @ ?u)" "unmarked (''*'' @ ?u)" by (simp_all add: type_end_def unmarked_def)
  note nn = no_nameD [OF type_ref_no_name [OF x e]]
  have "opt N (multiplicity_p N) (x @ ''*'' @ ?u) = Ok (?u, OOption (Some (OStr x)))"
    using term_reads [OF x e(1)] by (simp add: opt multiplicity_p_def terminated nat_term_def [abs_def] tag took_def)
  moreover have "opt N (terminated N (var_ident_opt N) (tag N '':'')) (x @ ''*'' @ ?u) = Ok (x @ ''*'' @ ?u, OOption None)"
    using nn(3) by (simp add: opt)
  ultimately have "args_2_of N (args N) (x @ ''*'' @ ?u) = Ok ('' '' @ r, OFields [Field None (Repetition m fs) False])"
    using brackets_read [of "x @ ''*'' @ ?u" "x @ ''*'' @ ?u" None fs "'' '' @ r" "Some (OStr x)"] assms(2,3) Some by simp
  then show ?thesis using args_second [OF nn(2)] Some by simp
qed

lemma named_repetition_read:
  assumes "name_text n" "\<forall>f\<in>set fs. reads_field N f" "fs \<noteq> []"
  shows "args N (n @ '':'' @ field_type_form field_form (Repetition None fs) @ '' '' @ r)
    = Ok ('' '' @ r, OFields [Field (Some n) (Repetition None fs) False])"
proof -
  let ?v = "CHR '' '' # join '' '' (map field_form fs) @ '' ]'' @ '' '' @ r"
  have n: "var_ident_opt N (n @ CHR '':'' # CHR ''['' # ?v) = Ok (CHR '':'' # CHR ''['' # ?v, OStr n)"
    using var_ident_opt_reads [OF assms(1), of "CHR '':'' # CHR ''['' # ?v"] by (simp add: word_end_def)
  have "args_1 N (n @ CHR '':'' # CHR ''['' # ?v) = Err Error"
    by (simp add: args_1_def n [simplified] tag took_def opt at_bracket)
  moreover have "args_2_of N (args N) (n @ CHR '':'' # CHR ''['' # ?v)
      = Ok ('' '' @ r, OFields [Field (map_option str_of (Some (OStr n))) (Repetition (map_option str_of None) fs) False])"
    by (rule brackets_read [OF _ _ assms(2,3)]) (use n at_bracket(1) in \<open>simp_all add: opt [of "terminated N _ _"] terminated tag took_def\<close>)
  ultimately show ?thesis using args_second by simp
qed

lemma field_read: "printable_field f \<Longrightarrow> reads_field N f"
proof (induction f rule: printable_field.induct)
  case (1 t c e)
  then show ?case using field_form_solid [OF 1] unnamed_plain_read by (simp add: reads_field_def)
next
  case (2 n t c e)
  then show ?case using field_form_solid [OF 2] named_plain_read [of n t c "'' '' @ _" field_form] by (simp add: reads_field_def type_end_def unmarked_def)
next
  case (3 m fs e)
  then have "\<forall>f\<in>set fs. reads_field N f" by (auto simp: list_all_iff)
  then show ?case using 3 field_form_solid [OF 3(2)] unnamed_repetition_read [of m fs] by (simp add: reads_field_def)
next
  case (4 n m fs e)
  then have "\<forall>f\<in>set fs. reads_field N f" by (auto simp: list_all_iff)
  then show ?case using 4 field_form_solid [OF 4(2)] named_repetition_read [of n fs] by (simp add: reads_field_def)
qed

end

section \<open>Declarations and schemas\<close>

text \<open>
  A declaration is the text the number of its combinator is computed from, with the number, when the
  schema gives one, behind the name.
\<close>

definition hex_char :: "nat \<Rightarrow> char" where
  "hex_char d = char_of (if d < 10 then 48 + d else 87 + d)"

fun hex_digits :: "nat \<Rightarrow> nat \<Rightarrow> string" where
  "hex_digits 0 n = []"
| "hex_digits (Suc k) n = hex_digits k (n div 16) @ [hex_char (n mod 16)]"

definition number_text :: "Combinator \<Rightarrow> string" where
  "number_text c = (case constructor_number c of None \<Rightarrow> [] | Some n \<Rightarrow> CHR ''#'' # hex_digits 8 (unat n))"

definition decl_text :: "Combinator \<Rightarrow> string" where
  "decl_text c = constructor_number_form (c\<lparr>comb_id := comb_id c @ number_text c\<rparr>) @ '';''"

definition printable :: "bool \<Rightarrow> Combinator \<Rightarrow> bool" where
  "printable func c \<longleftrightarrow> functional c = func \<and> \<not> builtin c \<and> lc_name (comb_id c) \<and> uc_name (result_type c)
     \<and> optional_fields c = [] \<and> list_all printable_field (comb_fields c)"

definition schema_text :: "Combinator list \<Rightarrow> Combinator list \<Rightarrow> string" where
  "schema_text ts fs = concat (map (\<lambda>c. decl_text c @ [CHR 0x0A]) ts) @ ''---functions---'' @ [CHR 0x0A]
     @ concat (map (\<lambda>c. decl_text c @ [CHR 0x0A]) fs)"

lemma hex_char_val: "d < 16 \<Longrightarrow> hex_digit_val (hex_char d) = Some (int d)"
proof -
  assume d: "d < 16"
  let ?n = "if d < 10 then 48 + d else 87 + d"
  have "(of_char (hex_char d) :: int) = int (of_char (char_of ?n :: char))" unfolding hex_char_def by (simp only: of_nat_of_char)
  also have "\<dots> = int ?n" using d by simp
  finally show ?thesis using d by (auto simp: hex_digit_val_def is_digit_def)
qed

lemma hex_digits_hex: "length (hex_digits k n) = k \<and> list_all (\<lambda>c. hex_digit_val c \<noteq> None) (hex_digits k n)"
  by (induction k arbitrary: n) (auto simp: hex_char_val)

lemma from_radix_hex: "n < 16 ^ k \<Longrightarrow> k \<le> 8 \<Longrightarrow> from_radix 16 0 (hex_digits k n) = Some (int n)"
proof (induction k arbitrary: n)
  case (Suc k)
  then have "from_radix 16 0 (hex_digits k (n div 16)) = Some (int (n div 16))"
    by (simp add: less_mult_imp_div_less mult.commute)
  moreover have "int (n div 16) * 16 + int (n mod 16) = int n" by (simp add: zdiv_int zmod_int)
  moreover have "(16::nat) ^ Suc k \<le> 16 ^ 8" using Suc.prems(2) by (intro power_increasing) auto
  then have "int n < 2 ^ 32" using Suc.prems(1) by simp
  ultimately show ?case by (simp add: from_radix_append hex_char_val)
qed simp

lemma field_form_nonempty: "printable_field f \<Longrightarrow> field_form f \<noteq> []"
proof (cases f rule: printable_field.cases)
  case (1 t c e)
  assume "printable_field f"
  then show ?thesis using 1 type_ref_head [of t "[]"] by auto
next
  case (3 m fs e)
  assume "printable_field f"
  then show ?thesis using 3 by (cases m) auto
qed simp_all

lemma decl_text_layout:
  assumes "printable func c"
  shows "decl_text c @ r = comb_id c @ number_text c @ '' '' @ spaced_fields (comb_fields c) @ ''= '' @ result_type c @ '';'' @ r"
proof -
  have p: "optional_fields c = []" "comb_id c \<noteq> []"
    using assms lc_name_head [of "comb_id c" "[]"] by (auto simp: printable_def)
  show ?thesis
  proof (cases "comb_fields c")
    case Nil
    then show ?thesis using p by (simp add: decl_text_def constructor_number_form_def spaced_fields_def)
  next
    case (Cons f gs)
    then have "field_form f \<noteq> []" using assms field_form_nonempty by (simp add: printable_def)
    then have "join '' '' (map field_form (comb_fields c)) \<noteq> []" using Cons by (simp add: join_concat)
    then show ?thesis using p Cons join_spaced [of "comb_fields c"]
      by (simp add: decl_text_def constructor_number_form_def)
  qed
qed

context nom_crate
begin

lemma id_reads:
  assumes "lc_name (comb_id c)"
  shows "full_combinator_id N (comb_id c @ number_text c @ CHR '' '' # r) = Ok (CHR '' '' # r, OIdent (comb_id c) (constructor_number c))"
proof -
  have "lc_ident_full N (comb_id c @ number_text c @ CHR '' '' # r) = Ok (CHR '' '' # r, OIdent (comb_id c) (constructor_number c))"
  proof (cases "constructor_number c")
    case None
    then show ?thesis using lc_ident_ns_reads [OF assms, of "CHR '' '' # r"]
      by (simp add: lc_ident_full_def number_text_def name_end_def opt preceded tag)
  next
    case (Some n)
    let ?h = "hex_digits 8 (unat n)"
    have h: "length ?h = 8" "list_all (\<lambda>c. hex_digit_val c \<noteq> None) ?h" using hex_digits_hex by blast+
    then have "\<forall>c\<in>set ?h. is_hex_digit N c" by (simp add: list_all_iff is_hex_digit_def nom_is_hex_digit)
    then have "takeWhile (is_hex_digit N) ?h = ?h" by (simp only: takeWhile_eq_all_conv)
    then have "length (takeWhile (is_hex_digit N) ?h) = 8" using h(1) by (simp only:)
    then have t: "take_while_m_n N 8 8 (is_hex_digit N) (?h @ CHR '' '' # r) = Ok (CHR '' '' # r, OStr ?h)"
      using h(1) by (simp add: take_while_m_n took_def)
    have "unat n < 16 ^ 8" using unat_u32_less [of n] by simp
    then have "from_str_radix 16 ?h = Some n" using from_radix_hex [of "unat n" 8] h(1) by (auto simp: from_str_radix_def)
    then show ?thesis using Some t lc_ident_ns_reads [OF assms, of "CHR ''#'' # ?h @ CHR '' '' # r"]
      by (simp add: lc_ident_full_def number_text_def name_end_def opt preceded tag took_def)
  qed
  then show ?thesis by (simp add: full_combinator_id_def alt_first)
qed

lemma id_fails:
  "followed (\<lambda>c. \<not> is_lc_letter c \<and> c \<noteq> CHR ''_'') r \<Longrightarrow> full_combinator_id N r = Err Error"
  using lc_ident_ns_fails(2) [OF followed_mono, of _ r] tag_fails [OF followed_mono, of _ r "CHR ''_''" "[]"]
  by (simp add: full_combinator_id_def alt lc_ident_full_def nom_map)

lemma result_type_reads:
  assumes "uc_name t"
  shows "result_type_p N (t @ CHR '';'' # r) = Ok (CHR '';'' # r, OTyped False t)"
proof -
  let ?p = "delimited N (space0 N) (subexpr N) (space_or_comment N)"
  have "agree k ?p ?p" for k by (intro agree_intros)
  then have s: "suffixing k ?p" for k using agree_suffixing by blast
  obtain v where v: "space0 N (CHR '';'' # r) = Ok (CHR '';'' # r, v)" using skipsD(1) [OF skips_spaces(1) bracket_solid(4)] by blast
  have "?p (CHR '';'' # r) = Err Error" using v subexpr_fails by (simp add: delimited no_term_def)
  moreover have "followed (\<lambda>c. c \<noteq> CHR ''!'') (t @ CHR '';'' # r)"
    using uc_name_head [OF assms, of "CHR '';'' # r"] by auto
  moreover have "uc_ident_ns N (t @ CHR '';'' # r) = Ok (CHR '';'' # r, OStr t)"
    using uc_ident_ns_reads [OF assms, of "CHR '';'' # r"] by (simp add: name_end_def)
  ultimately show ?thesis using s by (simp add: result_type_p_def opt tag_fails boxed_type_ident_def many0)
qed

lemma optionals_absent: "solid r \<Longrightarrow> opt_args N r = Err Error"
  using tag_fails [OF followed_mono, of _ r "CHR ''{''" "[]"] by (simp add: opt_args_def preceded solid_def)

lemma args_at_equals: "args N (CHR ''='' # r) = Err Error"
proof -
  have nt: "no_term (CHR ''='' # r)" by (simp add: no_term_def)
  show ?thesis
    by (subst args_unfold) (simp add: args_of_def alt args_1_def args_2_of_def args_3_def args_4_def opt terminated
        var_ident_opt_fails multiplicity_p_def nat_term_def [abs_def] term_fails [OF nt] type_term_fails [OF nt] tag)
qed

text \<open>The fields and the equals sign, whatever skips the spaces around the fields.\<close>

lemma fields_part_read:
  assumes L: "skips L" "\<And>k. agree k L L" and T: "skips T" "\<And>k. agree k T T" and E: "skips E"
    and fs: "list_all printable_field fs" and u: "solid u"
  obtains i v where "many0 N (delimited N L (args N) T) ('' '' @ spaced_fields fs @ ''= '' @ u) = Ok (i, OList (map (\<lambda>f. OFields [f]) fs))"
    "delimited N (multispace0 N) (tag N ''='') E i = Ok (u, v)"
proof -
  let ?p = "delimited N L (args N) T" and ?e = "''= '' @ u"
  have e: "solid ?e" using bracket_solid(3) by simp
  have at: "args N ?e = Err Error" using args_at_equals by simp
  obtain a b where ab: "multispace0 N ?e = Ok (?e, a)" "multispace0 N (CHR '' '' # ?e) = Ok (?e, b)"
    using skipsD [OF skips_spaces(2) e] by blast
  obtain c where "E (CHR '' '' # u) = Ok (u, c)" using skipsD(2) [OF E u] by blast
  then have d: "delimited N (multispace0 N) (tag N ''='') E ?e = Ok (u, OStr ''='')"
    "delimited N (multispace0 N) (tag N ''='') E (CHR '' '' # ?e) = Ok (u, OStr ''='')"
    using ab by (simp_all add: delimited tag took_def)
  show ?thesis
  proof (cases "fs = []")
    case True
    have "agree k ?p ?p" for k using L(2) T(2) by (intro agree_intros)
    then have s: "suffixing k ?p" for k using agree_suffixing by blast
    have "?p (CHR '' '' # ?e) = Err Error" using skipsD(2) [OF L(1) e] at by (auto simp: delimited)
    then have "many0 N ?p ('' '' @ spaced_fields fs @ ?e) = Ok (CHR '' '' # ?e, OList (map (\<lambda>f. OFields [f]) fs))"
      using s True by (simp add: many0 spaced_fields_def)
    then show ?thesis using d(2) that by simp
  next
    case False
    have "\<forall>f\<in>set fs. reads_field N f" using fs field_read by (simp add: list_all_iff)
    then show ?thesis using fields_read [OF L T _ False e at] d(1) that by simp
  qed
qed

end

context nom_crate
begin

lemma name_solid: "lc_name n \<Longrightarrow> solid (n @ r)" "uc_name n \<Longrightarrow> solid (n @ r)"
  using lc_name_head [of n r] uc_name_head [of n r] letter_classes(1,2) solid_ident by metis+

lemma id_part_read:
  assumes "lc_name (comb_id c)"
  shows "preceded N (multispace0 N) (full_combinator_id N) (comb_id c @ number_text c @ CHR '' '' # r)
    = Ok (CHR '' '' # r, OIdent (comb_id c) (constructor_number c))"
  using skipsD(1) [OF skips_spaces(2) name_solid(1) [OF assms], of "number_text c @ CHR '' '' # r"] id_reads [OF assms]
  by (auto simp: preceded)

lemma optionals_part_read:
  assumes "skips L" "solid r"
  shows "opt N (delimited N L (opt_args N) T) (CHR '' '' # r) = Ok (CHR '' '' # r, OOption None)"
  using skipsD(2) [OF assms] optionals_absent [OF assms(2)] by (auto simp: opt delimited)

lemma semicolon_read: "preceded N (multispace0 N) (tag N '';'') (CHR '';'' # r) = Ok (r, OStr '';'')"
  using skipsD(1) [OF skips_spaces(2) bracket_solid(4), of r] by (auto simp: preceded tag took_def)

lemma solid_fields: "list_all printable_field fs \<Longrightarrow> solid (spaced_fields fs @ ''= '' @ u)"
  using field_form_solid bracket_solid(3) by (cases fs) (simp_all add: spaced_fields_def)

text \<open>The two kinds of declarations.\<close>

lemma decl_reads:
  assumes p: "printable False c"
  shows "combinator_decl N (decl_text c @ r) = Ok (r, OCombinator c)"
proof -
  have wf: "lc_name (comb_id c)" "uc_name (result_type c)" "list_all printable_field (comb_fields c)"
    using p by (simp_all add: printable_def)
  let ?u = "result_type c @ '';'' @ r" and ?L = "space0 N" and ?T = "space_or_comment N"
  obtain i v where "many0 N (delimited N ?L (args N) ?T) ('' '' @ spaced_fields (comb_fields c) @ ''= '' @ ?u)
      = Ok (i, OList (map (\<lambda>f. OFields [f]) (comb_fields c)))" "delimited N (multispace0 N) (tag N ''='') ?T i = Ok (?u, v)"
    by (rule fields_part_read [OF skips_spaces(1) agree_spaces(3) skips_space_or_comment agree_space_or_comment skips_space_or_comment
        wf(3) name_solid(2) [OF wf(2)]])
  then show ?thesis
    using id_part_read [OF wf(1)] optionals_part_read [OF skips_spaces(1) solid_fields [OF wf(3)], of ?T ?u]
      result_type_reads [OF wf(2), of r] semicolon_read p
    unfolding decl_text_layout [OF p] by (simp add: combinator_decl_def printable_def comp_def)
qed

lemma functional_decl_reads:
  assumes p: "printable True c"
  shows "functional_combinator_decl N (decl_text c @ r) = Ok (r, OCombinator c)"
proof -
  have wf: "lc_name (comb_id c)" "uc_name (result_type c)" "list_all printable_field (comb_fields c)"
    using p by (simp_all add: printable_def)
  let ?u = "result_type c @ '';'' @ r" and ?T = "space_or_comment N"
  obtain i v where "many0 N (delimited N ?T (args N) ?T) ('' '' @ spaced_fields (comb_fields c) @ ''= '' @ ?u)
      = Ok (i, OList (map (\<lambda>f. OFields [f]) (comb_fields c)))" "delimited N (multispace0 N) (tag N ''='') (multispace0 N) i = Ok (?u, v)"
    by (rule fields_part_read [OF skips_space_or_comment agree_space_or_comment skips_space_or_comment agree_space_or_comment
        skips_spaces(2) wf(3) name_solid(2) [OF wf(2)]])
  then show ?thesis
    using id_part_read [OF wf(1)] optionals_part_read [OF skips_space_or_comment solid_fields [OF wf(3)], of ?T ?u]
      result_type_reads [OF wf(2), of r] semicolon_read p
    unfolding decl_text_layout [OF p] by (simp add: functional_combinator_decl_def printable_def comp_def)
qed

lemma decls_fail:
  assumes "followed (\<lambda>c. \<not> is_lc_letter c \<and> c \<noteq> CHR ''_'') r" "solid r"
  shows "combinator_decl N r = Err Error" "functional_combinator_decl N r = Err Error" "builtin_combinator_decl N r = Err Error"
  using id_fails [OF assms(1)] skipsD(1) [OF skips_spaces(2) assms(2)]
  by (auto simp: combinator_decl_def functional_combinator_decl_def builtin_combinator_decl_def preceded)

text \<open>A section: its title, or nothing, and declarations up to something that is none.\<close>

lemma newline_skipped: "solid r \<Longrightarrow> opt N (space_or_comment N) (CHR 0x0A # r) = Ok (r, OOption (Some OUnit))"
proof -
  let ?p = "alt N [multispace1 N, single_line_comment N, multi_line_comment N, line_ending N]"
  assume r: "solid r"
  have "agree k ?p ?p" for k by (intro agree_intros)
  then have s: "suffixing k ?p" for k using agree_suffixing by blast
  have "?p (CHR 0x0A # r) = Ok (r, OStr [CHR 0x0A])"
    using solid_space [OF r] by (simp add: alt_first multispace1 take_while1 is_multispace_def [of "CHR 0x0A"] took_def)
  moreover obtain v where "space_or_comment N r = Ok (r, v)" using skipsD(1) [OF skips_space_or_comment r] by blast
  then obtain xs where "many0 N ?p r = Ok (r, xs)"
    by (auto simp: space_or_comment_def then_parse_def split: res.splits prod.splits)
  ultimately show ?thesis using s by (simp add: opt space_or_comment_def many0 [of "CHR 0x0A # r"])
qed

lemma opt_skips: "solid r \<Longrightarrow> \<exists>v. opt N (space_or_comment N) r = Ok (r, v)"
  using skipsD(1) [OF skips_space_or_comment, of r] by (auto simp: opt)

lemma decls_read:
  assumes read: "\<And>c r. c \<in> set cs \<Longrightarrow> d (decl_text c @ r) = Ok (r, OCombinator c)" and ids: "\<And>c. c \<in> set cs \<Longrightarrow> printable func c"
    and d: "\<And>k. agree k d d" and rest: "solid rest" "d rest = Err Error" "builtin_combinator_decl N rest = Err Error"
  shows "many0 N (delimited N (opt N (space_or_comment N)) (alt N [d, builtin_combinator_decl N]) (opt N (space_or_comment N)))
    (concat (map (\<lambda>c. decl_text c @ [CHR 0x0A]) cs) @ rest) = Ok (rest, OList (map OCombinator cs))"
proof (rule many0_reads [where Q = solid])
  let ?p = "delimited N (opt N (space_or_comment N)) (alt N [d, builtin_combinator_decl N]) (opt N (space_or_comment N))"
  show "agree k ?p ?p" for k using d by (intro agree_intros)
  have begins: "solid (decl_text c @ r)" "decl_text c \<noteq> []" if "c \<in> set cs" for c r
  proof -
    show "solid (decl_text c @ r)"
      unfolding decl_text_layout [OF ids [OF that]] by (rule name_solid) (use ids [OF that] in \<open>simp add: printable_def\<close>)
    show "decl_text c \<noteq> []" by (simp add: decl_text_def)
  qed
  show "?p ((decl_text c @ [CHR 0x0A]) @ r) = Ok (r, OCombinator c)" if "c \<in> set cs" "solid r" for c r
    using opt_skips [OF begins(1) [OF that(1)], of "CHR 0x0A # r"] read [OF that(1)] newline_skipped [OF that(2)]
    by (auto simp: delimited alt_first)
  show "solid ((decl_text c @ [CHR 0x0A]) @ r)" if "c \<in> set (tl cs)" for c r
    using begins(1) [of c "CHR 0x0A # r"] that by (cases cs) auto
  show "?p rest = Err Error" using opt_skips [OF rest(1)] rest(2,3) by (auto simp: delimited alt)
qed (use rest(1) in auto)

end

context nom_crate
begin

lemma section_read:
  assumes "many0 N (delimited N (opt N (space_or_comment N)) (alt N [d, builtin_combinator_decl N]) (opt N (space_or_comment N))) input
      = Ok (rest, OList (map OCombinator cs))"
    and "title_text = [] \<and> solid input \<and> \<not> prefix title input \<or> title_text = title @ [CHR 0x0A] \<and> solid title \<and> solid input \<and> title \<noteq> []"
  shows "found_combinators (section_of N title d (title_text @ input)) = Ok (rest, Some cs)"
proof -
  let ?h = "opt N (delimited N (opt N (space_or_comment N)) (tag N title) (opt N (space_or_comment N)))"
  have "\<exists>v. ?h (title_text @ input) = Ok (input, v)"
    using assms(2)
  proof
    assume "title_text = [] \<and> solid input \<and> \<not> prefix title input"
    then show ?thesis using opt_skips [of input] by (auto simp: opt [of "delimited N _ _ _"] delimited tag)
  next
    assume t: "title_text = title @ [CHR 0x0A] \<and> solid title \<and> solid input \<and> title \<noteq> []"
    then have "solid (title @ CHR 0x0A # input)" by (cases title) (simp_all add: solid_def)
    then show ?thesis using t opt_skips [of "title @ CHR 0x0A # input"] newline_skipped [of input]
      by (auto simp: opt [of "delimited N _ _ _"] delimited tag took_def)
  qed
  then show ?thesis using assms(1)
    by (auto simp: section_of_def opt [of "preceded N _ _"] preceded found_combinators_def comp_def)
qed

lemma functions_title: "solid (''---functions---'' @ r)" "followed (\<lambda>c. \<not> is_lc_letter c \<and> c \<noteq> CHR ''_'') (''---functions---'' @ r)"
  by (simp_all add: solid_def is_multispace_def)

lemma first_decl:
  assumes "\<forall>c\<in>set cs. printable func c"
  shows "cs = [] \<or> (\<exists>a u. concat (map (\<lambda>c. decl_text c @ [CHR 0x0A]) cs) @ r = a # u \<and> is_lc_letter a)"
proof (cases cs)
  case (Cons c ds)
  then have p: "printable func c" using assms by simp
  then show ?thesis
    using lc_name_head [of "comb_id c" "number_text c @ '' '' @ spaced_fields (comb_fields c) @ ''= '' @ result_type c @ '';''
        @ CHR 0x0A # concat (map (\<lambda>c. decl_text c @ [CHR 0x0A]) ds) @ r"] Cons
      decl_text_layout [OF p, of "CHR 0x0A # concat (map (\<lambda>c. decl_text c @ [CHR 0x0A]) ds) @ r"]
    by (simp add: printable_def)
qed simp

lemma decls_solid:
  assumes "\<forall>c\<in>set cs. printable func c" "solid r"
  shows "solid (concat (map (\<lambda>c. decl_text c @ [CHR 0x0A]) cs) @ r)"
  using first_decl [OF assms(1), of r] assms(2) letter_classes(1) solid_ident by fastforce

lemma schema_read:
  assumes ts: "\<forall>c\<in>set ts. printable False c" and fs: "\<forall>c\<in>set fs. printable True c"
  shows "parse_schema N (schema_text ts fs) = Some (Ok (ts @ fs))"
proof -
  let ?lines = "\<lambda>cs. concat (map (\<lambda>c. decl_text c @ [CHR 0x0A]) cs)"
  let ?title = "''---functions---''"
  let ?rest = "?title @ [CHR 0x0A] @ ?lines fs"
  have "\<not> prefix ''---types---'' (?lines ts @ ?rest)"
    using first_decl [OF ts, of ?rest] by (auto simp: is_lc_letter_def)
  moreover have "many0 N (delimited N (opt N (space_or_comment N)) (alt N [combinator_decl N, builtin_combinator_decl N]) (opt N (space_or_comment N)))
      (?lines ts @ ?rest) = Ok (?rest, OList (map OCombinator ts))"
    by (rule decls_read [where func = False]) (use ts functions_title decls_fail decl_reads agree_decls(1) in auto)
  moreover have "solid (?lines ts @ ?rest)" by (rule decls_solid [OF ts functions_title(1)])
  ultimately have T: "types_section N (schema_text ts fs) = Ok (?rest, Some ts)"
    using section_read [of "combinator_decl N" "?lines ts @ ?rest" ?rest ts "[]" "''---types---''"]
    by (simp add: types_section_def schema_text_def)
  have "many0 N (delimited N (opt N (space_or_comment N)) (alt N [functional_combinator_decl N, builtin_combinator_decl N]) (opt N (space_or_comment N)))
      (?lines fs @ []) = Ok ([], OList (map OCombinator fs))"
    by (rule decls_read [where func = True]) (use fs decls_fail functional_decl_reads agree_decls(2) in \<open>auto simp: solid_def\<close>)
  moreover have "solid (?lines fs)" using decls_solid [OF fs, of "[]"] by (simp add: solid_def)
  ultimately have "functions_section N ?rest = Ok ([], Some fs)"
    using section_read [of "functional_combinator_decl N" "?lines fs" "[]" fs "?title @ [CHR 0x0A]" ?title]
    by (simp add: functions_section_def solid_def is_multispace_def)
  then show ?thesis using T by (simp add: parse_schema_def parse_def parse_from.simps extended_def Let_def)
qed

end

section \<open>Properties\<close>

text \<open>
  The functions of the grammar call one another as the source says: the bound on the depth of the
  calls is not part of their behaviour.
\<close>

lemma grammar_unfolds:
  assumes "nom_crate N"
  shows "term_p N = term_of N (term_p N)" "args N = args_of N (args N)"
  by (rule nom_crate.term_unfold [OF assms]) (rule nom_crate.args_unfold [OF assms])

text \<open>
  C27. Parsing a schema always returns. On every text the parser ends, without a panic and without
  going deeper than the text is long: the eight digits of a constructor number always are a number,
  and the loop of \<open>parse\<close> stops also on a text that no section consumes. It returns combinators exactly
  when the whole text is a sequence of sections of types and functions, in their order and with none
  lost; otherwise the error is one of the two of \<^verbatim>\<open>nom\<close> or the loop's own.
\<close>

theorem schema_parse_total:
  assumes "nom_crate N"
  shows "\<exists>r. parse_schema N input = Some r
    \<and> (\<forall>cs. r = Ok cs \<longleftrightarrow> sections (types_section N) (functions_section N) input cs)
    \<and> (\<forall>e. r = Err (ParseError e) \<longrightarrow> e = Error \<or> e = Failure)"
proof -
  have g: "section_grammar (types_section N) (functions_section N)" by (rule nom_crate.schema_grammar [OF assms])
  obtain r where r: "parse (types_section N) (functions_section N) input = Some r"
    "\<forall>cs. r = Ok cs \<longleftrightarrow> sections (types_section N) (functions_section N) input cs"
    using parse_terminates [OF g] by blast
  have "e = Error \<or> e = Failure" if "r = Err (ParseError e)" for e
  proof -
    have "\<exists>i. types_section N i = Err e \<or> functions_section N i = Err e"
      using section_grammar.parse_from_error [OF g, of "[]" input e] r(1) that by (simp add: parse_def)
    then show ?thesis
      unfolding types_section_def functions_section_def using nom_crate.sections_regular(2,4) [OF assms] by metis
  qed
  then show ?thesis using r by (auto simp: parse_schema_def)
qed

theorem schema_parse_total_witness:
  "parse_schema std_nom ''---functions---'' = Some (Ok [])
   \<and> (\<exists>r. parse_schema std_nom ''x#12 = X;'' = Some r \<and> (\<forall>e. r = Err (ParseError e) \<longrightarrow> e = Error \<or> e = Failure))"
proof
  have "types_section std_nom ''---functions---'' = Ok (''---functions---'', Some [])"
    "functions_section std_nom ''---functions---'' = Ok ([], Some [])"
    by code_simp+
  then have "sections (types_section std_nom) (functions_section std_nom) ''---functions---'' []"
    using sections.last [of "types_section std_nom"] by (fastforce simp: extended_def)
  then show "parse_schema std_nom ''---functions---'' = Some (Ok [])"
    using schema_parse_total [OF std.nom_crate_axioms, of "''---functions---''"] by auto
  show "\<exists>r. parse_schema std_nom ''x#12 = X;'' = Some r \<and> (\<forall>e. r = Err (ParseError e) \<longrightarrow> e = Error \<or> e = Failure)"
    using schema_parse_total [OF std.nom_crate_axioms, of "''x#12 = X;''"] by auto
qed

text \<open>
  C4. A schema is read back as it was written. Types and functions, with their numbers, their fields
  (plain, conditional on a bit, unnamed, or repeated to any depth) and types with arguments, written
  in the form their constructor numbers are computed from, one to a line and the functions behind
  their title, are returned by \<open>parse\<close> exactly as they are: every name, every bit of a condition, every
  number, in order.
\<close>

theorem printed_schema_read:
  assumes "nom_crate N" and "\<forall>c\<in>set ts. printable False c" and "\<forall>c\<in>set fs. printable True c"
  shows "parse_schema N (schema_text ts fs) = Some (Ok (ts @ fs))"
  by (rule nom_crate.schema_read [OF assms])

definition example_type :: Combinator where
  "example_type = \<lparr>functional = False, builtin = False, comb_id = ''liteServer.header'', result_type = ''liteServer.Header'',
     constructor_number = Some 42, optional_fields = [],
     comb_fields = [Field (Some ''mode'') (Plain ''#'' None) False,
       Field (Some ''proof'') (Plain ''vector<ton.Cell>'' (Some \<lparr>field_ref = ''mode'', bit_selector = Some 31\<rparr>)) False,
       Field None (Repetition (Some ''n'') [Field (Some ''x'') (Plain ''int'' None) False, Field None (Plain ''Bool'' None) False]) False]\<rparr>"

definition example_function :: Combinator where
  "example_function = \<lparr>functional = True, builtin = False, comb_id = ''getTime'', result_type = ''Time'',
     constructor_number = None, optional_fields = [], comb_fields = []\<rparr>"

theorem printed_schema_read_witness:
  "schema_text [example_type] [example_function] =
     ''liteServer.header#0000002a mode:# proof:mode.31?vector<ton.Cell> n*[ x:int Bool ] = liteServer.Header;'' @ [CHR 0x0A]
     @ ''---functions---'' @ [CHR 0x0A] @ ''getTime = Time;'' @ [CHR 0x0A]
   \<and> parse_schema std_nom (schema_text [example_type] [example_function]) = Some (Ok [example_type, example_function])"
proof
  show "schema_text [example_type] [example_function] =
     ''liteServer.header#0000002a mode:# proof:mode.31?vector<ton.Cell> n*[ x:int Bool ] = liteServer.Header;'' @ [CHR 0x0A]
     @ ''---functions---'' @ [CHR 0x0A] @ ''getTime = Time;'' @ [CHR 0x0A]"
    by code_simp
  have "printable False example_type" "printable True example_function" by code_simp+
  then show "parse_schema std_nom (schema_text [example_type] [example_function]) = Some (Ok [example_type, example_function])"
    using printed_schema_read [OF std.nom_crate_axioms, of "[example_type]" "[example_function]"] by simp
qed

text \<open>
  What the order of the alternatives costs: a repetition with a name and a multiplicity is never
  read. The alternative for plain fields takes its name and its multiplicity for a field and leaves the
  bracket behind, though \<open>args_2\<close> would read the whole.
\<close>

lemma named_repetition_misread:
  assumes "nom_crate N" "name_text n" "type_ref m"
  shows "args N (n @ '':'' @ m @ ''*['' @ r) = Ok (''*['' @ r, OFields [Field (Some n) (Plain m None) False])"
  using nom_crate.named_plain_read [OF assms(1-3), of None "''*['' @ r"] by (simp add: type_end_def unmarked_def)

text \<open>A selector of a bit that is not a number of 32 bits ends the parsing of the whole schema.\<close>

lemma large_selector_fails: "args std_nom ''x:mode.4294967296?int'' = Err Failure"
  by code_simp

end
