(* ===== verification/Spec2Isabelle.thy ===== *)
theory Spec2Isabelle
  imports Adnl Shard_Tasks Tonlib_Client Services Discovery Grpc Trackers Emulators Ton_Contract
    Tl_Generated Tonlib_Generator Tl_Printed
begin

text \<open>
  Verification of the TON client libraries and services of this repository.

  \<^bold>\<open>The program.\<close> Two independent clients talk to the lite servers of the TON network.
  The first, \<^verbatim>\<open>tonlibjson-client\<close>, drives the C library tonlib through
  \<^verbatim>\<open>tonlibjson-sys\<close>: requests are JSON texts with an identifier, one thread receives the
  answers and hands each to the future that waits for it. One such client per lite server is wrapped
  in layers of services (timeouts, sharing, metrics, retries), follows the blocks its server holds in
  a registry (the cursor client), and is chosen by a router that asks every server's registry whether
  it can answer a request. The discovery actor tells the router which servers exist. \<open>TonClient\<close> is
  the public face: single requests and streams of transactions.
  The second client, \<^verbatim>\<open>ton-liteserver-client\<close>, speaks the TL protocol over the encrypted
  ADNL transport of \<^verbatim>\<open>adnl-tcp\<close> itself, and tracks blocks with a group of actors. The types
  of both protocols are generated from their TL schemas when the program is built, by the parser
  \<^verbatim>\<open>tl_parser\<close> and one generator per client. On the first client rest the gRPC services of
  \<^verbatim>\<open>ton-grpc\<close> and the calls of contracts of \<^verbatim>\<open>ton-contract\<close>. The services of
  \<^verbatim>\<open>tvm-grpc\<close> run emulators of the TON virtual machine, one per stream.

  \<^bold>\<open>Theories and sources.\<close>
  \<^item> \<open>Prelude\<close>: Rust's integers, \<open>Result\<close>, panics, wrap-around, byte orders; no source file.
  \<^item> \<open>Tl_Codec\<close>: \<^verbatim>\<open>adnl-tcp/src/serializer.rs\<close>, \<^verbatim>\<open>deserializer.rs\<close>,
    \<^verbatim>\<open>types.rs\<close>. Writers append to a \<open>Serializer\<close> record, readers return the rest of a
    \<open>Deserializer\<close>; shown: what is written is read back for every scalar and for vectors, and on which
    strings \<open>write_bytes\<close> fails to do so.
  \<^item> \<open>Adnl\<close>: \<^verbatim>\<open>packet.rs\<close>, \<^verbatim>\<open>codec.rs\<close>, \<^verbatim>\<open>aes_ctr.rs\<close>,
    \<^verbatim>\<open>key.rs\<close>, \<^verbatim>\<open>client.rs\<close>, \<^verbatim>\<open>server.rs\<close>. The codec is a record
    with its two cipher states; shown: packets arrive in order however the bytes are cut into reads,
    a changed packet is refused, the handshake completes and accepts nothing but its own form.
  \<^item> \<open>Shard_Prefix\<close>, \<open>Router\<close>: \<^verbatim>\<open>ton-client-util/src/router\<close>. Shown: a shard stands for
    the accounts that start with its bits, its two children partition it; the router sends a request
    to a server that has the block and otherwise to those with the latest one, and its table is the one
    the discovery describes.
  \<^item> \<open>Address\<close>: \<^verbatim>\<open>tonlibjson-client/src/address.rs\<close>; the round trips of the three forms.
  \<^item> \<open>Ton_Block\<close>: \<^verbatim>\<open>tonlibjson-client/src/block.rs\<close>, \<^verbatim>\<open>request.rs\<close>,
    \<^verbatim>\<open>session.rs\<close> and \<^verbatim>\<open>ton-liteserver-client/src/tl.rs\<close>: every request with its
    route and timeout.
  \<^item> \<open>Cursor\<close>, \<open>Cursor_Discover\<close>, \<open>Shard_Tasks\<close>: \<^verbatim>\<open>tonlibjson-client/src/cursor_client.rs\<close>.
    The registry of a server is a pair of bounds per shard; shown: what the registry says it contains
    against the blocks that were stored, that the binary search for the first block returns the first
    available one (and when it does not), that following the last block catches up, and that the
    task of the last block, the task of the shards and the tasks of the single shards, which run
    together and talk through channels, keep the registry well-formed (and how a shard's bound can
    move back all the same).
  \<^item> \<open>Tonlib_Client\<close>, \<open>Tonlib_Sys\<close>: \<^verbatim>\<open>tonlibjson-client/src/client.rs\<close>,
    \<^verbatim>\<open>make.rs\<close> and \<^verbatim>\<open>tonlibjson-sys/src\<close>. A step relation over calls, received
    packets, polls and drops of futures; shown: an answer reaches the request it belongs to and no
    other, and the strings of the C library are valid UTF-8 when Rust sees them.
  \<^item> \<open>Services\<close>: \<^verbatim>\<open>ton-client-util/src/service\<close> and \<^verbatim>\<open>metric.rs\<close>,
    \<^verbatim>\<open>error.rs\<close>, \<^verbatim>\<open>retry.rs\<close> of \<^verbatim>\<open>tonlibjson-client\<close>.
  \<^item> \<open>Discovery\<close>: \<^verbatim>\<open>ton-client-util/src/discover\<close>; shown: the services it announces are
    those of the last configuration, and that one failed read ends it.
  \<^item> \<open>Ton_Client\<close>, \<open>Ton_Streams\<close>, \<open>Ton_History\<close>: \<^verbatim>\<open>tonlibjson-client/src/ton.rs\<close>; shown:
    the stream of a block yields every transaction and ends, the two merged directions yield each
    exactly once, a range of an account's history yields exactly the transactions between its ends,
    and the concurrent variant yields the same transactions.
  \<^item> \<open>Liteserver_Client\<close>, \<open>Trackers\<close>: \<^verbatim>\<open>ton-liteserver-client/src\<close>; the client's actor as a
    step relation, the block trackers as one function per turn of their loop, routing by the tracked
    bounds; shown: every query is answered, and with its own answer, the trackers publish rising block
    numbers and search sparingly, and routing reads the tracked bounds as integers, whatever the casts.
  \<^item> \<open>Tlb\<close>: \<^verbatim>\<open>ton-liteserver-client/src/tlb\<close>; the decoders of block headers, proofs and shard
    descriptions against the schemas written beside them: what a schema describes is decoded to the
    value it describes, and a tag that no schema has panics. The root theory joins it with the trackers.
  \<^item> \<open>Tl_Parser\<close>: \<^verbatim>\<open>tl_parser/src/lib.rs\<close>; the combinators of a schema, the text and the bytes of a
    constructor number, the readers of a field's type, and the loop over the sections of a schema.
  \<^item> \<open>Tl_Grammar\<close>, \<open>Tl_Printed\<close>: the grammar in the same file, one definition per function, with the
    combinators of \<^verbatim>\<open>nom\<close> as a parameter. The first shows that every function of the grammar returns
    a suffix of its input and never panics; the second that parsing returns on every text, and that a
    schema written in the form its constructor numbers are computed from is read back as it is.
    The root theory joins them with the generator below: what is declared in the text of a schema is
    what goes over the wire.
  \<^item> \<open>Tl_Generator\<close>, \<open>Tl_Generated\<close>: \<^verbatim>\<open>ton-liteserver-client/build.rs\<close>. The first is the generator,
    with a datatype for the code it quotes; the second runs that code. Shown: for every combinator
    the generated struct is written and read back, flags and optional fields included, and so are
    enums with their constructor numbers. What the compiler accepts (\<open>compiles\<close>, \<open>fields_typed\<close>) and
    what the format carries (\<open>flag_bits_below_31\<close>, \<open>fields_encodable\<close>, \<open>no_stale_flag\<close>) are separate
    hypotheses; shown as well: what is lost outside the latter.
  \<^item> \<open>Tonlib_Generator\<close>: \<^verbatim>\<open>tonlibjson-client/build.rs\<close> and \<^verbatim>\<open>deserialize.rs\<close>; the configuration
    and the attributes of the generated structs, and the decoders they name.
  \<^item> \<open>Grpc\<close>: \<^verbatim>\<open>ton-grpc/src\<close>; shown: a request for transactions between two blocks is answered with
    exactly those, the streams of identifiers and of account addresses are complete and do not panic, a
    cell comes with the block it was read at.
  \<^item> \<open>Ton_Contract\<close>: \<^verbatim>\<open>ton-contract/src\<close>; which results of a get-method are a sequence number, and
    that cells and numbers survive the stack.
  \<^item> \<open>Emulators\<close>: \<^verbatim>\<open>tvm-grpc/src\<close>; shown: streams do not influence one another and leave
    no emulator behind.

  \<^bold>\<open>Modelling decisions.\<close>
  \<^item> An \<open>Err\<close> is a value of \<open>res\<close>; a panic is \<open>None\<close> of an option. Integer arithmetic wraps as in the
    release profile, either on words or with the reduction written out.
  \<^item> Functions of other crates and of the C libraries are fields of a record that every definition
    takes as an argument. What the program relies on is a locale: \<open>bytes_crate\<close> (buffers),
    \<open>stream_cipher\<close> and \<open>adnl_crypto\<close> (AES-CTR, SHA-256, Ed25519), \<open>bitvec_crate\<close>,
    \<open>itertools_crate\<close>, \<open>addr_crates\<close> (hex, base64, CRC), \<open>toner_crate\<close> and \<open>contract_crates\<close> (bits,
    cells and bags of cells), \<open>nom_crate\<close> (parser combinators), from which follows \<open>section_grammar\<close>
    (what the loop of the schema parser needs of its grammar). Each is interpreted by concrete functions,
    so its laws are consistent, and the witnesses evaluate on those.
  \<^item> Contracts between components are locales as well: \<open>tl_codec\<close> and \<open>tl_element\<close> (a writer and
    reader pair, and what makes it an element of vectors), \<open>routed_service\<close> (what the router may ask
    of a service, provided by the cursor client and by the tracked client), \<open>tl_types\<close> (the
    implemented types a generated struct may use, to which each struct adds itself), \<open>stream_service\<close> (a
    handler of emulator requests, provided by both emulator services).
  \<^item> Channels, tables and locks are HOL lists and maps. Concurrency is a step relation or an arbitrary
    interleaving of commands. Random values (identifiers, nonces, the choice among equal servers) are
    arguments, so that a theorem holds for every choice.
  \<^item> A remote server is a function from requests to answers; theorems about streams and searches state
    as hypotheses what the server's chain of blocks and transactions looks like. Some of these servers
    are ideal: \<open>timeline\<close> knows a block for every sequence number from the account's birth on, also for
    those to come, and \<open>page_server\<close> cuts its pages of a block out of one list that does not change.
    Requests that the code sends concurrently (\<open>try_join!\<close>, buffered streams) are asked one after the
    other.

  \<^bold>\<open>Loops, bounds and fuel.\<close> Loops over data are structural. The grammar of the
  schema language is recursive through its combinators; the depth of its calls is bounded by one more
  than the length of the text, and its own equations are proved from that (\<open>term_unfold\<close>,
  \<open>args_unfold\<close>), so the bound is never reached. No other definition takes fuel. Loops
  that depend on what a server answers (the searches, the pages of a stream, the pages of a history)
  are \<open>partial_function (option)\<close>, where \<open>None\<close> is the loop that never ends; the properties prove
  that they return \<open>Some\<close>. The searches assume sequence numbers below \<open>2^30\<close>, so that the sum of the
  two ends does not wrap; the concurrent range uses the program's chunks of 28800 blocks.

  \<^bold>\<open>Not modelled.\<close> Timers, metrics and logging; printing the generated items as text; the JSON of the requests to the C library, which \<^verbatim>\<open>serde\<close> derives from the generated
  attributes; reading of configuration files and name servers; the tasks, channels and sockets of the
  runtime beyond their order; the build of the C libraries, the mains, examples and tests.
\<close>

section \<open>Properties that span components\<close>

text \<open>
  C2. What a lite server proves is what the client routes by. When the server answers the request for
  the header of the last masterchain block with the bytes of a Merkle proof of a well-formed header,
  one turn of the tracker decodes exactly that header and publishes it, and from then on the tracked
  client takes a masterchain block to be available exactly when its sequence number lies between that
  of the first known block and that of the proved header.
\<close>

theorem served_header_routes_requests:
  assumes "toner_crate T parser_of currency_bits currency_ok"
    and "merkle_proof_ok m" "length pruned = 3"
    and "boc_root header_bytes = Some (parser_of (merkle_proof_bits m) (merkle_proof_refs m pruned))"
    and "parse_proof L = proof_header boc_root T"
    and "tc_last_block t = Some b" "tc_first_header t = Some f"
    and "ls_block_header L (tracked_inner t) (get_block_header_new b) = (Ok header_bytes, c)"
  shows "\<exists>t'. last_header_turn L t = Some t' \<and> tc_last_header t' = Some (virtual_root m) \<and>
    (\<forall>sh q. tracked_contains V t' (- 1) (Seqno sh q) = Some (
       wrap_i32 (uint (info_seq_no (info f))) \<le> q \<and> q \<le> wrap_i32 (uint (info_seq_no (info (virtual_root m))))))"
proof -
  have "fully T (parse_merkle_proof T) (parser_of (merkle_proof_bits m) (merkle_proof_refs m pruned)) =
      Some (Ok (m, parser_of [] []))"
    by (rule toner_crate.reads_fully [OF assms(1)], rule toner_crate.reads_merkle_proof [OF assms(1-3)])
  then have "parse_proof L header_bytes = Some (virtual_root m)" using assms(4,5) by (simp add: proof_header_def)
  then have "last_header_turn L t = Some (t\<lparr>tracked_inner := c, tc_last_header := Some (virtual_root m)\<rparr>)"
    using assms(6,8) by (simp add: last_header_turn_def)
  then show ?thesis using assms(7) by (simp add: tracked_contains_def)
qed

definition header_server :: "unit ls_ops" where
  "header_server = \<lparr>ls_info = (\<lambda>c. (Err Elapsed, c)), ls_wait_info = (\<lambda>c _. (Err Elapsed, c)),
     ls_lookup = (\<lambda>c _. (Err Elapsed, c)), ls_block = (\<lambda>c _. (Err Elapsed, c)),
     ls_block_header = (\<lambda>c _. (Ok [1], c)), ls_all_shards = (\<lambda>c _. (Err Elapsed, c)),
     parse_proof = proof_header
       (\<lambda>_. Some (merkle_proof_bits example_proof, merkle_proof_refs example_proof (replicate 3 (Cell [] [])))) std_toner,
     parse_proof_prefix = (\<lambda>_. None), parse_shard_hashes = (\<lambda>_. None)\<rparr>"

definition example_first_known :: "unit TrackedClient" where
  "example_first_known = (tracked_new ())\<lparr>
     tc_last_block := Some \<lparr>workchain = - 1, shard = 1, seqno = 8, node_root_hash = [], node_file_hash = []\<rparr>,
     tc_first_header := Some \<lparr>global_id = - 239, info = example_info\<lparr>info_seq_no := 2\<rparr>\<rparr>\<rparr>"

theorem served_header_routes_requests_witness:
  "\<exists>t'. last_header_turn header_server example_first_known = Some t' \<and> tc_last_header t' = Some (virtual_root example_proof) \<and>
    (\<forall>sh q. tracked_contains std_bitvec t' (- 1) (Seqno sh q) = Some (2 \<le> q \<and> q \<le> 8))"
proof -
  have w: "wrap_i32 2 = 2" "wrap_i32 8 = 8" by (simp_all add: wrap_i32_def)
  have "\<exists>t'. last_header_turn header_server example_first_known = Some t' \<and> tc_last_header t' = Some (virtual_root example_proof) \<and>
    (\<forall>sh q. tracked_contains std_bitvec t' (- 1) (Seqno sh q) = Some (
       wrap_i32 (uint (info_seq_no (info \<lparr>global_id = - 239, info = example_info\<lparr>info_seq_no := 2\<rparr>\<rparr>))) \<le> q \<and>
       q \<le> wrap_i32 (uint (info_seq_no (info (virtual_root example_proof))))))"
    by (rule served_header_routes_requests [OF std_toner.toner_crate_axioms example_proof_ok, where
        pruned = "replicate 3 (Cell [] [])" and header_bytes = "[1]" and c = "()" and
        boc_root = "\<lambda>_. Some (merkle_proof_bits example_proof, merkle_proof_refs example_proof (replicate 3 (Cell [] [])))" and
        b = "\<lparr>workchain = - 1, shard = 1, seqno = 8, node_root_hash = [], node_file_hash = []\<rparr>"])
      (simp_all add: header_server_def example_first_known_def)
  then show ?thesis by (simp add: w example_proof_def example_info_def)
qed






end
